(* ===== verification/Prelude.thy ===== *)
theory Prelude
  imports Main "HOL-Library.Word" "HOL-Library.Monad_Syntax"
begin

text \<open>
  Shared vocabulary of the development: bytes and their little-endian encoding of C
  integers, reading and writing a byte range of a file's contents, and the generic lemmas
  on lists, options and sums that the component theories use.

  Two collections are kept: \<open>esfs_bytes\<close> holds the rewrite rules on byte ranges, and
  \<open>esfs_frame\<close> the rules that say which part of the state an operation leaves alone.
\<close>

unbundle bit_operations_syntax

named_theorems esfs_bytes \<open>rewrite rules for byte ranges of files\<close>
named_theorems esfs_frame \<open>what an operation leaves unchanged\<close>

type_synonym byte = "8 word"

lemma list_all_tl [simp]: "list_all P xs \<Longrightarrow> list_all P (tl xs)"
  by (cases xs) auto

section \<open>C integers in memory\<close>

text \<open>The \<open>k\<close> bytes of an unsigned C integer on a little-endian machine, and back.\<close>

fun le_bytes :: "nat \<Rightarrow> nat \<Rightarrow> byte list" where
  "le_bytes 0 n = []"
| "le_bytes (Suc k) n = word_of_nat (n mod 256) # le_bytes k (n div 256)"

fun le_nat :: "byte list \<Rightarrow> nat" where
  "le_nat [] = 0"
| "le_nat (b # bs) = unat b + 256 * le_nat bs"

lemma length_le_bytes [simp]: "length (le_bytes k n) = k"
  by (induction k arbitrary: n) auto

lemma le_bytes_Nil [simp]: "le_bytes k n = [] \<longleftrightarrow> k = 0"
  using length_le_bytes [of k n] by (cases k) auto

lemma unat_byte_of_nat [simp]: "unat (word_of_nat (n mod 256) :: byte) = n mod 256"
  by (simp add: unat_of_nat take_bit_eq_mod)

lemma le_nat_le_bytes [simp]: "le_nat (le_bytes k n) = n mod 256 ^ k"
proof (induction k arbitrary: n)
  case (Suc k)
  then show ?case by (simp add: mod_mult2_eq)
qed simp

lemma le_nat_replicate_0 [simp]: "le_nat (replicate k 0) = 0"
  by (induction k) auto

lemma le_nat_less: "le_nat bs < 256 ^ length bs"
proof (induction bs)
  case (Cons b bs)
  have "unat b < 256" using unsigned_less [of b] by simp
  with Cons show ?case by simp
qed simp

section \<open>Byte ranges of a file\<close>

text \<open>
  What \<open>pread\<close> returns (at most \<open>n\<close> bytes from \<open>off\<close>, fewer at the end of the file) and what
  \<open>pwrite\<close> leaves in the file (a gap before \<open>off\<close> reads as zero bytes; writing nothing changes
  nothing).
\<close>

definition read_at :: "'a list \<Rightarrow> nat \<Rightarrow> nat \<Rightarrow> 'a list" where
  "read_at xs n off = take n (drop off xs)"

definition write_at :: "byte list \<Rightarrow> byte list \<Rightarrow> nat \<Rightarrow> byte list" where
  "write_at xs ys off =
     (if ys = [] then xs
      else take off xs @ replicate (off - length xs) 0 @ ys @ drop (off + length ys) xs)"

text \<open>What \<open>truncate\<close> leaves: the first \<open>n\<close> bytes, filled up with zero bytes.\<close>

definition resize_to :: "byte list \<Rightarrow> nat \<Rightarrow> byte list" where
  "resize_to xs n = take n xs @ replicate (n - length xs) 0"

lemma length_read_at [simp]: "length (read_at xs n off) = min n (length xs - off)"
  by (simp add: read_at_def)

lemma nth_read_at [esfs_bytes]:
  "i < n \<Longrightarrow> off + i < length xs \<Longrightarrow> read_at xs n off ! i = xs ! (off + i)"
  by (simp add: read_at_def)

lemma length_write_at [simp]:
  "ys \<noteq> [] \<Longrightarrow> length (write_at xs ys off) = max (length xs) (off + length ys)"
  by (auto simp: write_at_def)

lemma write_at_Nil [simp]: "write_at xs [] off = xs"
  by (simp add: write_at_def)

lemma length_write_at_ge: "length xs \<le> length (write_at xs ys off)"
  by (cases "ys = []") auto

lemma nth_write_at [esfs_bytes]:
  assumes "i < length (write_at xs ys off)"
  shows "write_at xs ys off ! i =
    (if off \<le> i \<and> i < off + length ys then ys ! (i - off)
     else if i < length xs then xs ! i else 0)"
proof (cases "ys = []")
  case False
  with assms show ?thesis
    by (auto simp: write_at_def nth_append min_def)
qed (use assms in auto)

lemma length_resize_to [simp]: "length (resize_to xs n) = n"
  by (simp add: resize_to_def)

lemma nth_resize_to [esfs_bytes]:
  "i < n \<Longrightarrow> resize_to xs n ! i = (if i < length xs then xs ! i else 0)"
  by (simp add: resize_to_def nth_append)

lemma read_at_write_at_same:
  "ys \<noteq> [] \<Longrightarrow> read_at (write_at xs ys off) (length ys) off = ys"
  by (rule nth_equalityI) (auto simp: nth_read_at nth_write_at)

lemma read_at_write_at_other:
  assumes "off' + n \<le> length xs" and "off' + n \<le> off \<or> off + length ys \<le> off'"
  shows "read_at (write_at xs ys off) n off' = read_at xs n off'"
proof (rule nth_equalityI)
  show "length (read_at (write_at xs ys off) n off') = length (read_at xs n off')"
    using assms length_write_at_ge [of xs ys off] by simp
next
  fix i assume "i < length (read_at (write_at xs ys off) n off')"
  then have i: "i < n" by simp
  have l: "off' + i < length xs" using i assms(1) by simp
  moreover have "off' + i < length (write_at xs ys off)"
    using l length_write_at_ge [of xs ys off] by simp
  ultimately show "read_at (write_at xs ys off) n off' ! i = read_at xs n off' ! i"
    using i assms(2) by (auto simp: nth_read_at nth_write_at)
qed

lemma read_at_append_left: "off + n \<le> length xs \<Longrightarrow> read_at (xs @ ys) n off = read_at xs n off"
  by (simp add: read_at_def)

lemma write_at_end: "write_at xs ys (length xs) = xs @ ys"
  by (simp add: write_at_def)

lemma read_at_eqI:
  assumes "length xs = length ys"
    and "\<And>i. off \<le> i \<Longrightarrow> i < off + n \<Longrightarrow> i < length xs \<Longrightarrow> xs ! i = ys ! i"
  shows "read_at xs n off = read_at ys n off"
  by (rule nth_equalityI) (use assms in \<open>auto simp: nth_read_at\<close>)

section \<open>Outcomes of computations that may block\<close>

text \<open>
  An operation that takes a lock may never return; it then has the value \<open>None\<close>. \<open>wlp m Q\<close> says
  that \<open>Q\<close> holds of whatever \<open>m\<close> returns.
\<close>

definition wlp :: "'a option \<Rightarrow> ('a \<Rightarrow> bool) \<Rightarrow> bool" where
  "wlp m Q \<longleftrightarrow> (\<forall>x. m = Some x \<longrightarrow> Q x)"

lemma wlp_Some [simp]: "wlp (Some x) Q = Q x"
  and wlp_None [simp]: "wlp None Q"
  by (auto simp: wlp_def)

lemma wlp_bind [simp]: "wlp (Option.bind m k) Q = wlp m (\<lambda>x. wlp (k x) Q)"
  by (cases m) auto

lemma wlp_mono: "wlp m P \<Longrightarrow> (\<And>x. P x \<Longrightarrow> Q x) \<Longrightarrow> wlp m Q"
  by (auto simp: wlp_def)

lemma wlpD: "wlp m Q \<Longrightarrow> m = Some x \<Longrightarrow> Q x"
  by (auto simp: wlp_def)

lemma wlp_conj: "wlp m P \<Longrightarrow> wlp m Q \<Longrightarrow> wlp m (\<lambda>x. P x \<and> Q x)"
  by (auto simp: wlp_def)

text \<open>\<open>returns m Q\<close> says that \<open>m\<close> does return, and \<open>Q\<close> holds of what it returns.\<close>

definition returns :: "'a option \<Rightarrow> ('a \<Rightarrow> bool) \<Rightarrow> bool" where
  "returns m Q \<longleftrightarrow> (\<exists>x. m = Some x \<and> Q x)"

lemma returns_Some [simp]: "returns (Some x) Q = Q x"
  and returns_None [simp]: "\<not> returns None Q"
  by (auto simp: returns_def)

lemma returns_bind [simp]: "returns (Option.bind m k) Q = returns m (\<lambda>x. returns (k x) Q)"
  by (cases m) auto

lemma returns_map [simp]: "returns (map_option f m) Q = returns m (\<lambda>x. Q (f x))"
  by (cases m) auto

lemma returns_mono: "returns m P \<Longrightarrow> (\<And>x. P x \<Longrightarrow> Q x) \<Longrightarrow> returns m Q"
  by (auto simp: returns_def)

lemma returns_ex: "returns m Q \<longleftrightarrow> m \<noteq> None \<and> wlp m Q"
  by (auto simp: returns_def wlp_def)

end
