(* ===== verification/Posix.thy ===== *)
theory Posix
  imports Prelude
begin

text \<open>
  The part of the C library and of the operating system that ESFS calls: path names, inodes,
  directory entries, open file descriptions and directory streams, with one function per system
  call. A system call takes the state and returns its result (an \<open>errno\<close>, or a value) and the
  new state.

  Failures that do not follow from the state (a full disk, an I/O error, an interrupted call)
  come from a schedule, the list \<open>fates\<close>: every call takes the next entry of it, and an empty
  schedule means that nothing unforeseen happens. Theorems that do not mention \<open>fates\<close> hold for
  every such schedule. Symbolic links, hard links, permission checks by the kernel (they are
  among the scheduled failures) and time stamps are left out, as ESFS does not support or look
  at them.
\<close>

section \<open>Error numbers and results\<close>

datatype errno = EPERM | ENOENT | EIO | ENXIO | EBADF | ENOMEM | EACCES | EFAULT | EBUSY | EEXIST
  | ENOTDIR | EISDIR | EINVAL | EFBIG | ENOSPC | ENAMETOOLONG | ENOTEMPTY | EBADE | EREMCHG
  | ENOTSUP | EDEADLK | EOTHER nat

text \<open>The numbers of Linux; \<open>EOTHER\<close> stands for the codes ESFS never names.\<close>

fun errno_num :: "errno \<Rightarrow> nat" where
  "errno_num EPERM = 1" | "errno_num ENOENT = 2" | "errno_num EIO = 5" | "errno_num ENXIO = 6"
| "errno_num EBADF = 9" | "errno_num ENOMEM = 12" | "errno_num EACCES = 13"
| "errno_num EFAULT = 14" | "errno_num EBUSY = 16" | "errno_num EEXIST = 17"
| "errno_num ENOTDIR = 20" | "errno_num EISDIR = 21" | "errno_num EINVAL = 22"
| "errno_num EFBIG = 27" | "errno_num ENOSPC = 28" | "errno_num EDEADLK = 35"
| "errno_num ENAMETOOLONG = 36" | "errno_num ENOTEMPTY = 39" | "errno_num EBADE = 52"
| "errno_num EREMCHG = 78" | "errno_num ENOTSUP = 95" | "errno_num (EOTHER n) = 200 + n"

type_synonym 'a res = "errno + 'a"

section \<open>Path names\<close>

text \<open>
  A path is a string; the kernel splits it at the slashes, ignores empty components and \<open>.\<close>, and
  goes up at \<open>..\<close>.
\<close>

fun split_slash :: "string \<Rightarrow> string list" where
  "split_slash [] = [[]]"
| "split_slash (c # cs) =
     (if c = CHR ''/'' then [] # split_slash cs
      else (case split_slash cs of [] \<Rightarrow> [[c]] | x # xs \<Rightarrow> (c # x) # xs))"

definition dot_step :: "string list \<Rightarrow> string \<Rightarrow> string list" where
  "dot_step acc c =
     (if c = '''' \<or> c = ''.'' then acc else if c = ''..'' then butlast acc else acc @ [c])"

definition comps :: "string \<Rightarrow> string list" where
  "comps p = foldl dot_step [] (split_slash p)"

lemma split_slash_not_Nil [simp]: "split_slash p \<noteq> []"
  by (induction p) (auto split: list.splits)

lemma split_slash_append: "split_slash (p @ CHR ''/'' # q) = split_slash p @ split_slash q"
  by (induction p) (auto split: list.splits)

lemma comps_append: "comps (p @ CHR ''/'' # q) = foldl dot_step (comps p) (split_slash q)"
  by (simp add: comps_def split_slash_append)

section \<open>Modes and flags\<close>

type_synonym mode = "32 word"

abbreviation (input) "S_IFMT \<equiv> 0xF000 :: mode"
abbreviation (input) "S_IFDIR \<equiv> 0x4000 :: mode"
abbreviation (input) "S_IFREG \<equiv> 0x8000 :: mode"
abbreviation (input) "S_IRWXU \<equiv> 0x1C0 :: mode"
abbreviation (input) "S_IRUSR \<equiv> 0x100 :: mode"
abbreviation (input) "S_IXUSR \<equiv> 0x40 :: mode"
abbreviation (input) "S_IROTH \<equiv> 0x4 :: mode"
abbreviation (input) "S_IXOTH \<equiv> 0x1 :: mode"

definition S_ISDIR :: "mode \<Rightarrow> bool" where
  "S_ISDIR m \<longleftrightarrow> m AND S_IFMT = S_IFDIR"

type_synonym oflags = "32 word"

abbreviation (input) "O_RDONLY \<equiv> 0 :: oflags"
abbreviation (input) "O_WRONLY \<equiv> 1 :: oflags"
abbreviation (input) "O_RDWR \<equiv> 2 :: oflags"
abbreviation (input) "O_ACCMODE \<equiv> 3 :: oflags"
abbreviation (input) "O_CREAT \<equiv> 0x40 :: oflags"
abbreviation (input) "O_EXCL \<equiv> 0x80 :: oflags"
abbreviation (input) "O_TRUNC \<equiv> 0x200 :: oflags"
abbreviation (input) "O_APPEND \<equiv> 0x400 :: oflags"
abbreviation (input) "O_NOATIME \<equiv> 0x40000 :: oflags"

definition has_flag :: "oflags \<Rightarrow> oflags \<Rightarrow> bool" where
  "has_flag fl f \<longleftrightarrow> fl AND f \<noteq> 0"

section \<open>The state of the operating system\<close>

record stat =
  st_mode :: mode
  st_uid :: "32 word"
  st_gid :: "32 word"
  st_size :: nat

record inode =
  i_mode :: mode
  i_uid :: "32 word"
  i_gid :: "32 word"
  i_data :: "byte list"

record ofile =
  of_ino :: nat
  of_flags :: oflags
  of_pos :: nat

datatype fate = Normal | Fail errno | Short nat

record os =
  dents :: "(string list \<times> nat) list"
  inodes :: "nat \<Rightarrow> inode"
  next_ino :: nat
  fds :: "ofile option list"
  dirs :: "string list option list"
  euid :: "32 word"
  egid :: "32 word"
  fates :: "fate list"

text \<open>The largest value of \<open>off_t\<close>, and so the longest file.\<close>

abbreviation (input) "MAX_OFF \<equiv> 0x7FFFFFFFFFFFFFFF :: nat"

definition stat_of :: "inode \<Rightarrow> stat" where
  "stat_of i = \<lparr>st_mode = i_mode i, st_uid = i_uid i, st_gid = i_gid i,
     st_size = length (i_data i)\<rparr>"

definition lookup :: "'z os_scheme \<Rightarrow> string list \<Rightarrow> nat option" where
  "lookup w k = map_of (dents w) k"

definition is_dir :: "'z os_scheme \<Rightarrow> nat \<Rightarrow> bool" where
  "is_dir w i \<longleftrightarrow> S_ISDIR (i_mode (inodes w i))"

definition fdata :: "'z os_scheme \<Rightarrow> nat \<Rightarrow> byte list" where
  "fdata w i = i_data (inodes w i)"

text \<open>The walk along the components of a path: every component but the last is a directory.\<close>

fun walk :: "'z os_scheme \<Rightarrow> string list \<Rightarrow> string list \<Rightarrow> nat res" where
  "walk w done [] = (case lookup w done of None \<Rightarrow> Inl ENOENT | Some i \<Rightarrow> Inr i)"
| "walk w done (c # cs) =
     (case lookup w done of
        None \<Rightarrow> Inl ENOENT
      | Some i \<Rightarrow> if is_dir w i then walk w (done @ [c]) cs else Inl ENOTDIR)"

definition resolve :: "'z os_scheme \<Rightarrow> string list \<Rightarrow> nat res" where
  "resolve w k = walk w [] k"

definition pop_fate :: "'z os_scheme \<Rightarrow> fate \<times> 'z os_scheme" where
  "pop_fate w = (case fates w of [] \<Rightarrow> (Normal, w) | f # fs \<Rightarrow> (f, w\<lparr>fates := fs\<rparr>))"

definition set_data :: "nat \<Rightarrow> byte list \<Rightarrow> 'z os_scheme \<Rightarrow> 'z os_scheme" where
  "set_data i bs w = w\<lparr>inodes := (inodes w)(i := (inodes w i)\<lparr>i_data := bs\<rparr>)\<rparr>"

definition add_node :: "string list \<Rightarrow> mode \<Rightarrow> 'z os_scheme \<Rightarrow> 'z os_scheme" where
  "add_node k m w =
     w\<lparr>dents := (k, next_ino w) # dents w,
       inodes := (inodes w)(next_ino w :=
         \<lparr>i_mode = m, i_uid = euid w, i_gid = egid w, i_data = []\<rparr>),
       next_ino := Suc (next_ino w)\<rparr>"

definition del_node :: "string list \<Rightarrow> 'z os_scheme \<Rightarrow> 'z os_scheme" where
  "del_node k w = w\<lparr>dents := filter (\<lambda>e. fst e \<noteq> k) (dents w)\<rparr>"

text \<open>Names in a directory; the parent of a new node must be one.\<close>

definition children :: "'z os_scheme \<Rightarrow> string list \<Rightarrow> string list" where
  "children w d = map (last \<circ> fst) (filter (\<lambda>e. fst e \<noteq> [] \<and> butlast (fst e) = d) (dents w))"

definition parent_dir :: "'z os_scheme \<Rightarrow> string list \<Rightarrow> unit res" where
  "parent_dir w k =
     (case resolve w (butlast k) of
        Inl e \<Rightarrow> Inl e
      | Inr i \<Rightarrow> if is_dir w i then Inr () else Inl ENOTDIR)"

section \<open>File descriptors\<close>

fun first_free :: "'a option list \<Rightarrow> nat" where
  "first_free [] = 0"
| "first_free (None # xs) = 0"
| "first_free (Some x # xs) = Suc (first_free xs)"

definition put_slot :: "'a option list \<Rightarrow> nat \<Rightarrow> 'a \<Rightarrow> 'a option list" where
  "put_slot xs n x = (if n < length xs then xs[n := Some x] else xs @ [Some x])"

definition get_fd :: "'z os_scheme \<Rightarrow> int \<Rightarrow> ofile option" where
  "get_fd w fd = (if 0 \<le> fd \<and> nat fd < length (fds w) then fds w ! nat fd else None)"

text \<open>\<open>open\<close> returns the lowest descriptor that is not in use.\<close>

definition alloc_fd :: "nat \<Rightarrow> oflags \<Rightarrow> 'z os_scheme \<Rightarrow> int res \<times> 'z os_scheme" where
  "alloc_fd i fl w =
     (let n = first_free (fds w)
      in (Inr (int n),
          w\<lparr>fds := put_slot (fds w) n \<lparr>of_ino = i, of_flags = fl, of_pos = 0\<rparr>\<rparr>))"

definition readable :: "oflags \<Rightarrow> bool" where
  "readable fl \<longleftrightarrow> fl AND O_ACCMODE \<noteq> O_WRONLY"

definition writable :: "oflags \<Rightarrow> bool" where
  "writable fl \<longleftrightarrow> fl AND O_ACCMODE \<noteq> O_RDONLY"

section \<open>System calls on paths\<close>

definition sys_open ::
  "string \<Rightarrow> oflags \<Rightarrow> mode \<Rightarrow> 'z os_scheme \<Rightarrow> int res \<times> 'z os_scheme" where
  "sys_open p fl md w0 =
     (let (ft, w) = pop_fate w0; k = comps p in
      case ft of
        Fail e \<Rightarrow> (Inl e, w)
      | _ \<Rightarrow>
        (case resolve w k of
           Inr i \<Rightarrow>
             if has_flag fl O_CREAT \<and> has_flag fl O_EXCL then (Inl EEXIST, w)
             else if is_dir w i \<and> (writable fl \<or> has_flag fl O_CREAT) then (Inl EISDIR, w)
             else alloc_fd i fl
                    (if has_flag fl O_TRUNC \<and> \<not> is_dir w i then set_data i [] w else w)
         | Inl e \<Rightarrow>
             if e = ENOENT \<and> has_flag fl O_CREAT then
               (case parent_dir w k of
                  Inl e \<Rightarrow> (Inl e, w)
                | Inr _ \<Rightarrow>
                    alloc_fd (next_ino w) fl (add_node k (S_IFREG OR (md AND NOT S_IFMT)) w))
             else (Inl e, w)))"

definition sys_lstat :: "string \<Rightarrow> 'z os_scheme \<Rightarrow> stat res \<times> 'z os_scheme" where
  "sys_lstat p w0 =
     (let (ft, w) = pop_fate w0 in
      case ft of
        Fail e \<Rightarrow> (Inl e, w)
      | _ \<Rightarrow> (case resolve w (comps p) of
                Inl e \<Rightarrow> (Inl e, w)
              | Inr i \<Rightarrow> (Inr (stat_of (inodes w i)), w)))"

definition sys_mkdir :: "string \<Rightarrow> mode \<Rightarrow> 'z os_scheme \<Rightarrow> unit res \<times> 'z os_scheme" where
  "sys_mkdir p md w0 =
     (let (ft, w) = pop_fate w0; k = comps p in
      case ft of
        Fail e \<Rightarrow> (Inl e, w)
      | _ \<Rightarrow>
        (case resolve w k of
           Inr i \<Rightarrow> (Inl EEXIST, w)
         | Inl e \<Rightarrow>
             if e = ENOENT then
               (case parent_dir w k of
                  Inl e \<Rightarrow> (Inl e, w)
                | Inr _ \<Rightarrow> (Inr (), add_node k (S_IFDIR OR (md AND NOT S_IFMT)) w))
             else (Inl e, w)))"

definition sys_rmdir :: "string \<Rightarrow> 'z os_scheme \<Rightarrow> unit res \<times> 'z os_scheme" where
  "sys_rmdir p w0 =
     (let (ft, w) = pop_fate w0; k = comps p in
      case ft of
        Fail e \<Rightarrow> (Inl e, w)
      | _ \<Rightarrow>
        (case resolve w k of
           Inl e \<Rightarrow> (Inl e, w)
         | Inr i \<Rightarrow>
             if k = [] then (Inl EBUSY, w)
             else if \<not> is_dir w i then (Inl ENOTDIR, w)
             else if children w k \<noteq> [] then (Inl ENOTEMPTY, w)
             else (Inr (), del_node k w)))"

definition sys_unlink :: "string \<Rightarrow> 'z os_scheme \<Rightarrow> unit res \<times> 'z os_scheme" where
  "sys_unlink p w0 =
     (let (ft, w) = pop_fate w0; k = comps p in
      case ft of
        Fail e \<Rightarrow> (Inl e, w)
      | _ \<Rightarrow>
        (case resolve w k of
           Inl e \<Rightarrow> (Inl e, w)
         | Inr i \<Rightarrow> if is_dir w i then (Inl EISDIR, w) else (Inr (), del_node k w)))"

definition sys_truncate :: "string \<Rightarrow> nat \<Rightarrow> 'z os_scheme \<Rightarrow> unit res \<times> 'z os_scheme" where
  "sys_truncate p n w0 =
     (let (ft, w) = pop_fate w0 in
      case ft of
        Fail e \<Rightarrow> (Inl e, w)
      | _ \<Rightarrow>
        (case resolve w (comps p) of
           Inl e \<Rightarrow> (Inl e, w)
         | Inr i \<Rightarrow>
             if is_dir w i then (Inl EISDIR, w)
             else if n > MAX_OFF then (Inl EFBIG, w)
             else (Inr (), set_data i (resize_to (fdata w i) n) w)))"

definition sys_chmod :: "string \<Rightarrow> mode \<Rightarrow> 'z os_scheme \<Rightarrow> unit res \<times> 'z os_scheme" where
  "sys_chmod p md w0 =
     (let (ft, w) = pop_fate w0 in
      case ft of
        Fail e \<Rightarrow> (Inl e, w)
      | _ \<Rightarrow>
        (case resolve w (comps p) of
           Inl e \<Rightarrow> (Inl e, w)
         | Inr i \<Rightarrow>
             (Inr (), w\<lparr>inodes := (inodes w)(i := (inodes w i)\<lparr>i_mode :=
                (i_mode (inodes w i) AND S_IFMT) OR (md AND NOT S_IFMT)\<rparr>)\<rparr>)))"

definition sys_chown ::
  "string \<Rightarrow> 32 word \<Rightarrow> 32 word \<Rightarrow> 'z os_scheme \<Rightarrow> unit res \<times> 'z os_scheme" where
  "sys_chown p u g w0 =
     (let (ft, w) = pop_fate w0 in
      case ft of
        Fail e \<Rightarrow> (Inl e, w)
      | _ \<Rightarrow>
        (case resolve w (comps p) of
           Inl e \<Rightarrow> (Inl e, w)
         | Inr i \<Rightarrow>
             (Inr (), w\<lparr>inodes := (inodes w)(i := (inodes w i)\<lparr>
                i_uid := (if u = -1 then i_uid (inodes w i) else u),
                i_gid := (if g = -1 then i_gid (inodes w i) else g)\<rparr>)\<rparr>)))"

text \<open>
  \<open>access\<close>, \<open>utimensat\<close> and \<open>statvfs\<close> only look the path up here: permissions and times are not
  part of the state.
\<close>

definition sys_lookup :: "string \<Rightarrow> 'z os_scheme \<Rightarrow> unit res \<times> 'z os_scheme" where
  "sys_lookup p w0 =
     (let (ft, w) = pop_fate w0 in
      case ft of
        Fail e \<Rightarrow> (Inl e, w)
      | _ \<Rightarrow> (case resolve w (comps p) of Inl e \<Rightarrow> (Inl e, w) | Inr i \<Rightarrow> (Inr (), w)))"

section \<open>System calls on descriptors\<close>

text \<open>A failing \<open>close\<close> has released the descriptor all the same.\<close>

definition sys_close :: "int \<Rightarrow> 'z os_scheme \<Rightarrow> unit res \<times> 'z os_scheme" where
  "sys_close fd w0 =
     (let (ft, w) = pop_fate w0 in
      case get_fd w fd of
        None \<Rightarrow> (Inl EBADF, w)
      | Some f \<Rightarrow>
          (case ft of Fail e \<Rightarrow> Inl e | _ \<Rightarrow> Inr (), w\<lparr>fds := (fds w)[nat fd := None]\<rparr>))"

definition sys_pread :: "int \<Rightarrow> nat \<Rightarrow> nat \<Rightarrow> 'z os_scheme \<Rightarrow> byte list res \<times> 'z os_scheme" where
  "sys_pread fd n off w0 =
     (let (ft, w) = pop_fate w0 in
      case get_fd w fd of
        None \<Rightarrow> (Inl EBADF, w)
      | Some f \<Rightarrow>
          if \<not> readable (of_flags f) then (Inl EBADF, w)
          else if is_dir w (of_ino f) then (Inl EISDIR, w)
          else
            (case ft of
               Fail e \<Rightarrow> (Inl e, w)
             | Short k \<Rightarrow> (Inr (read_at (fdata w (of_ino f)) (min n k) off), w)
             | Normal \<Rightarrow> (Inr (read_at (fdata w (of_ino f)) n off), w)))"

text \<open>
  \<open>pwrite\<close> ignores the offset and appends on a descriptor opened with \<open>O_APPEND\<close>, as Linux does.
\<close>

definition sys_pwrite :: "int \<Rightarrow> byte list \<Rightarrow> nat \<Rightarrow> 'z os_scheme \<Rightarrow> nat res \<times> 'z os_scheme" where
  "sys_pwrite fd bs off w0 =
     (let (ft, w) = pop_fate w0 in
      case get_fd w fd of
        None \<Rightarrow> (Inl EBADF, w)
      | Some f \<Rightarrow>
          if \<not> writable (of_flags f) then (Inl EBADF, w)
          else
            (let i = of_ino f; old = fdata w i;
                 pos = (if has_flag (of_flags f) O_APPEND then length old else off) in
             if pos + length bs > MAX_OFF then (Inl EFBIG, w)
             else
               (case ft of
                  Fail e \<Rightarrow> (Inl e, w)
                | Short k \<Rightarrow>
                    (Inr (min k (length bs)), set_data i (write_at old (take k bs) pos) w)
                | Normal \<Rightarrow> (Inr (length bs), set_data i (write_at old bs pos) w))))"

text \<open>\<open>write\<close> goes to the descriptor's position, or to the end with \<open>O_APPEND\<close>, and moves it.\<close>

definition set_pos :: "int \<Rightarrow> nat \<Rightarrow> 'z os_scheme \<Rightarrow> 'z os_scheme" where
  "set_pos fd n w =
     (case get_fd w fd of
        None \<Rightarrow> w
      | Some f \<Rightarrow> w\<lparr>fds := (fds w)[nat fd := Some (f\<lparr>of_pos := n\<rparr>)]\<rparr>)"

definition sys_write :: "int \<Rightarrow> byte list \<Rightarrow> 'z os_scheme \<Rightarrow> nat res \<times> 'z os_scheme" where
  "sys_write fd bs w =
     (case get_fd w fd of
        None \<Rightarrow> (Inl EBADF, snd (pop_fate w))
      | Some f \<Rightarrow>
          (let pos = (if has_flag (of_flags f) O_APPEND then length (fdata w (of_ino f))
                      else of_pos f);
               (r, w') = sys_pwrite fd bs pos w
           in case r of Inl e \<Rightarrow> (Inl e, w') | Inr n \<Rightarrow> (Inr n, set_pos fd (pos + n) w')))"

definition sys_lseek_end :: "int \<Rightarrow> 'z os_scheme \<Rightarrow> nat res \<times> 'z os_scheme" where
  "sys_lseek_end fd w0 =
     (let (ft, w) = pop_fate w0 in
      case get_fd w fd of
        None \<Rightarrow> (Inl EBADF, w)
      | Some f \<Rightarrow>
          (case ft of
             Fail e \<Rightarrow> (Inl e, w)
           | _ \<Rightarrow> (let n = length (fdata w (of_ino f)) in (Inr n, set_pos fd n w))))"

definition sys_ftruncate :: "int \<Rightarrow> nat \<Rightarrow> 'z os_scheme \<Rightarrow> unit res \<times> 'z os_scheme" where
  "sys_ftruncate fd n w0 =
     (let (ft, w) = pop_fate w0 in
      case get_fd w fd of
        None \<Rightarrow> (Inl EBADF, w)
      | Some f \<Rightarrow>
          if \<not> writable (of_flags f) then (Inl EINVAL, w)
          else if n > MAX_OFF then (Inl EFBIG, w)
          else
            (case ft of
               Fail e \<Rightarrow> (Inl e, w)
             | _ \<Rightarrow> (Inr (), set_data (of_ino f) (resize_to (fdata w (of_ino f)) n) w)))"

definition sys_fstat :: "int \<Rightarrow> 'z os_scheme \<Rightarrow> stat res \<times> 'z os_scheme" where
  "sys_fstat fd w0 =
     (let (ft, w) = pop_fate w0 in
      case get_fd w fd of
        None \<Rightarrow> (Inl EBADF, w)
      | Some f \<Rightarrow>
          (case ft of Fail e \<Rightarrow> (Inl e, w) | _ \<Rightarrow> (Inr (stat_of (inodes w (of_ino f))), w)))"

definition sys_fsync :: "int \<Rightarrow> 'z os_scheme \<Rightarrow> unit res \<times> 'z os_scheme" where
  "sys_fsync fd w0 =
     (let (ft, w) = pop_fate w0 in
      case get_fd w fd of
        None \<Rightarrow> (Inl EBADF, w)
      | Some f \<Rightarrow> (case ft of Fail e \<Rightarrow> (Inl e, w) | _ \<Rightarrow> (Inr (), w)))"

section \<open>Directory streams\<close>

definition sys_opendir :: "string \<Rightarrow> 'z os_scheme \<Rightarrow> nat res \<times> 'z os_scheme" where
  "sys_opendir p w0 =
     (let (ft, w) = pop_fate w0; k = comps p in
      case ft of
        Fail e \<Rightarrow> (Inl e, w)
      | _ \<Rightarrow>
        (case resolve w k of
           Inl e \<Rightarrow> (Inl e, w)
         | Inr i \<Rightarrow>
             if \<not> is_dir w i then (Inl ENOTDIR, w)
             else
               (let n = first_free (dirs w)
                in (Inr n, w\<lparr>dirs := put_slot (dirs w) n
                       (''.'' # ''..'' # children w k)\<rparr>))))"

definition get_stream :: "'z os_scheme \<Rightarrow> nat \<Rightarrow> string list option" where
  "get_stream w d = (if d < length (dirs w) then dirs w ! d else None)"

text \<open>\<open>readdir\<close>: \<open>Inr None\<close> is the end of the stream.\<close>

definition sys_readdir :: "nat \<Rightarrow> 'z os_scheme \<Rightarrow> string option res \<times> 'z os_scheme" where
  "sys_readdir d w0 =
     (let (ft, w) = pop_fate w0 in
      case get_stream w d of
        None \<Rightarrow> (Inl EBADF, w)
      | Some names \<Rightarrow>
          (case ft of
             Fail e \<Rightarrow> (Inl e, w)
           | _ \<Rightarrow> (case names of
                     [] \<Rightarrow> (Inr None, w)
                   | x # xs \<Rightarrow> (Inr (Some x), w\<lparr>dirs := (dirs w)[d := Some xs]\<rparr>))))"

definition sys_closedir :: "nat \<Rightarrow> 'z os_scheme \<Rightarrow> unit res \<times> 'z os_scheme" where
  "sys_closedir d w0 =
     (let (ft, w) = pop_fate w0 in
      case get_stream w d of
        None \<Rightarrow> (Inl EBADF, w)
      | Some names \<Rightarrow>
          (case ft of Fail e \<Rightarrow> Inl e | _ \<Rightarrow> Inr (), w\<lparr>dirs := (dirs w)[d := None]\<rparr>))"

end
