(* ===== verification/Types.thy ===== *)
theory Types
  imports Posix
begin

text \<open>
  The constants and types of \<open>types.h\<close>: the lock table, the global data of the file system
  (\<open>fsdata_t\<close>), paths in the snapshot space, the header of a map file, the steps of a file in a
  snapshot, and the file handle (\<open>mfd_t\<close>).

  The state of the whole program is a \<open>world\<close>: the state of the operating system extended with the
  fields of \<open>fsdata_t\<close>. The block size is a compile-time constant of the program (\<open>BL_SLOG\<close> is 17);
  it is a field \<open>bl_slog\<close> of the state here, which no operation changes, so that the theorems hold
  for every block size and witnesses can use small blocks.
\<close>

section \<open>Constants\<close>

definition PATH_MAX :: nat where "PATH_MAX = 4096"
definition BL_SLOG :: nat where "BL_SLOG = 17"
definition BLP_S :: nat where "BLP_S = 8"
definition MAX_SNAPSHOTS :: nat where "MAX_SNAPSHOTS = 1024 * 1024"
definition SNDIR :: string where "SNDIR = ''/snapshots''"
definition SNDIR_LEN :: nat where "SNDIR_LEN = 10"
definition EXT_DAT :: string where "EXT_DAT = ''.dat''"
definition EXT_MAP :: string where "EXT_MAP = ''.map''"
definition EXT_HID :: string where "EXT_HID = ''.hid''"
definition EXT_LEN :: nat where "EXT_LEN = 4"
definition DIRSEP :: string where "DIRSEP = ''/''"
definition DIRSEPCH :: char where "DIRSEPCH = CHR ''/''"
definition LOCK_NUM :: nat where "LOCK_NUM = 64"
definition LOCKLABEL_RMDIR :: string where "LOCKLABEL_RMDIR = ''*rmdir''"

lemmas const_defs = PATH_MAX_def BLP_S_def MAX_SNAPSHOTS_def SNDIR_def SNDIR_LEN_def EXT_DAT_def
  EXT_MAP_def EXT_HID_def EXT_LEN_def DIRSEP_def DIRSEPCH_def LOCK_NUM_def LOCKLABEL_RMDIR_def

text \<open>Special values of the descriptors kept in a file handle.\<close>

abbreviation (input) "SN_STEPS_MAIN \<equiv> -7 :: int"
abbreviation (input) "SN_STEPS_UNUSED \<equiv> -8 :: int"
abbreviation (input) "SN_STEPS_NOTOPEN \<equiv> -9 :: int"
abbreviation (input) "MFD_FD_NOSN \<equiv> -1 :: int"
abbreviation (input) "MFD_FD_RDONLY \<equiv> -2 :: int"
abbreviation (input) "MFD_FD_ENOENT \<equiv> -3 :: int"
abbreviation (input) "MFD_FD_ZLEN \<equiv> -4 :: int"

section \<open>The lock table and the global data\<close>

type_synonym tid = nat
type_synonym locklabel = "64 word"

text \<open>An element of the lock table; a mutex is free or has the thread that holds it.\<close>

record mflock =
  label :: locklabel
  mutex :: "tid option"
  mod_mutex :: "tid option"
  want :: "32 word"

text \<open>
  \<open>fsdata_t\<close> over the state of the system. \<open>sn_is_any\<close> is the flag of the same name. Beside the
  fields of the C struct there are the calling thread (\<open>self\<close>), the bytes a fresh block buffer
  happens to hold (\<open>junk\<close>), the number of block buffers on the heap (\<open>heap_bufs\<close>) and the block
  size.
\<close>

record world = os +
  rootdir :: string
  rootdir_len :: nat
  sn_dir :: string
  sn_number :: nat
  sn_lat_dir :: string
  sn_lat_dir_len :: nat
  sn_is_any :: bool
  mflocks :: "mflock list"
  block_buffer :: "byte list"
  self :: tid
  junk :: "byte list"
  heap_bufs :: nat
  bl_slog :: nat

definition BL_S :: "world \<Rightarrow> nat" where
  "BL_S w = 2 ^ bl_slog w"

lemma BL_S_pos [simp]: "0 < BL_S w"
  by (simp add: BL_S_def)

section \<open>Paths in the snapshot space\<close>

datatype snpath_types = Snpath_root | Snpath_id | Snpath_full

record snpath =
  is_there :: snpath_types
  snp_id :: string
  inpath :: string

section \<open>The header of a map file\<close>

record mapheader =
  mh_version :: nat
  mh_exists :: nat
  mh_fstat :: stat
  mh_signature :: "byte list"

text \<open>
  The bytes of the header: the C struct of two \<open>int\<close>s, a \<open>struct stat\<close> (144 bytes on x86-64, of
  which only the fields of the model are kept) and four characters, padded to a multiple of 8.
\<close>

definition stat_bytes :: "stat \<Rightarrow> byte list" where
  "stat_bytes st =
     replicate 24 0 @ le_bytes 4 (unat (st_mode st)) @ le_bytes 4 (unat (st_uid st))
     @ le_bytes 4 (unat (st_gid st)) @ replicate 12 0 @ le_bytes 8 (st_size st)
     @ replicate 88 0"

definition bytes_stat :: "byte list \<Rightarrow> stat" where
  "bytes_stat bs =
     \<lparr>st_mode = word_of_nat (le_nat (read_at bs 4 24)),
      st_uid = word_of_nat (le_nat (read_at bs 4 28)),
      st_gid = word_of_nat (le_nat (read_at bs 4 32)),
      st_size = le_nat (read_at bs 8 48)\<rparr>"

definition MAPHEADER_S :: nat where "MAPHEADER_S = 160"

definition mapheader_bytes :: "mapheader \<Rightarrow> byte list" where
  "mapheader_bytes h =
     le_bytes 4 (mh_version h) @ le_bytes 4 (mh_exists h) @ stat_bytes (mh_fstat h)
     @ resize_to (mh_signature h) 4 @ replicate 4 0"

definition bytes_mapheader :: "byte list \<Rightarrow> mapheader" where
  "bytes_mapheader bs =
     \<lparr>mh_version = le_nat (read_at bs 4 0), mh_exists = le_nat (read_at bs 4 4),
      mh_fstat = bytes_stat (read_at bs 144 8), mh_signature = read_at bs 4 152\<rparr>"

text \<open>\<open>"ESFS"\<close> in ASCII.\<close>

definition ESFS_SIGNATURE :: "byte list" where "ESFS_SIGNATURE = [69, 83, 70, 83]"

lemma length_stat_bytes [simp]: "length (stat_bytes st) = 144"
  by (simp add: stat_bytes_def)

lemma length_mapheader_bytes [simp]: "length (mapheader_bytes h) = MAPHEADER_S"
  by (simp add: mapheader_bytes_def MAPHEADER_S_def)

lemma word_of_nat_unat_mod [simp]: "word_of_nat (unat (x :: 32 word) mod 4294967296) = x"
proof -
  have "unat x < 4294967296" using unsigned_less [of x] by simp
  then show ?thesis by simp
qed

lemma bytes_stat_bytes:
  assumes "st_size st < 2 ^ 64"
  shows "bytes_stat (stat_bytes st) = st"
proof -
  have "st_size st mod 18446744073709551616 = st_size st" using assms by simp
  then show ?thesis
    by (cases st) (simp add: bytes_stat_def stat_bytes_def read_at_def)
qed

definition mapheader_wf :: "mapheader \<Rightarrow> bool" where
  "mapheader_wf h \<longleftrightarrow> mh_version h < 2 ^ 32 \<and> mh_exists h < 2 ^ 32
     \<and> st_size (mh_fstat h) < 2 ^ 64 \<and> length (mh_signature h) = 4"

lemma bytes_mapheader_bytes:
  assumes "mapheader_wf h"
  shows "bytes_mapheader (mapheader_bytes h @ rest) = h"
proof -
  have "read_at (stat_bytes (mh_fstat h) @ xs) 144 0 = stat_bytes (mh_fstat h)" for xs
    by (simp add: read_at_def)
  moreover have "resize_to (mh_signature h) 4 = mh_signature h"
    using assms by (simp add: mapheader_wf_def resize_to_def)
  ultimately show ?thesis
    using assms
    by (cases h) (simp add: bytes_mapheader_def mapheader_bytes_def mapheader_wf_def read_at_def
        bytes_stat_bytes)
qed

section \<open>File handles\<close>

record sn_step =
  step_path :: string
  step_mapfd :: int
  step_datfd :: int
  step_dirfd :: "nat option"

datatype mfd_types = Mfd_main | Mfd_sn_root | Mfd_sn_id | Mfd_sn_full

record mfd =
  is_main :: mfd_types
  mapheader :: mapheader
  mfd_locklabel :: locklabel
  mfd_sn_number :: nat
  mainfd :: int
  maindir :: nat
  mapfd :: int
  datfd :: int
  vpath :: string
  latest_written_block_cache :: nat
  sn_current :: nat
  sn_first_file :: int
  sn_steps :: "sn_step list"

end
