(* ===== verification/Util.thy ===== *)
theory Util
  imports Types
begin

text \<open>
  The low-level tools of \<open>util.c\<close>: building and mapping paths with their length checks, taking a
  path in the snapshot space apart, lock labels, reading a snapshot pointer file, and the check
  of the constants.

  The length checks are done in the C types: \<open>strlen\<close> is a \<open>size_t\<close>, so the other side of the
  comparison is converted to an unsigned 64-bit number (\<open>size_lt\<close>), and a negative bound becomes a
  huge one.
\<close>

section \<open>Building paths\<close>

definition size_lt :: "nat \<Rightarrow> int \<Rightarrow> bool" where
  "size_lt n k \<longleftrightarrow> (word_of_nat n :: 64 word) < word_of_int k"

definition get_prefix_path :: "string \<Rightarrow> string \<Rightarrow> nat \<Rightarrow> string res" where
  "get_prefix_path oldpath prefix prefixlen =
     (if size_lt (length oldpath) (int PATH_MAX - int prefixlen)
      then Inr (take prefixlen prefix @ oldpath) else Inl ENAMETOOLONG)"

definition get_map_prefix_path :: "string \<Rightarrow> string \<Rightarrow> nat \<Rightarrow> string res" where
  "get_map_prefix_path oldpath prefix prefixlen =
     (if size_lt (length oldpath) (int PATH_MAX - int EXT_LEN - int prefixlen)
      then Inr (take prefixlen prefix @ oldpath @ take EXT_LEN EXT_MAP)
      else Inl ENAMETOOLONG)"

definition get_dat_prefix_path :: "string \<Rightarrow> string \<Rightarrow> nat \<Rightarrow> string res" where
  "get_dat_prefix_path oldpath prefix prefixlen =
     (if size_lt (length oldpath) (int PATH_MAX - int EXT_LEN - int prefixlen)
      then Inr (take prefixlen prefix @ oldpath @ take EXT_LEN EXT_DAT)
      else Inl ENAMETOOLONG)"

definition get_hid_path :: "string \<Rightarrow> string res" where
  "get_hid_path oldpath =
     (if size_lt (length oldpath) (int PATH_MAX - int EXT_LEN)
      then Inr (oldpath @ take EXT_LEN EXT_HID) else Inl ENAMETOOLONG)"

definition get_map_path :: "string \<Rightarrow> string res" where
  "get_map_path oldpath =
     (if size_lt (length oldpath) (int PATH_MAX - int EXT_LEN)
      then Inr (oldpath @ take EXT_LEN EXT_MAP) else Inl ENAMETOOLONG)"

definition get_dat_path :: "string \<Rightarrow> string res" where
  "get_dat_path oldpath =
     (if size_lt (length oldpath) (int PATH_MAX - int EXT_LEN)
      then Inr (oldpath @ take EXT_LEN EXT_DAT) else Inl ENAMETOOLONG)"

definition get_dir_hid_path :: "string \<Rightarrow> string res" where
  "get_dir_hid_path oldpath =
     (if size_lt (length oldpath) (int PATH_MAX - int EXT_LEN - 1)
      then Inr (oldpath @ take 1 DIRSEP @ take EXT_LEN EXT_HID) else Inl ENAMETOOLONG)"

definition map_path :: "string \<Rightarrow> world \<Rightarrow> string res" where
  "map_path p w =
     (if size_lt (length p) (int PATH_MAX - int (rootdir_len w))
      then Inr (take (rootdir_len w) (rootdir w) @ p) else Inl ENAMETOOLONG)"

section \<open>Which space a path is in\<close>

definition is_path_in_sn :: "string \<Rightarrow> bool" where
  "is_path_in_sn p \<longleftrightarrow>
     take SNDIR_LEN p = SNDIR \<and> (length p = SNDIR_LEN \<or> p ! SNDIR_LEN = DIRSEPCH)"

fun strchr :: "string \<Rightarrow> char \<Rightarrow> nat option" where
  "strchr [] c = None"
| "strchr (x # xs) c = (if x = c then Some 0 else map_option Suc (strchr xs c))"

text \<open>
  \<open>decompose_sn_path\<close>: \<open>idstart\<close> is the position of the slash after \<open>/snapshots\<close>; the number of
  the slash found is relative to the character after it.
\<close>

definition decompose_sn_path :: "snpath \<Rightarrow> string \<Rightarrow> snpath" where
  "decompose_sn_path sp p =
     (let len = length p in
      if len \<le> SNDIR_LEN + 1 then sp\<lparr>is_there := Snpath_root\<rparr>
      else
        (let idstart = drop SNDIR_LEN p in
         case strchr (drop 1 idstart) DIRSEPCH of
           None \<Rightarrow> sp\<lparr>is_there := Snpath_id, snp_id := idstart\<rparr>
         | Some n \<Rightarrow>
             if n = 0 then sp\<lparr>is_there := Snpath_root\<rparr>
             else if SNDIR_LEN + 1 + n = len - 1 then
               sp\<lparr>is_there := Snpath_id, snp_id := take (len - SNDIR_LEN - 1) idstart\<rparr>
             else
               sp\<lparr>is_there := Snpath_full, snp_id := take (1 + n) idstart,
                  inpath := drop (1 + n) idstart\<rparr>))"

text \<open>A fresh \<open>snpath\<close>; the strings of the C struct are uninitialised until they are set.\<close>

definition snpath_undef :: snpath where
  "snpath_undef = \<lparr>is_there = Snpath_root, snp_id = [], inpath = []\<rparr>"

section \<open>Dispatch on the path\<close>

text \<open>
  \<open>malloc\<close> succeeds unless the schedule says otherwise. The macros at the start of the handlers:
  \<open>IF_PATH_MAIN_ONLY\<close> refuses the snapshot space; \<open>IF_PATH_SN\<close> with \<open>ELIF_PATH_MAIN\<close> chooses between
  the two branches of a handler.
\<close>

definition malloc_ok :: "'z os_scheme \<Rightarrow> bool \<times> 'z os_scheme" where
  "malloc_ok w = (let (ft, w') = pop_fate w in (case ft of Fail e \<Rightarrow> False | _ \<Rightarrow> True, w'))"

definition if_path_main_only :: "string \<Rightarrow> world \<Rightarrow> string res" where
  "if_path_main_only p w = (if is_path_in_sn p then Inl EACCES else map_path p w)"

datatype route = Sn_space string snpath | Main_space string

definition if_path_sn :: "string \<Rightarrow> world \<Rightarrow> route res \<times> world" where
  "if_path_sn p w =
     (case map_path p w of
        Inl e \<Rightarrow> (Inl ENAMETOOLONG, w)
      | Inr fpath \<Rightarrow>
          if is_path_in_sn p then
            (let (ok, w) = malloc_ok w in
             if ok then (Inr (Sn_space fpath (decompose_sn_path snpath_undef p)), w)
             else (Inl ENOMEM, w))
          else (Inr (Main_space fpath), w))"

section \<open>Lock labels\<close>

definition djb2_round :: "string \<Rightarrow> 64 word \<Rightarrow> 64 word" where
  "djb2_round s key = foldl (\<lambda>k c. (push_bit 5 k + k) + word_of_nat (of_char c)) key s"

definition djb2 :: "string \<Rightarrow> 64 word" where
  "djb2 s = (djb2_round s ^^ 5) 5381"

definition string2locklabel :: "string \<Rightarrow> locklabel" where
  "string2locklabel s = (let key = djb2 s in if key \<noteq> 0 then key else 1)"

section \<open>Pointer files\<close>

definition str_bytes :: "string \<Rightarrow> byte list" where
  "str_bytes s = map (\<lambda>c. word_of_nat (of_char c)) s"

definition c_string :: "byte list \<Rightarrow> string" where
  "c_string bs = map (\<lambda>b. char_of (unat b)) (takeWhile (\<lambda>b. b \<noteq> 0) bs)"

text \<open>
  Reads a path from a pointer file into \<open>buf\<close>. \<open>Inr 0\<close> means that the file does not exist. The
  descriptor is closed only on success.
\<close>

definition read_sndir_from_file :: "string \<Rightarrow> string \<Rightarrow> world \<Rightarrow> (nat res \<times> string) \<times> world" where
  "read_sndir_from_file buf filepath w =
     (let (fd, w) = sys_open filepath O_RDONLY 0 w in
      case fd of
        Inl e \<Rightarrow> ((if e = ENOENT then Inr 0 else Inl e, buf), w)
      | Inr fd \<Rightarrow>
          (let (ret, w) = sys_pread fd PATH_MAX 0 w in
           case ret of
             Inl e \<Rightarrow> ((Inl e, buf), w)
           | Inr bs \<Rightarrow>
               if bs = [] \<or> last bs \<noteq> 0 then ((Inl EIO, buf), w)
               else
                 (let (_, w) = sys_close fd w
                  in ((Inr (length bs - 1), c_string bs), w))))"

section \<open>The check of the constants\<close>

record params =
  p_sndir :: string
  p_sndir_len :: nat
  p_ext_dat :: string
  p_ext_hid :: string
  p_ext_len :: nat
  p_dirsep :: string
  p_sizeof_blp_t :: nat
  p_blp_s :: nat
  p_sizeof_off_t :: nat
  p_bl_slog :: nat
  p_bl_s :: int

definition check_params :: "params \<Rightarrow> int" where
  "check_params p =
     (if length (p_sndir p) \<noteq> p_sndir_len p then -51
      else if length (p_ext_dat p) \<noteq> p_ext_len p then -52
      else if length (p_ext_hid p) \<noteq> p_ext_len p then -53
      else if length (p_dirsep p) \<noteq> 1 then -54
      else if p_sizeof_blp_t p \<noteq> p_blp_s p then -10
      else if p_sizeof_off_t p * 8 > p_bl_slog p + p_blp_s p * 8 then -11
      else if sint (push_bit (p_bl_slog p) (1 :: 32 word)) \<noteq> p_bl_s p then -12
      else 0)"

definition esfs_params :: params where
  "esfs_params = \<lparr>p_sndir = SNDIR, p_sndir_len = SNDIR_LEN, p_ext_dat = EXT_DAT,
     p_ext_hid = EXT_HID, p_ext_len = EXT_LEN, p_dirsep = DIRSEP, p_sizeof_blp_t = 8,
     p_blp_s = BLP_S, p_sizeof_off_t = 8, p_bl_slog = BL_SLOG, p_bl_s = 131072\<rparr>"

section \<open>Lemmas on paths\<close>

lemma size_lt_nonneg:
  assumes "n < 2 ^ 64" and "0 \<le> k" and "k < 2 ^ 64"
  shows "size_lt n k \<longleftrightarrow> int n < k"
proof -
  have "uint (word_of_nat n :: 64 word) = int n"
    using assms(1) by (simp add: unsigned_of_nat take_bit_nat_eq_self_iff)
  moreover have "uint (word_of_int k :: 64 word) = k"
    using assms(2,3) by (simp add: unsigned_of_int take_bit_int_eq_self_iff)
  ultimately show ?thesis
    by (simp add: size_lt_def word_less_def)
qed

lemma get_map_prefix_path_ok:
  assumes "prefixlen = length prefix" and "prefixlen + EXT_LEN \<le> PATH_MAX"
    and "length oldpath < 2 ^ 64" and "get_map_prefix_path oldpath prefix prefixlen = Inr r"
  shows "r = prefix @ oldpath @ EXT_MAP \<and> length r < PATH_MAX"
  using assms size_lt_nonneg [of "length oldpath" "int PATH_MAX - int EXT_LEN - int prefixlen"]
  by (auto simp: get_map_prefix_path_def const_defs split: if_splits)

lemma strchr_None: "strchr s c = None \<longleftrightarrow> c \<notin> set s"
  by (induction s) auto

lemma strchr_append: "c \<notin> set s \<Longrightarrow> strchr (s @ c # t) c = Some (length s)"
  by (induction s) auto

lemma string2locklabel_nonzero: "string2locklabel s \<noteq> 0"
  by (simp add: string2locklabel_def Let_def)

lemma of_char_less_256: "(of_char c :: nat) < 256"
  by (cases c) (simp add: of_char_def)

lemma unat_byte_of_char [simp]: "unat (word_of_nat (of_char c) :: byte) = of_char c"
  using of_char_less_256 [of c] by (simp add: unsigned_of_nat take_bit_nat_eq_self_iff)

lemma byte_of_char_eq_0 [simp]: "(word_of_nat (of_char c) :: byte) = 0 \<longleftrightarrow> c = CHR 0x00"
proof
  assume "(word_of_nat (of_char c) :: byte) = 0"
  then have "unat (word_of_nat (of_char c) :: byte) = 0" by simp
  then have "(of_char c :: nat) = of_char (CHR 0x00)" by simp
  then show "c = CHR 0x00" by (simp only: of_char_eq_iff)
qed simp

lemma c_string_str_bytes:
  assumes "CHR 0x00 \<notin> set s"
  shows "c_string (str_bytes s @ 0 # bs) = s"
  using assms by (induction s) (auto simp: c_string_def str_bytes_def)

end
