(* ===== verification/Mflock.thy ===== *)
theory Mflock
  imports Util
begin

text \<open>
  The file-based locks of \<open>mflock.c\<close>: a table of \<open>LOCK_NUM\<close> mutexes that can be labelled, with a
  second mutex (the MOD mutex) per slot that guards adding and removing the labels that fall into
  it.

  The threads are modelled step by step: every read or write of the shared table and every mutex
  operation is one step of one thread (\<open>tstep\<close>), and a step of the system is a step of any thread
  (\<open>lstep\<close>). The increments and decrements of \<open>want\<close> are two steps each, as no mutex protects them.
  The mutexes are of the default kind, whose operations do not fail; locking one that is held
  waits. \<open>mflock_lock\<close> and \<open>mflock_unlock\<close> are the same procedures run by one thread alone, and
  \<open>mflock_solo_run\<close> shows that they agree with the steps.
\<close>

section \<open>The procedures run by one thread\<close>

definition mflock_empty :: mflock where
  "mflock_empty = \<lparr>label = 0, mutex = None, mod_mutex = None, want = 0\<rparr>"

definition mflock_init :: "world \<Rightarrow> unit res \<times> world" where
  "mflock_init w =
     (let (ok, w) = malloc_ok w in
      if ok then (Inr (), w\<lparr>mflocks := replicate LOCK_NUM mflock_empty\<rparr>)
      else (Inl ENOMEM, w))"

definition mflock_destroy :: "world \<Rightarrow> world" where
  "mflock_destroy w = w\<lparr>mflocks := []\<rparr>"

text \<open>The slot of the MOD mutex of a label: \<open>label & (LOCK_NUM - 1)\<close>.\<close>

definition mod_slot :: "locklabel \<Rightarrow> nat" where
  "mod_slot lb = unat (lb AND 63)"

definition upd_slot :: "nat \<Rightarrow> (mflock \<Rightarrow> mflock) \<Rightarrow> mflock list \<Rightarrow> mflock list" where
  "upd_slot i f T = T[i := f (T ! i)]"

fun find_slot :: "(mflock \<Rightarrow> bool) \<Rightarrow> mflock list \<Rightarrow> nat option" where
  "find_slot P [] = None"
| "find_slot P (x # xs) = (if P x then Some 0 else map_option Suc (find_slot P xs))"

text \<open>
  \<open>mflock_lock\<close> with nobody else running: a label that is in the table is taken over if its mutex is
  free; otherwise, under the MOD mutex, the first slot that is unlabelled and free is labelled. In
  every other case the call waits for ever.
\<close>

definition lock_table :: "tid \<Rightarrow> locklabel \<Rightarrow> mflock list \<Rightarrow> (nat \<times> mflock list) option" where
  "lock_table t lb T =
     (case find_slot (\<lambda>x. label x = lb) T of
        Some i \<Rightarrow>
          if mutex (T ! i) = None then Some (i, upd_slot i (mutex_update (\<lambda>_. Some t)) T) else None
      | None \<Rightarrow>
          if mod_mutex (T ! mod_slot lb) \<noteq> None then None
          else
            (case find_slot (\<lambda>x. label x = 0 \<and> mutex x = None) T of
               Some i \<Rightarrow>
                 Some (i, upd_slot i (\<lambda>x. x\<lparr>mutex := Some t, label := lb\<rparr>) T)
             | None \<Rightarrow> None))"

definition unlock_table :: "nat \<Rightarrow> mflock list \<Rightarrow> mflock list option" where
  "unlock_table i T =
     (if want (T ! i) = 0 then
        (if mod_mutex (T ! mod_slot (label (T ! i))) \<noteq> None then None
         else Some (upd_slot i (\<lambda>x. x\<lparr>label := 0, mutex := None\<rparr>) T))
      else Some (upd_slot i (mutex_update (\<lambda>_. None)) T))"

definition mflock_lock :: "locklabel \<Rightarrow> world \<Rightarrow> (nat res \<times> world) option" where
  "mflock_lock lb w =
     do {
       (i, T) \<leftarrow> lock_table (self w) lb (mflocks w);
       Some (Inr i, w\<lparr>mflocks := T\<rparr>)
     }"

definition mflock_unlock :: "nat \<Rightarrow> world \<Rightarrow> (unit res \<times> world) option" where
  "mflock_unlock i w =
     do {
       T \<leftarrow> unlock_table i (mflocks w);
       Some (Inr (), w\<lparr>mflocks := T\<rparr>)
     }"

section \<open>The procedures step by step\<close>

text \<open>
  Where a thread is. \<open>L_scan lb i m\<close>: in the loop after \<open>START\<close>, about to look at slot \<open>i\<close>, with
  (\<open>m\<close>) or without the MOD mutex; \<open>L_found\<close>: the label was seen in slot \<open>i\<close>; \<open>L_inc\<close>, \<open>L_dec\<close>: between
  reading and writing \<open>want\<close>; \<open>L_lock\<close>: about to lock the mutex; \<open>L_recheck\<close>: has it, about to look
  at the label again; \<open>L_mod\<close>: about to lock the MOD mutex. \<open>F_\<close> are the places in the loop \<open>FIND\<close>,
  \<open>Held\<close> is between the two calls, \<open>U_\<close> are the places in \<open>mflock_unlock\<close>. The label in \<open>Held\<close> and
  \<open>U_\<close> only says which call the thread made.
\<close>

datatype lpc =
    Idle
  | L_scan locklabel nat bool
  | L_found locklabel nat bool
  | L_inc locklabel nat "32 word"
  | L_lock locklabel nat
  | L_locked locklabel nat
  | L_dec locklabel nat "32 word"
  | L_recheck locklabel nat
  | L_mod locklabel
  | F_scan locklabel nat
  | F_try locklabel nat
  | F_recheck locklabel nat
  | F_label locklabel nat
  | F_unmod locklabel nat
  | F_release locklabel nat
  | Held locklabel nat
  | U_want locklabel nat
  | U_mod locklabel nat
  | U_recheck locklabel nat nat
  | U_clear locklabel nat nat
  | U_unlock locklabel nat nat
  | U_unmod nat
  | U_handover locklabel nat nat
  | U_release locklabel nat

inductive tstep :: "tid \<Rightarrow> mflock list \<Rightarrow> lpc \<Rightarrow> mflock list \<Rightarrow> lpc \<Rightarrow> bool" for t where
  call: "lb \<noteq> 0 \<Longrightarrow> tstep t T Idle T (L_scan lb 0 False)"
| scan_hit: "i < LOCK_NUM \<Longrightarrow> label (T ! i) = lb \<Longrightarrow>
    tstep t T (L_scan lb i m) T (L_found lb i m)"
| scan_next: "i < LOCK_NUM \<Longrightarrow> label (T ! i) \<noteq> lb \<Longrightarrow>
    tstep t T (L_scan lb i m) T (L_scan lb (Suc i) m)"
| scan_end: "tstep t T (L_scan lb LOCK_NUM False) T (L_mod lb)"
| scan_end_mod: "tstep t T (L_scan lb LOCK_NUM True) T (F_scan lb 0)"
| mod_lock: "mod_mutex (T ! mod_slot lb) = None \<Longrightarrow>
    tstep t T (L_mod lb) (upd_slot (mod_slot lb) (mod_mutex_update (\<lambda>_. Some t)) T)
      (L_scan lb 0 True)"
| found_unmod: "tstep t T (L_found lb i True)
    (upd_slot (mod_slot lb) (mod_mutex_update (\<lambda>_. None)) T) (L_found lb i False)"
| want_read: "tstep t T (L_found lb i False) T (L_inc lb i (want (T ! i)))"
| want_inc: "tstep t T (L_inc lb i v) (upd_slot i (want_update (\<lambda>_. v + 1)) T) (L_lock lb i)"
| mutex_lock: "mutex (T ! i) = None \<Longrightarrow>
    tstep t T (L_lock lb i) (upd_slot i (mutex_update (\<lambda>_. Some t)) T) (L_locked lb i)"
| want_read2: "tstep t T (L_locked lb i) T (L_dec lb i (want (T ! i)))"
| want_dec: "tstep t T (L_dec lb i v) (upd_slot i (want_update (\<lambda>_. v - 1)) T)
    (L_recheck lb i)"
| recheck_ok: "label (T ! i) = lb \<Longrightarrow> tstep t T (L_recheck lb i) T (Held lb i)"
| recheck_fail: "label (T ! i) \<noteq> lb \<Longrightarrow>
    tstep t T (L_recheck lb i) T (L_scan lb 0 False)"
| find_skip: "i < LOCK_NUM \<Longrightarrow> label (T ! i) \<noteq> 0 \<Longrightarrow>
    tstep t T (F_scan lb i) T (F_scan lb (Suc i))"
| find_hit: "i < LOCK_NUM \<Longrightarrow> label (T ! i) = 0 \<Longrightarrow> tstep t T (F_scan lb i) T (F_try lb i)"
| find_again: "tstep t T (F_scan lb LOCK_NUM) T (F_scan lb 0)"
| try_ok: "mutex (T ! i) = None \<Longrightarrow>
    tstep t T (F_try lb i) (upd_slot i (mutex_update (\<lambda>_. Some t)) T) (F_recheck lb i)"
| try_busy: "mutex (T ! i) \<noteq> None \<Longrightarrow> tstep t T (F_try lb i) T (F_scan lb (Suc i))"
| find_ok: "label (T ! i) = 0 \<Longrightarrow> tstep t T (F_recheck lb i) T (F_label lb i)"
| find_fail: "label (T ! i) \<noteq> 0 \<Longrightarrow> tstep t T (F_recheck lb i) T (F_release lb i)"
| set_label: "tstep t T (F_label lb i) (upd_slot i (label_update (\<lambda>_. lb)) T) (F_unmod lb i)"
| mod_unlock: "tstep t T (F_unmod lb i)
    (upd_slot (mod_slot lb) (mod_mutex_update (\<lambda>_. None)) T) (Held lb i)"
| find_release: "tstep t T (F_release lb i) (upd_slot i (mutex_update (\<lambda>_. None)) T)
    (F_scan lb 0)"
| unlock_call: "tstep t T (Held lb i) T (U_want lb i)"
| no_want: "want (T ! i) = 0 \<Longrightarrow> tstep t T (U_want lb i) T (U_mod lb i)"
| wanted: "want (T ! i) \<noteq> 0 \<Longrightarrow> tstep t T (U_want lb i) T (U_release lb i)"
| unlock_mod: "m = mod_slot (label (T ! i)) \<Longrightarrow> mod_mutex (T ! m) = None \<Longrightarrow>
    tstep t T (U_mod lb i) (upd_slot m (mod_mutex_update (\<lambda>_. Some t)) T) (U_recheck lb i m)"
| still_no_want: "want (T ! i) = 0 \<Longrightarrow> tstep t T (U_recheck lb i m) T (U_clear lb i m)"
| wanted_now: "want (T ! i) \<noteq> 0 \<Longrightarrow> tstep t T (U_recheck lb i m) T (U_handover lb i m)"
| clear_label: "tstep t T (U_clear lb i m) (upd_slot i (label_update (\<lambda>_. 0)) T)
    (U_unlock lb i m)"
| unlock_mutex: "tstep t T (U_unlock lb i m) (upd_slot i (mutex_update (\<lambda>_. None)) T)
    (U_unmod m)"
| unlock_unmod: "tstep t T (U_unmod m) (upd_slot m (mod_mutex_update (\<lambda>_. None)) T) Idle"
| handover_unmod: "tstep t T (U_handover lb i m)
    (upd_slot m (mod_mutex_update (\<lambda>_. None)) T) (U_release lb i)"
| handover: "tstep t T (U_release lb i) (upd_slot i (mutex_update (\<lambda>_. None)) T) Idle"

record lsys =
  tab :: "mflock list"
  pcs :: "tid \<Rightarrow> lpc"

inductive lstep :: "lsys \<Rightarrow> lsys \<Rightarrow> bool" where
  step: "tstep t (tab s) (pcs s t) T' c' \<Longrightarrow>
    lstep s (s\<lparr>tab := T', pcs := (pcs s)(t := c')\<rparr>)"

definition lsys_init :: lsys where
  "lsys_init = \<lparr>tab = replicate LOCK_NUM mflock_empty, pcs = (\<lambda>_. Idle)\<rparr>"

inductive lreach :: "lsys \<Rightarrow> bool" where
  start: "lreach lsys_init"
| more: "lreach s \<Longrightarrow> lstep s s' \<Longrightarrow> lreach s'"

section \<open>What a thread owns\<close>

text \<open>The mutex, the MOD mutex and the label a thread has at each place.\<close>

fun owns :: "lpc \<Rightarrow> nat option" where
  "owns (L_locked lb i) = Some i" | "owns (L_dec lb i v) = Some i"
| "owns (L_recheck lb i) = Some i" | "owns (F_recheck lb i) = Some i"
| "owns (F_label lb i) = Some i" | "owns (F_unmod lb i) = Some i"
| "owns (F_release lb i) = Some i" | "owns (Held lb i) = Some i"
| "owns (U_want lb i) = Some i" | "owns (U_mod lb i) = Some i"
| "owns (U_recheck lb i m) = Some i" | "owns (U_clear lb i m) = Some i"
| "owns (U_unlock lb i m) = Some i" | "owns (U_handover lb i m) = Some i"
| "owns (U_release lb i) = Some i" | "owns _ = None"

fun owns_mod :: "lpc \<Rightarrow> nat option" where
  "owns_mod (L_scan lb i m) = (if m then Some (mod_slot lb) else None)"
| "owns_mod (L_found lb i m) = (if m then Some (mod_slot lb) else None)"
| "owns_mod (F_scan lb i) = Some (mod_slot lb)" | "owns_mod (F_try lb i) = Some (mod_slot lb)"
| "owns_mod (F_recheck lb i) = Some (mod_slot lb)" | "owns_mod (F_label lb i) = Some (mod_slot lb)"
| "owns_mod (F_unmod lb i) = Some (mod_slot lb)" | "owns_mod (F_release lb i) = Some (mod_slot lb)"
| "owns_mod (U_recheck lb i m) = Some m" | "owns_mod (U_clear lb i m) = Some m"
| "owns_mod (U_unlock lb i m) = Some m" | "owns_mod (U_unmod m) = Some m"
| "owns_mod (U_handover lb i m) = Some m" | "owns_mod _ = None"

fun has_label :: "lpc \<Rightarrow> (locklabel \<times> nat) option" where
  "has_label (F_unmod lb i) = Some (lb, i)" | "has_label (Held lb i) = Some (lb, i)"
| "has_label (U_want lb i) = Some (lb, i)" | "has_label (U_mod lb i) = Some (lb, i)"
| "has_label (U_recheck lb i m) = Some (lb, i)" | "has_label (U_clear lb i m) = Some (lb, i)"
| "has_label (U_handover lb i m) = Some (lb, i)" | "has_label (U_release lb i) = Some (lb, i)"
| "has_label _ = None"

text \<open>The slot index a place mentions, and the number of slots known not to have the label.\<close>

fun slot_of :: "lpc \<Rightarrow> nat option" where
  "slot_of (L_found lb i m) = Some i" | "slot_of (L_inc lb i v) = Some i"
| "slot_of (L_lock lb i) = Some i" | "slot_of (F_try lb i) = Some i" | "slot_of c = owns c"

fun scanned :: "lpc \<Rightarrow> (locklabel \<times> nat) option" where
  "scanned (L_scan lb i m) = (if m then Some (lb, i) else None)"
| "scanned (F_scan lb i) = Some (lb, LOCK_NUM)" | "scanned (F_try lb i) = Some (lb, LOCK_NUM)"
| "scanned (F_recheck lb i) = Some (lb, LOCK_NUM)" | "scanned (F_label lb i) = Some (lb, LOCK_NUM)"
| "scanned (F_release lb i) = Some (lb, LOCK_NUM)" | "scanned _ = None"

fun pc_label :: "lpc \<Rightarrow> locklabel option" where
  "pc_label (L_scan lb i m) = Some lb" | "pc_label (L_found lb i m) = Some lb"
| "pc_label (L_inc lb i v) = Some lb" | "pc_label (L_lock lb i) = Some lb"
| "pc_label (L_locked lb i) = Some lb" | "pc_label (L_dec lb i v) = Some lb"
| "pc_label (L_recheck lb i) = Some lb" | "pc_label (L_mod lb) = Some lb"
| "pc_label (F_scan lb i) = Some lb" | "pc_label (F_try lb i) = Some lb"
| "pc_label (F_recheck lb i) = Some lb" | "pc_label (F_label lb i) = Some lb"
| "pc_label (F_unmod lb i) = Some lb" | "pc_label (F_release lb i) = Some lb"
| "pc_label (Held lb i) = Some lb" | "pc_label (U_want lb i) = Some lb"
| "pc_label (U_mod lb i) = Some lb" | "pc_label (U_recheck lb i m) = Some lb"
| "pc_label (U_clear lb i m) = Some lb" | "pc_label (U_unlock lb i m) = Some lb"
| "pc_label (U_handover lb i m) = Some lb" | "pc_label (U_release lb i) = Some lb"
| "pc_label _ = None"

section \<open>Invariants and runs\<close>

text \<open>
  Ownership: a thread that is past taking a mutex and not past releasing it is its holder.
  Labels: a thread between labelling and clearing finds its label in its slot. Uniqueness: no
  label is in two slots, and a thread that has scanned a part of the table under the MOD mutex
  knows that its label is not there.
\<close>

definition linv_own :: "lsys \<Rightarrow> bool" where
  "linv_own s \<longleftrightarrow>
     length (tab s) = LOCK_NUM \<and>
     (\<forall>t i. slot_of (pcs s t) = Some i \<longrightarrow> i < LOCK_NUM) \<and>
     (\<forall>t i. owns (pcs s t) = Some i \<longrightarrow> mutex (tab s ! i) = Some t) \<and>
     (\<forall>t m. owns_mod (pcs s t) = Some m \<longrightarrow> m < LOCK_NUM \<and> mod_mutex (tab s ! m) = Some t) \<and>
     (\<forall>t lb. pc_label (pcs s t) = Some lb \<longrightarrow> lb \<noteq> 0)"

definition linv_label :: "lsys \<Rightarrow> bool" where
  "linv_label s \<longleftrightarrow>
     (\<forall>t lb i. has_label (pcs s t) = Some (lb, i) \<longrightarrow> label (tab s ! i) = lb) \<and>
     (\<forall>t lb i m. pcs s t = U_clear lb i m \<or> pcs s t = U_recheck lb i m \<longrightarrow> m = mod_slot lb) \<and>
     (\<forall>t lb i. pcs s t = F_label lb i \<longrightarrow> label (tab s ! i) = 0)"

definition linv_unique :: "lsys \<Rightarrow> bool" where
  "linv_unique s \<longleftrightarrow>
     (\<forall>t lb n. scanned (pcs s t) = Some (lb, n) \<longrightarrow>
        (\<forall>j<LOCK_NUM. j < n \<longrightarrow> label (tab s ! j) \<noteq> lb)) \<and>
     (\<forall>i<LOCK_NUM. \<forall>j<LOCK_NUM. label (tab s ! i) = label (tab s ! j) \<longrightarrow>
        label (tab s ! i) \<noteq> 0 \<longrightarrow> i = j)"

text \<open>Steps of one thread alone.\<close>

inductive tsteps :: "tid \<Rightarrow> mflock list \<Rightarrow> lpc \<Rightarrow> mflock list \<Rightarrow> lpc \<Rightarrow> bool" for t where
  stop: "tsteps t T c T c"
| step: "tstep t T c T1 c1 \<Longrightarrow> tsteps t T1 c1 T' c' \<Longrightarrow> tsteps t T c T' c'"

text \<open>
  A mutex whose holder is not at a place where it has one: the holder will not release it.
\<close>

definition leaked :: "tid \<Rightarrow> nat \<Rightarrow> lsys \<Rightarrow> bool" where
  "leaked t i s \<longleftrightarrow> i < LOCK_NUM \<and> mutex (tab s ! i) = Some t \<and> owns (pcs s t) \<noteq> Some i"

definition leaked_for_ever :: "tid \<Rightarrow> nat \<Rightarrow> lsys \<Rightarrow> bool" where
  "leaked_for_ever t i s \<longleftrightarrow> (\<forall>s'. lstep\<^sup>*\<^sup>* s s' \<longrightarrow> leaked t i s')"

text \<open>
  A thread that has no part in the lock on \<open>lb\<close>, which thread \<open>t\<close> has in slot \<open>i\<close>: the slot is the only
  one with the label, its mutex is held by \<open>t\<close>, and a call for the label is on its way to waiting
  for that mutex.
\<close>

definition shut_out :: "tid \<Rightarrow> locklabel \<Rightarrow> nat \<Rightarrow> mflock list \<Rightarrow> lpc \<Rightarrow> bool" where
  "shut_out t lb i T c \<longleftrightarrow> i < length T \<and> length T = LOCK_NUM \<and> mutex (T ! i) = Some t
     \<and> (\<forall>j<LOCK_NUM. label (T ! j) = lb \<longleftrightarrow> j = i) \<and> owns c \<noteq> Some i
     \<and> (pc_label c = Some lb \<longrightarrow>
          (\<exists>k\<le>i. c = L_scan lb k False) \<or> c = L_found lb i False
          \<or> (\<exists>v. c = L_inc lb i v) \<or> c = L_lock lb i)"

text \<open>Steps of the threads other than \<open>t\<close>, in any order.\<close>

inductive others :: "tid \<Rightarrow> lsys \<Rightarrow> lsys \<Rightarrow> bool" for t where
  rest: "others t s s"
| other: "others t s s1 \<Longrightarrow> u \<noteq> t \<Longrightarrow> tstep u (tab s1) (pcs s1 u) T' c' \<Longrightarrow>
    others t s (s1\<lparr>tab := T', pcs := (pcs s1)(u := c')\<rparr>)"

text \<open>A table with nobody in it, one with label 5 held by thread 1, and the one after its release.\<close>

definition table0 :: "mflock list" where "table0 = replicate LOCK_NUM mflock_empty"

definition table1 :: "mflock list" where
  "table1 = upd_slot 0 (\<lambda>x. x\<lparr>mutex := Some 1, label := 5\<rparr>) table0"

definition table2 :: "mflock list" where
  "table2 = upd_slot 0 (\<lambda>x. x\<lparr>label := 0, mutex := None\<rparr>) table1"

text \<open>The state in which thread 1 holds label 5, and the label can be locked by nobody else.\<close>

definition lsys1 :: lsys where
  "lsys1 = \<lparr>tab = table1, pcs = (\<lambda>_. Idle)(1 := Held 5 0)\<rparr>"

text \<open>The same when thread 2 has called for label 5 as well and waits for the mutex.\<close>

definition lsys2 :: lsys where
  "lsys2 = \<lparr>tab = upd_slot 0 (want_update (\<lambda>_. 1)) table1,
     pcs = (\<lambda>_. Idle)(1 := Held 5 0, 2 := L_lock 5 0)\<rparr>"

text \<open>
  A world for examples: the root \<open>/r\<close> of a file system with nothing in it, no snapshots, an idle
  lock table and blocks of 4 bytes.
\<close>

definition world0 :: world where
  "world0 = \<lparr>dents = [([''r''], 1), ([], 0)],
     inodes = (\<lambda>_. \<lparr>i_mode = 0x41FF, i_uid = 1000, i_gid = 1000, i_data = []\<rparr>),
     next_ino = 2, fds = [], dirs = [], euid = 1000, egid = 1000, fates = [],
     rootdir = ''/r'', rootdir_len = 2, sn_dir = ''/r/snapshots'', sn_number = 0, sn_lat_dir = [],
     sn_lat_dir_len = 0, sn_is_any = False, mflocks = table0, block_buffer = [0, 0, 0, 0],
     self = 1, junk = [], heap_bufs = 0, bl_slog = 2\<rparr>"

text \<open>
  A label that is not in the table can be locked when the MOD mutex of the label is free and there
  is a free slot.
\<close>

definition lock_free :: "locklabel \<Rightarrow> mflock list \<Rightarrow> bool" where
  "lock_free lb T \<longleftrightarrow> lb \<noteq> 0 \<and> length T = LOCK_NUM \<and> list_all (\<lambda>x. label x \<noteq> lb) T
     \<and> mod_mutex (T ! mod_slot lb) = None \<and> list_ex (\<lambda>x. label x = 0 \<and> mutex x = None) T
     \<and> list_all (\<lambda>x. label x = 0 \<and> mutex x = None \<longrightarrow> want x = 0) T"

text \<open>
  What the rest of the program relies on: locking and unlocking change the lock table only, a lock
  that is free can be taken, nobody gets it while the table is left alone, and releasing it restores
  the table.
\<close>

locale lock_service =
  fixes acquire :: "locklabel \<Rightarrow> world \<Rightarrow> (nat res \<times> world) option"
    and release :: "nat \<Rightarrow> world \<Rightarrow> (unit res \<times> world) option"
    and free :: "locklabel \<Rightarrow> world \<Rightarrow> bool"
  assumes acquire_state: "acquire lb w = Some (r, w') \<Longrightarrow> \<exists>i T. r = Inr i \<and> w' = w\<lparr>mflocks := T\<rparr>"
    and release_state: "release i w = Some (u, w') \<Longrightarrow> \<exists>T. u = Inr () \<and> w' = w\<lparr>mflocks := T\<rparr>"
    and acquire_free: "free lb w \<Longrightarrow> \<exists>i w'. acquire lb w = Some (Inr i, w')"
    and acquire_excludes: "free lb w \<Longrightarrow> acquire lb w = Some (Inr i, w1) \<Longrightarrow>
      mflocks w2 = mflocks w1 \<Longrightarrow> acquire lb w2 = None"
    and release_restores: "free lb w \<Longrightarrow> acquire lb w = Some (Inr i, w1) \<Longrightarrow>
      mflocks w2 = mflocks w1 \<Longrightarrow> release i w2 = Some (Inr (), w2\<lparr>mflocks := mflocks w\<rparr>)"
begin

text \<open>
  A critical section whose body leaves the table alone returns, with the table as before; at the end
  of the body the lock still cannot be taken.
\<close>

lemma critical_section:
  assumes "free lb w"
    and "\<And>w1. \<exists>T. w1 = w\<lparr>mflocks := T\<rparr> \<Longrightarrow> mflocks (snd (body w1)) = mflocks w1"
  shows "\<exists>i T w2. acquire lb w = Some (Inr i, w\<lparr>mflocks := T\<rparr>) \<and> w2 = snd (body (w\<lparr>mflocks := T\<rparr>))
    \<and> acquire lb w2 = None \<and> release i w2 = Some (Inr (), w2\<lparr>mflocks := mflocks w\<rparr>)"
proof -
  obtain i w1 where a: "acquire lb w = Some (Inr i, w1)" using acquire_free [OF assms(1)] by blast
  with acquire_state obtain T where T: "w1 = w\<lparr>mflocks := T\<rparr>" by blast
  with assms(2) have "mflocks (snd (body w1)) = mflocks w1" by blast
  from acquire_excludes [OF assms(1) a this] release_restores [OF assms(1) a this] a T
  show ?thesis by blast
qed

end

section \<open>Steps and invariants\<close>

lemma mod_slot_less [simp]: "mod_slot lb < LOCK_NUM"
proof -
  have "lb AND 63 \<le> 63" by (rule word_and_le1)
  then have "unat (lb AND 63) \<le> unat (63 :: 64 word)" by (simp add: word_le_nat_alt)
  then show ?thesis by (simp add: mod_slot_def LOCK_NUM_def)
qed

lemma length_upd_slot [simp]: "length (upd_slot i f T) = length T"
  by (simp add: upd_slot_def)

lemma nth_upd_slot [simp]:
  "j < length T \<Longrightarrow> upd_slot i f T ! j = (if i = j then f (T ! j) else T ! j)"
  by (auto simp: upd_slot_def nth_list_update)

lemma tstep_length: "tstep t T c T' c' \<Longrightarrow> length T' = length T"
  by (erule tstep.cases) simp_all

lemma tstep_slot:
  "tstep t T c T' c' \<Longrightarrow> (\<And>i. slot_of c = Some i \<Longrightarrow> i < LOCK_NUM) \<Longrightarrow>
     slot_of c' = Some i \<Longrightarrow> i < LOCK_NUM"
  by (erule tstep.cases) (auto split: if_splits)

lemma tstep_pc_label:
  "tstep t T c T' c' \<Longrightarrow> (\<And>lb. pc_label c = Some lb \<Longrightarrow> lb \<noteq> 0) \<Longrightarrow>
     pc_label c' = Some lb \<Longrightarrow> lb \<noteq> 0"
  by (erule tstep.cases) auto

lemma tstep_mutex:
  "tstep t T c T' c' \<Longrightarrow> j < length T \<Longrightarrow> mutex (T' ! j) \<noteq> mutex (T ! j) \<Longrightarrow>
     (mutex (T ! j) = None \<and> owns c' = Some j) \<or> owns c = Some j"
  by (erule tstep.cases) (auto split: if_splits)

lemma tstep_owns:
  "tstep t T c T' c' \<Longrightarrow> owns c' = Some i \<Longrightarrow> i < length T \<Longrightarrow>
     (owns c = Some i \<Longrightarrow> mutex (T ! i) = Some t) \<Longrightarrow> mutex (T' ! i) = Some t"
  by (erule tstep.cases) auto

lemma tstep_mod_mutex:
  "tstep t T c T' c' \<Longrightarrow> j < length T \<Longrightarrow> mod_mutex (T' ! j) \<noteq> mod_mutex (T ! j) \<Longrightarrow>
     (mod_mutex (T ! j) = None \<and> owns_mod c' = Some j) \<or> owns_mod c = Some j"
  by (erule tstep.cases) (auto split: if_splits)

lemma tstep_owns_mod:
  "tstep t T c T' c' \<Longrightarrow> owns_mod c' = Some m \<Longrightarrow> length T = LOCK_NUM \<Longrightarrow>
     (owns_mod c = Some m \<Longrightarrow> m < LOCK_NUM \<and> mod_mutex (T ! m) = Some t) \<Longrightarrow>
     m < LOCK_NUM \<and> mod_mutex (T' ! m) = Some t"
  by (erule tstep.cases) (auto split: if_splits)

lemma tstep_label:
  "tstep t T c T' c' \<Longrightarrow> j < length T \<Longrightarrow> label (T' ! j) \<noteq> label (T ! j) \<Longrightarrow>
     (c = F_label (label (T' ! j)) j) \<or> (\<exists>lb m. c = U_clear lb j m \<and> label (T' ! j) = 0)"
  by (erule tstep.cases) (auto split: if_splits)

lemma tstep_has_label:
  "tstep t T c T' c' \<Longrightarrow> has_label c' = Some (lb, i) \<Longrightarrow> i < length T \<Longrightarrow>
     (has_label c = Some (lb, i) \<Longrightarrow> label (T ! i) = lb) \<Longrightarrow> label (T' ! i) = lb"
  by (erule tstep.cases) auto

lemma tstep_scanned:
  "tstep t T c T' c' \<Longrightarrow> scanned c' = Some (lb, n) \<Longrightarrow> length T = LOCK_NUM \<Longrightarrow>
     (\<And>n'. scanned c = Some (lb, n') \<Longrightarrow> \<forall>j<LOCK_NUM. j < n' \<longrightarrow> label (T ! j) \<noteq> lb) \<Longrightarrow>
     \<forall>j<LOCK_NUM. j < n \<longrightarrow> label (T' ! j) \<noteq> lb"
  by (erule tstep.cases) (auto simp: less_Suc_eq split: if_splits)

lemma tstep_unlock_slot:
  "tstep t T c T' c' \<Longrightarrow> c' = U_clear lb i m \<or> c' = U_recheck lb i m \<Longrightarrow>
     (c = U_mod lb i \<Longrightarrow> label (T ! i) = lb) \<Longrightarrow>
     (c = U_recheck lb i m \<Longrightarrow> m = mod_slot lb) \<Longrightarrow> m = mod_slot lb"
  by (erule tstep.cases) auto

lemma tstep_F_label: "tstep t T c T' (F_label lb i) \<Longrightarrow> label (T' ! i) = 0"
  by (erule tstep.cases) auto

lemma slot_of_owns: "owns c = Some i \<Longrightarrow> slot_of c = Some i"
  by (cases c) auto

lemma has_label_owns: "has_label c = Some (lb, i) \<Longrightarrow> owns c = Some i"
  by (cases c) auto

lemma has_label_pc_label: "has_label c = Some (lb, i) \<Longrightarrow> pc_label c = Some lb"
  by (cases c) auto

lemma scanned_owns_mod:
  "scanned c = Some (lb, n) \<Longrightarrow> owns_mod c = Some (mod_slot lb) \<and> pc_label c = Some lb"
  by (cases c) (auto split: if_splits)

lemma linv_init: "linv_own lsys_init" "linv_label lsys_init" "linv_unique lsys_init"
  by (auto simp: linv_own_def linv_label_def linv_unique_def lsys_init_def mflock_empty_def)

lemma owns_exclusive:
  "linv_own s \<Longrightarrow> owns (pcs s t) = Some i \<Longrightarrow> owns (pcs s u) = Some i \<Longrightarrow> t = u"
  unfolding linv_own_def by (metis option.inject)

lemma owns_mod_exclusive:
  "linv_own s \<Longrightarrow> owns_mod (pcs s t) = Some i \<Longrightarrow> owns_mod (pcs s u) = Some i \<Longrightarrow> t = u"
  unfolding linv_own_def by (metis option.inject)

lemma linv_ownD:
  assumes "linv_own s"
  shows "length (tab s) = LOCK_NUM"
    and "slot_of (pcs s t) = Some i \<Longrightarrow> i < LOCK_NUM"
    and "owns (pcs s t) = Some i \<Longrightarrow> mutex (tab s ! i) = Some t"
    and "owns (pcs s t) = Some i \<Longrightarrow> i < LOCK_NUM"
    and "owns_mod (pcs s t) = Some m \<Longrightarrow> m < LOCK_NUM \<and> mod_mutex (tab s ! m) = Some t"
    and "pc_label (pcs s t) = Some lb \<Longrightarrow> lb \<noteq> 0"
  using assms slot_of_owns unfolding linv_own_def by blast+

lemma linv_own_step:
  assumes st: "tstep t (tab s) (pcs s t) T' c'" and I: "linv_own s"
  shows "linv_own (s\<lparr>tab := T', pcs := (pcs s)(t := c')\<rparr>)"
proof -
  note D = linv_ownD [OF I]
  have own: "mutex (T' ! i) = Some u" if "owns (((pcs s)(t := c')) u) = Some i" for u i
  proof (cases "u = t")
    case True
    with that have "owns c' = Some i" by simp
    moreover from this have "i < LOCK_NUM"
      using tstep_slot [OF st D(2) [of t]] slot_of_owns by simp
    ultimately show ?thesis using tstep_owns [OF st _ _ D(3)] D(1) True by simp
  next
    case False
    with that have u: "owns (pcs s u) = Some i" by simp
    then show ?thesis
      using tstep_mutex [OF st, of i] D(1) D(3) [OF u] D(4) [OF u] owns_exclusive [OF I u] False
      by (metis option.distinct(1))
  qed
  have mod: "m < LOCK_NUM \<and> mod_mutex (T' ! m) = Some u"
    if "owns_mod (((pcs s)(t := c')) u) = Some m" for u m
  proof (cases "u = t")
    case True
    with that tstep_owns_mod [OF st _ D(1) D(5)] show ?thesis by simp
  next
    case False
    with that have u: "owns_mod (pcs s u) = Some m" by simp
    then show ?thesis
      using tstep_mod_mutex [OF st, of m] D(1) D(5) [OF u] owns_mod_exclusive [OF I u] False
      by (metis option.distinct(1))
  qed
  show ?thesis
    using own mod tstep_length [OF st] tstep_slot [OF st D(2) [of t]]
      tstep_pc_label [OF st D(6) [of t]] D
    unfolding linv_own_def by auto
qed

lemma other_label_kept:
  assumes st: "tstep t (tab s) (pcs s t) T' c'" and I: "linv_own s"
    and u: "u \<noteq> t" "owns (pcs s u) = Some i"
  shows "label (T' ! i) = label (tab s ! i)"
proof (rule ccontr)
  assume "label (T' ! i) \<noteq> label (tab s ! i)"
  moreover have "i < length (tab s)" using linv_ownD [OF I] u by metis
  ultimately have "owns (pcs s t) = Some i" using tstep_label [OF st] by fastforce
  then show False using owns_exclusive [OF I] u by blast
qed

lemma linv_label_step:
  assumes st: "tstep t (tab s) (pcs s t) T' c'" and I: "linv_own s" and L: "linv_label s"
  shows "linv_label (s\<lparr>tab := T', pcs := (pcs s)(t := c')\<rparr>)"
proof -
  note D = linv_ownD [OF I]
  have 1: "label (T' ! i) = lb" if "has_label (((pcs s)(t := c')) u) = Some (lb, i)" for u lb i
  proof (cases "u = t")
    case True
    with that have h: "has_label c' = Some (lb, i)" by simp
    then have "i < LOCK_NUM"
      using tstep_slot [OF st D(2) [of t]] slot_of_owns has_label_owns by simp
    then show ?thesis
      by (intro tstep_has_label [OF st h]) (use D(1) L in \<open>auto simp: linv_label_def\<close>)
  next
    case False
    with that have h: "has_label (pcs s u) = Some (lb, i)" by simp
    with other_label_kept [OF st I False has_label_owns] L show ?thesis
      by (fastforce simp: linv_label_def)
  qed
  have 2: "m = mod_slot lb"
    if "((pcs s)(t := c')) u = U_clear lb i m \<or> ((pcs s)(t := c')) u = U_recheck lb i m"
    for u lb i m
  proof (cases "u = t")
    case True
    have "label (tab s ! i) = lb" if "pcs s t = U_mod lb i"
      using L that unfolding linv_label_def by (metis has_label.simps(4))
    then show ?thesis
      using tstep_unlock_slot [OF st] that True L unfolding linv_label_def by (metis fun_upd_same)
  next
    case False
    with that L show ?thesis by (auto simp: linv_label_def)
  qed
  have 3: "label (T' ! i) = 0" if "((pcs s)(t := c')) u = F_label lb i" for u lb i
  proof (cases "u = t")
    case True
    with that st tstep_F_label show ?thesis by force
  next
    case False
    with that have h: "pcs s u = F_label lb i" by simp
    with other_label_kept [OF st I False, of i] L show ?thesis
      by (auto simp: linv_label_def)
  qed
  show ?thesis using 1 2 3 unfolding linv_label_def by simp
qed

lemma linv_unique_step:
  assumes st: "tstep t (tab s) (pcs s t) T' c'"
    and I: "linv_own s" and L: "linv_label s" and U: "linv_unique s"
  shows "linv_unique (s\<lparr>tab := T', pcs := (pcs s)(t := c')\<rparr>)"
proof -
  note D = linv_ownD [OF I]
  have 1: "label (T' ! j) \<noteq> lb"
    if h: "scanned (((pcs s)(t := c')) u) = Some (lb, n)" "j < LOCK_NUM" "j < n" for u lb n j
  proof (cases "u = t")
    case True
    with h tstep_scanned [OF st _ D(1)] U show ?thesis by (simp add: linv_unique_def)
  next
    case False
    with h have u: "scanned (pcs s u) = Some (lb, n)" by simp
    with h U have old: "label (tab s ! j) \<noteq> lb" by (auto simp: linv_unique_def)
    note om = scanned_owns_mod [OF u]
    show ?thesis
    proof
      assume new: "label (T' ! j) = lb"
      with old tstep_label [OF st, of j] h(2) D(1)
      have "pcs s t = F_label lb j \<or> lb = 0" by fastforce
      then show False
        using om D(6) owns_mod_exclusive [OF I] False by fastforce
    qed
  qed
  have 2: "i = j" if h: "i < LOCK_NUM" "j < LOCK_NUM" "label (T' ! i) = label (T' ! j)"
    "label (T' ! i) \<noteq> 0" for i j
  proof -
    have old: "label (tab s ! i) = label (tab s ! j) \<longrightarrow> label (tab s ! i) \<noteq> 0 \<longrightarrow> i = j"
      using U h by (simp add: linv_unique_def)
    have F: "k < LOCK_NUM \<Longrightarrow> label (tab s ! k) \<noteq> lb" if "pcs s t = F_label lb l" for k lb l
      using U that unfolding linv_unique_def by (metis scanned.simps(5))
    have step: "label (T' ! k) \<noteq> label (tab s ! k) \<Longrightarrow> pcs s t = F_label (label (T' ! k)) k"
      if "k < LOCK_NUM" "label (T' ! k) \<noteq> 0" for k
      using tstep_label [OF st, of k] D(1) that by auto
    show ?thesis
    proof (rule ccontr)
      assume "i \<noteq> j"
      with old h(3,4) have "label (T' ! i) \<noteq> label (tab s ! i) \<or> label (T' ! j) \<noteq> label (tab s ! j)"
        by auto
      then consider "pcs s t = F_label (label (T' ! i)) i" | "pcs s t = F_label (label (T' ! j)) j"
        using step h by metis
      then show False
      proof cases
        case 1
        with F h have "label (T' ! j) \<noteq> label (tab s ! j)" by metis
        with 1 step [of j] h \<open>i \<noteq> j\<close> show False by simp
      next
        case 2
        with F h have "label (T' ! i) \<noteq> label (tab s ! i)" by metis
        with 2 step [of i] h \<open>i \<noteq> j\<close> show False by simp
      qed
    qed
  qed
  show ?thesis using 1 2 unfolding linv_unique_def by simp
qed

lemma lreach_inv: "lreach s \<Longrightarrow> linv_own s \<and> linv_label s \<and> linv_unique s"
proof (induction rule: lreach.induct)
  case start
  show ?case by (simp add: linv_init)
next
  case (more s s')
  from more.hyps(2) obtain t T' c' where "tstep t (tab s) (pcs s t) T' c'"
    "s' = s\<lparr>tab := T', pcs := (pcs s)(t := c')\<rparr>"
    by (auto elim: lstep.cases)
  with more.IH show ?case
    by (simp add: linv_own_step linv_label_step linv_unique_step)
qed

text \<open>
  C9: mutual exclusion. In every reachable state of any number of threads, at most one thread is
  between being given the lock for a label and clearing that label, and it has one slot.
\<close>

theorem mflock_mutual_exclusion:
  assumes "lreach s" and "has_label (pcs s t) = Some (lb, i)" and "has_label (pcs s u) = Some (lb, j)"
  shows "t = u \<and> i = j"
proof -
  from lreach_inv [OF assms(1)] have I: "linv_own s" and L: "linv_label s" and U: "linv_unique s"
    by auto
  note o = has_label_owns [OF assms(2)] has_label_owns [OF assms(3)]
  have "label (tab s ! i) = lb" "label (tab s ! j) = lb" "lb \<noteq> 0"
    using L assms(2,3) linv_ownD(6) [OF I has_label_pc_label] by (auto simp: linv_label_def)
  moreover have "i < LOCK_NUM" "j < LOCK_NUM" using linv_ownD(4) [OF I] o by blast+
  ultimately have "i = j" using U by (simp add: linv_unique_def)
  with o owns_exclusive [OF I] show ?thesis by blast
qed

lemma leaked_step:
  assumes "linv_own s" and "lstep s s'" and "leaked t i s"
  shows "leaked t i s'"
  using assms(2)
proof cases
  case (step u T' c')
  note D = linv_ownD [OF assms(1)]
  have l: "i < LOCK_NUM" "mutex (tab s ! i) = Some t" "owns (pcs s t) \<noteq> Some i"
    using assms(3) by (auto simp: leaked_def)
  have n: "owns (pcs s u) \<noteq> Some i" using D(3) l(2,3) by fastforce
  have k: "mutex (T' ! i) = Some t"
    using tstep_mutex [OF step(2), of i] l D(1) n by auto
  have "owns c' \<noteq> Some i"
  proof
    assume o: "owns c' = Some i"
    from step(2) o n show False
      by (cases rule: tstep.cases) (use l D(1) in auto)
  qed
  with l k step show ?thesis by (auto simp: leaked_def)
qed

lemma tsteps_trans:
  "tsteps t T c T1 c1 \<Longrightarrow> tsteps t T1 c1 T' c' \<Longrightarrow> tsteps t T c T' c'"
  by (induction rule: tsteps.induct) (auto intro: tsteps.intros)

lemma tsteps_lreach:
  "tsteps t T c T' c' \<Longrightarrow> lreach s \<Longrightarrow> tab s = T \<Longrightarrow> pcs s t = c \<Longrightarrow>
     lreach (s\<lparr>tab := T', pcs := (pcs s)(t := c')\<rparr>)"
proof (induction arbitrary: s rule: tsteps.induct)
  case (stop T c)
  have eq: "s\<lparr>tab := T, pcs := (pcs s)(t := c)\<rparr> = s" using stop by (cases s) auto
  show ?case unfolding eq by (rule stop(1))
next
  case (step T c T1 c1 T' c')
  let ?s1 = "s\<lparr>tab := T1, pcs := (pcs s)(t := c1)\<rparr>"
  have "lreach ?s1" using step by (auto intro: lreach.more lstep.step)
  from step.IH [OF this] show ?case by (simp add: fun_upd_same del: fun_upd_apply)
qed

lemma find_slot_Some:
  "find_slot P T = Some i \<longleftrightarrow> i < length T \<and> P (T ! i) \<and> (\<forall>j<i. \<not> P (T ! j))"
proof (induction T arbitrary: i)
  case (Cons x T)
  then show ?case by (cases i) (auto simp: less_Suc_eq_0_disj)
qed simp

lemma find_slot_None: "find_slot P T = None \<longleftrightarrow> (\<forall>j<length T. \<not> P (T ! j))"
  by (induction T) (auto simp: less_Suc_eq_0_disj)

lemma tsteps_scan:
  assumes "\<forall>j. k \<le> j \<and> j < i \<longrightarrow> label (T ! j) \<noteq> lb" and "k \<le> i" and "i \<le> LOCK_NUM"
  shows "tsteps t T (L_scan lb k m) T (L_scan lb i m)"
  using assms(2,1,3)
proof (induction k rule: inc_induct)
  case base
  show ?case by (rule tsteps.stop)
next
  case (step n)
  then have "tsteps t T (L_scan lb (Suc n) m) T (L_scan lb i m)" by simp
  moreover have "tstep t T (L_scan lb n m) T (L_scan lb (Suc n) m)"
    using step by (intro tstep.scan_next) auto
  ultimately show ?case by (rule tsteps.step [rotated])
qed

lemma tsteps_find:
  assumes "\<forall>j. k \<le> j \<and> j < i \<longrightarrow> label (T ! j) \<noteq> 0 \<or> mutex (T ! j) \<noteq> None"
    and "k \<le> i" and "i \<le> LOCK_NUM"
  shows "tsteps t T (F_scan lb k) T (F_scan lb i)"
  using assms(2,1,3)
proof (induction k rule: inc_induct)
  case base
  show ?case by (rule tsteps.stop)
next
  case (step n)
  then have rest: "tsteps t T (F_scan lb (Suc n)) T (F_scan lb i)" by simp
  show ?case
  proof (cases "label (T ! n) = 0")
    case True
    then have "tstep t T (F_scan lb n) T (F_try lb n)" "tstep t T (F_try lb n) T (F_scan lb (Suc n))"
      using step by (auto intro: tstep.find_hit tstep.try_busy)
    then show ?thesis using rest by (blast intro: tsteps.step)
  next
    case False
    then have "tstep t T (F_scan lb n) T (F_scan lb (Suc n))"
      using step by (auto intro: tstep.find_skip)
    then show ?thesis using rest by (rule tsteps.step)
  qed
qed

lemma takeover_steps:
  assumes "mutex (T ! i) = None" "label (T ! i) = lb" "i < length T"
  shows "tsteps t T (L_found lb i False) (upd_slot i (mutex_update (\<lambda>_. Some t)) T) (Held lb i)"
proof -
  let ?v = "want (T ! i)"
  let ?T1 = "upd_slot i (want_update (\<lambda>_. ?v + 1)) T"
  let ?T2 = "upd_slot i (mutex_update (\<lambda>_. Some t)) ?T1"
  let ?T3 = "upd_slot i (want_update (\<lambda>_. want (?T2 ! i) - 1)) ?T2"
  have "?T3 = upd_slot i (mutex_update (\<lambda>_. Some t)) T"
    using assms(3) by (auto intro!: nth_equalityI)
  moreover have "tsteps t T (L_found lb i False) ?T3 (Held lb i)"
    by (rule tsteps.step [OF tstep.want_read], rule tsteps.step [OF tstep.want_inc],
        rule tsteps.step [OF tstep.mutex_lock], simp add: assms,
        rule tsteps.step [OF tstep.want_read2], rule tsteps.step [OF tstep.want_dec],
        rule tsteps.step [OF tstep.recheck_ok], simp add: assms, rule tsteps.stop)
  ultimately show ?thesis by simp
qed

lemma new_label_steps:
  assumes "length T = LOCK_NUM" "\<forall>j<LOCK_NUM. label (T ! j) \<noteq> lb" "mod_mutex (T ! mod_slot lb) = None"
    and "i < LOCK_NUM" "label (T ! i) = 0" "mutex (T ! i) = None"
    and "\<forall>j<i. \<not> (label (T ! j) = 0 \<and> mutex (T ! j) = None)"
  shows "tsteps t T (L_scan lb 0 False) (upd_slot i (\<lambda>x. x\<lparr>mutex := Some t, label := lb\<rparr>) T)
    (Held lb i)"
proof -
  let ?m = "mod_slot lb"
  let ?T1 = "upd_slot ?m (mod_mutex_update (\<lambda>_. Some t)) T"
  let ?T2 = "upd_slot i (mutex_update (\<lambda>_. Some t)) ?T1"
  let ?T3 = "upd_slot i (label_update (\<lambda>_. lb)) ?T2"
  let ?T4 = "upd_slot ?m (mod_mutex_update (\<lambda>_. None)) ?T3"
  have "?T4 = upd_slot i (\<lambda>x. x\<lparr>mutex := Some t, label := lb\<rparr>) T"
    using assms(1,3) mod_slot_less [of lb] by (auto intro!: nth_equalityI)
  moreover have "tsteps t T (L_scan lb 0 False) T (L_mod lb)"
    by (rule tsteps_trans [OF tsteps_scan [where i = LOCK_NUM]]) 
      (use assms(2) in \<open>auto intro: tsteps.step [OF tstep.scan_end] tsteps.stop\<close>)
  moreover have "tsteps t T (L_mod lb) ?T1 (F_scan lb 0)"
    by (rule tsteps.step [OF tstep.mod_lock], simp add: assms,
        rule tsteps_trans [OF tsteps_scan [where i = LOCK_NUM]])
      (use assms(1,2) in \<open>auto intro: tsteps.step [OF tstep.scan_end_mod] tsteps.stop\<close>)
  moreover have "tsteps t ?T1 (F_scan lb 0) ?T1 (F_scan lb i)"
    using assms by (intro tsteps_find) (auto split: if_splits)
  moreover have "tsteps t ?T1 (F_scan lb i) ?T4 (Held lb i)"
    by (rule tsteps.step [OF tstep.find_hit], simp add: assms, simp add: assms,
        rule tsteps.step [OF tstep.try_ok], simp add: assms,
        rule tsteps.step [OF tstep.find_ok], simp add: assms,
        rule tsteps.step [OF tstep.set_label], rule tsteps.step [OF tstep.mod_unlock],
        rule tsteps.stop)
  ultimately show ?thesis by (metis tsteps_trans)
qed

lemma lock_steps:
  assumes "length T = LOCK_NUM" and "lb \<noteq> 0" and "lock_table t lb T = Some (i, T')"
  shows "tsteps t T Idle T' (Held lb i)"
proof (rule tsteps.step [OF tstep.call [OF assms(2)]])
  show "tsteps t T (L_scan lb 0 False) T' (Held lb i)"
  proof (cases "find_slot (\<lambda>x. label x = lb) T")
    case None
    with assms(1,3) show ?thesis
      by (auto simp: lock_table_def find_slot_None find_slot_Some
          intro!: new_label_steps split: if_splits option.splits)
  next
    case (Some k)
    with assms have k: "i = k" "mutex (T ! i) = None" "label (T ! i) = lb" "i < LOCK_NUM"
      "\<forall>j<i. label (T ! j) \<noteq> lb" "T' = upd_slot i (mutex_update (\<lambda>_. Some t)) T"
      by (auto simp: lock_table_def find_slot_Some split: if_splits)
    have "tsteps t T (L_scan lb 0 False) T (L_found lb i False)"
      by (rule tsteps_trans [OF tsteps_scan [where i = i]])
        (use k in \<open>auto intro: tsteps.step [OF tstep.scan_hit] tsteps.stop\<close>)
    with takeover_steps [of T i lb t] k assms(1) show ?thesis by (auto intro: tsteps_trans)
  qed
qed

lemma unlock_steps:
  assumes "length T = LOCK_NUM" and "i < LOCK_NUM" and "unlock_table i T = Some T'"
  shows "tsteps t T (Held lb i) T' Idle"
proof (rule tsteps.step [OF tstep.unlock_call], cases "want (T ! i) = 0")
  case False
  with assms(3) show "tsteps t T (U_want lb i) T' Idle"
    by (auto simp: unlock_table_def
        intro: tsteps.step [OF tstep.wanted] tsteps.step [OF tstep.handover] tsteps.stop)
next
  case True
  let ?m = "mod_slot (label (T ! i))"
  let ?T1 = "upd_slot ?m (mod_mutex_update (\<lambda>_. Some t)) T"
  let ?T2 = "upd_slot i (label_update (\<lambda>_. 0)) ?T1"
  let ?T3 = "upd_slot i (mutex_update (\<lambda>_. None)) ?T2"
  let ?T4 = "upd_slot ?m (mod_mutex_update (\<lambda>_. None)) ?T3"
  from True assms(3) have m: "mod_mutex (T ! ?m) = None"
    and T': "T' = upd_slot i (\<lambda>x. x\<lparr>label := 0, mutex := None\<rparr>) T"
    by (auto simp: unlock_table_def split: if_splits)
  have "?T4 = T'"
    using assms(1) m mod_slot_less unfolding T' by (auto intro!: nth_equalityI)
  moreover have "tsteps t T (U_want lb i) ?T4 Idle"
    by (rule tsteps.step [OF tstep.no_want], simp add: True,
        rule tsteps.step [OF tstep.unlock_mod [OF refl]], simp add: m,
        rule tsteps.step [OF tstep.still_no_want], simp add: assms True,
        rule tsteps.step [OF tstep.clear_label], rule tsteps.step [OF tstep.unlock_mutex],
        rule tsteps.step [OF tstep.unlock_unmod], rule tsteps.stop)
  ultimately show "tsteps t T (U_want lb i) T' Idle" by simp
qed

lemma table_nth: "i < LOCK_NUM \<Longrightarrow> table0 ! i = mflock_empty" "length table0 = LOCK_NUM" "length table1 = LOCK_NUM" "length table2 = LOCK_NUM"
   "i < LOCK_NUM \<Longrightarrow> table1 ! i = (if i = 0 then mflock_empty\<lparr>mutex := Some 1, label := 5\<rparr> else mflock_empty)"
   "i < LOCK_NUM \<Longrightarrow> table2 ! i = mflock_empty"
  by (simp_all add: table0_def table1_def table2_def mflock_empty_def)

lemma lock_T0: "lock_table 1 5 table0 = Some (0, table1)"
proof -
  have "find_slot (\<lambda>x. label x = 5) table0 = None"
    by (simp add: find_slot_None table_nth, simp add: mflock_empty_def)
  moreover have "find_slot (\<lambda>x. label x = 0 \<and> mutex x = None) table0 = Some 0"
    by (simp add: find_slot_Some table_nth LOCK_NUM_def, simp add: mflock_empty_def table0_def LOCK_NUM_def)
  ultimately show ?thesis
    by (simp add: lock_table_def table_nth table1_def, simp add: mflock_empty_def)
qed

lemma unlock_T1: "unlock_table 0 table1 = Some table2"
proof -
  have "0 < LOCK_NUM" by (simp add: LOCK_NUM_def)
  then show ?thesis
    by (simp add: unlock_table_def table_nth table2_def) (simp add: mflock_empty_def)
qed

lemma lsys1_reach: "lreach lsys1"
proof -
  have "tsteps 1 table0 Idle table1 (Held 5 0)"
    by (rule lock_steps [OF _ _ lock_T0]) (simp_all add: table_nth)
  from tsteps_lreach [OF this lreach.start] show ?thesis
    by (simp add: lsys1_def lsys_init_def table0_def)
qed

lemma others_trans: "tsteps u T c T' c' \<Longrightarrow> u \<noteq> t \<Longrightarrow> others t s s1 \<Longrightarrow> tab s1 = T \<Longrightarrow> pcs s1 u = c \<Longrightarrow>
    others t s (s1\<lparr>tab := T', pcs := (pcs s1)(u := c')\<rparr>)"
proof (induction arbitrary: s1 rule: tsteps.induct)
  case (stop T c)
  then have "s1\<lparr>tab := T, pcs := (pcs s1)(u := c)\<rparr> = s1" by auto
  with stop show ?case by (simp only:)
next
  case (step T c T1 c1 T' c')
  then have "others t s (s1\<lparr>tab := T1, pcs := (pcs s1)(u := c1)\<rparr>)" by (auto intro: others.other)
  from step.IH [OF step.prems(1) this] show ?case by (simp cong: if_cong)
qed

lemma lsys2_others: "others 1 lsys1 lsys2"
proof -
  have N: "0 < LOCK_NUM" by (simp add: LOCK_NUM_def)
  have "tsteps 2 table1 Idle (upd_slot 0 (want_update (\<lambda>_. want (table1 ! 0) + 1)) table1) (L_lock 5 0)"
    by (rule tsteps.step [OF tstep.call [where lb = 5]], simp,
        rule tsteps.step [OF tstep.scan_hit], simp add: N, simp add: table_nth N,
        rule tsteps.step [OF tstep.want_read], rule tsteps.step [OF tstep.want_inc], rule tsteps.stop)
  moreover have "want (table1 ! 0) = 0" by (simp add: table_nth N mflock_empty_def)
  ultimately have "tsteps 2 table1 Idle (upd_slot 0 (want_update (\<lambda>_. 1)) table1) (L_lock 5 0)" by simp
  from others_trans [OF this _ others.rest, of 1 lsys1] show ?thesis
    by (simp add: lsys1_def lsys2_def)
qed

lemma leaked_steps: "lstep\<^sup>*\<^sup>* s s' \<Longrightarrow> lreach s \<Longrightarrow> leaked t i s \<Longrightarrow> lreach s' \<and> leaked t i s'"
  by (induction rule: rtranclp_induct) (auto dest: lreach_inv intro: leaked_step lreach.more)

theorem mflock_mutual_exclusion_witness:
  "lreach lsys1 \<and> {u. \<exists>j. has_label (pcs lsys1 u) = Some (5, j)} = {1}"
proof -
  have one: "has_label (pcs lsys1 1) = Some (5, 0)" by (simp add: lsys1_def)
  then show ?thesis
    using mflock_mutual_exclusion [OF lsys1_reach one] lsys1_reach by blast
qed

section \<open>The lock service\<close>

lemma lock_state:
  "mflock_lock lb w = Some (r, w') \<Longrightarrow> \<exists>i T. r = Inr i \<and> w' = w\<lparr>mflocks := T\<rparr>"
  by (auto simp: mflock_lock_def split: bind_splits)

lemma unlock_state:
  "mflock_unlock i w = Some (r, w') \<Longrightarrow> \<exists>T. r = Inr () \<and> w' = w\<lparr>mflocks := T\<rparr>"
  by (auto simp: mflock_unlock_def split: bind_splits)

lemma lock_table_length: "lock_table t lb T = Some (i, T') \<Longrightarrow> length T' = length T"
  by (auto simp: lock_table_def split: option.splits if_splits)

lemma lock_table_free:
  assumes "lock_free lb T"
  obtains i where "lock_table t lb T = Some (i, upd_slot i (\<lambda>x. x\<lparr>mutex := Some t, label := lb\<rparr>) T)"
    and "i < LOCK_NUM" and "label (T ! i) = 0" and "mutex (T ! i) = None" and "want (T ! i) = 0"
proof -
  have len: "length T = LOCK_NUM" using assms by (simp add: lock_free_def)
  have "find_slot (\<lambda>x. label x = lb) T = None"
    using assms by (simp add: lock_free_def find_slot_None list_all_length)
  moreover obtain i where i: "find_slot (\<lambda>x. label x = 0 \<and> mutex x = None) T = Some i"
  proof (cases "find_slot (\<lambda>x. label x = 0 \<and> mutex x = None) T")
    case None
    with assms show ?thesis by (auto simp: find_slot_None lock_free_def list_ex_length)
  qed (use that in auto)
  ultimately have "lock_table t lb T = Some (i, upd_slot i (\<lambda>x. x\<lparr>mutex := Some t, label := lb\<rparr>) T)"
    using assms by (simp add: lock_table_def lock_free_def)
  moreover have "i < LOCK_NUM" "label (T ! i) = 0" "mutex (T ! i) = None"
    using i len by (auto simp: find_slot_Some)
  moreover from this have "want (T ! i) = 0"
    using assms by (auto simp: lock_free_def list_all_length)
  ultimately show thesis by (rule that)
qed

lemma unlock_table_free:
  assumes "lock_free lb T" and "lock_table t lb T = Some (i, T')"
  shows "unlock_table i T' = Some T"
proof -
  obtain n where n: "lock_table t lb T = Some (n, upd_slot n (\<lambda>x. x\<lparr>mutex := Some t, label := lb\<rparr>) T)"
    "n < LOCK_NUM" "label (T ! n) = 0" "mutex (T ! n) = None" "want (T ! n) = 0"
    by (rule lock_table_free [OF assms(1)])
  with assms(2) have i: "i = n" "T' = upd_slot i (\<lambda>x. x\<lparr>mutex := Some t, label := lb\<rparr>) T" by auto
  have len: "length T = LOCK_NUM" using assms(1) by (simp add: lock_free_def)
  have m: "mod_mutex (T' ! mod_slot lb) = None"
    using assms(1) len i n by (simp add: lock_free_def)
  have e: "(T ! n)\<lparr>label := 0, mutex := None\<rparr> = T ! n" using n by (cases "T ! n") auto
  have "upd_slot i (\<lambda>x. x\<lparr>label := 0, mutex := None\<rparr>) T' = T[n := (T ! n)\<lparr>label := 0, mutex := None\<rparr>]"
    using i n len by (simp add: upd_slot_def)
  also have "\<dots> = T" unfolding e by simp
  finally have "upd_slot i (\<lambda>x. x\<lparr>label := 0, mutex := None\<rparr>) T' = T" .
  with m i n len show ?thesis by (simp add: unlock_table_def)
qed

lemma lock_table_held:
  assumes "label (T ! i) = lb" "mutex (T ! i) = Some t" "\<forall>j<length T. label (T ! j) = lb \<longleftrightarrow> j = i"
    and "i < length T"
  shows "lock_table u lb T = None"
proof -
  have "find_slot (\<lambda>x. label x = lb) T = Some i" using assms by (auto simp: find_slot_Some)
  with assms(2) show ?thesis by (simp add: lock_table_def)
qed

lemma shut_out_step:
  assumes "tstep u T c T' c'" and "shut_out t lb i T c" and "lb \<noteq> 0"
  shows "shut_out t lb i T' c'"
  using assms by (cases rule: tstep.cases) (auto simp: shut_out_def split: if_splits)

lemma shut_out_others:
  "others t s s' \<Longrightarrow> lb \<noteq> 0 \<Longrightarrow> \<forall>u. u \<noteq> t \<longrightarrow> shut_out t lb i (tab s) (pcs s u) \<Longrightarrow>
     \<forall>u. u \<noteq> t \<longrightarrow> shut_out t lb i (tab s') (pcs s' u)"
proof (induction rule: others.induct)
  case (other s s1 u T' c')
  then have "shut_out t lb i T' c'" by (blast intro: shut_out_step)
  with other show ?case by (auto simp: shut_out_def)
qed

lemma shut_out_has_label: "shut_out t lb i T c \<Longrightarrow> has_label c \<noteq> Some (lb, j)"
  using has_label_pc_label [of c lb j] by (auto simp: shut_out_def)

lemma lock_table_shut_out:
  assumes "lock_free lb T" and "lock_table t lb T = Some (i, T')"
  shows "shut_out t lb i T' Idle"
proof -
  obtain n where n: "lock_table t lb T = Some (n, upd_slot n (\<lambda>x. x\<lparr>mutex := Some t, label := lb\<rparr>) T)"
    "n < LOCK_NUM"
    by (rule lock_table_free [OF assms(1)])
  with assms show ?thesis
    by (auto simp: shut_out_def lock_free_def list_all_length split: if_splits)
qed

interpretation mfl: lock_service mflock_lock mflock_unlock "\<lambda>lb w. lock_free lb (mflocks w)"
proof
  show "\<exists>i T. r = Inr i \<and> w' = w\<lparr>mflocks := T\<rparr>" if "mflock_lock lb w = Some (r, w')" for lb w r w'
    using that by (rule lock_state)
  show "\<exists>T. u = Inr () \<and> w' = w\<lparr>mflocks := T\<rparr>" if "mflock_unlock i w = Some (u, w')" for i w u w'
    using that by (rule unlock_state)
  show "\<exists>i w'. mflock_lock lb w = Some (Inr i, w')" if "lock_free lb (mflocks w)" for lb w
    by (rule lock_table_free [OF that, of "self w"]) (simp add: mflock_lock_def)
  show "mflock_lock lb w2 = None"
    if "lock_free lb (mflocks w)" "mflock_lock lb w = Some (Inr i, w1)" "mflocks w2 = mflocks w1"
    for lb w i w1 w2
  proof -
    have "lock_table (self w) lb (mflocks w) = Some (i, mflocks w2)"
      using that by (auto simp: mflock_lock_def split: bind_splits)
    from lock_table_shut_out [OF that(1) this] have "lock_table (self w2) lb (mflocks w2) = None"
      by (intro lock_table_held [where t = "self w"]) (auto simp: shut_out_def)
    then show ?thesis by (simp add: mflock_lock_def)
  qed
  show "mflock_unlock i w2 = Some (Inr (), w2\<lparr>mflocks := mflocks w\<rparr>)"
    if "lock_free lb (mflocks w)" "mflock_lock lb w = Some (Inr i, w1)" "mflocks w2 = mflocks w1"
    for lb w i w1 w2
    using that unlock_table_free [OF that(1)]
    by (auto simp: mflock_lock_def mflock_unlock_def split: bind_splits)
qed

lemma lock_free_idle: "lb \<noteq> 0 \<Longrightarrow> lock_free lb (replicate LOCK_NUM mflock_empty)"
  by (simp add: lock_free_def list_all_iff list_ex_iff mflock_empty_def)
    (simp add: LOCK_NUM_def)

text \<open>
  C10: when the lock is free, \<open>mflock_lock\<close> returns a slot that has the label and whose mutex the
  caller holds. Until the caller releases it, the other threads, idle at first, can run in any
  order, calling for any labels: the caller keeps the mutex and the label, and none of them has the lock on the label;
  and a call made with the table untouched waits. \<open>mflock_unlock\<close> then returns and puts the world
  back as it was.
\<close>

theorem mflock_round_trip:
  assumes "lock_free lb (mflocks w)"
  shows "\<exists>i T. mflock_lock lb w = Some (Inr i, w\<lparr>mflocks := T\<rparr>)
    \<and> mutex (T ! i) = Some (self w) \<and> label (T ! i) = lb
    \<and> (\<forall>s. others (self w) \<lparr>tab = T, pcs = (\<lambda>_. Idle)(self w := Held lb i)\<rparr> s \<longrightarrow>
         mutex (tab s ! i) = Some (self w) \<and> label (tab s ! i) = lb
         \<and> {u. \<exists>j. has_label (pcs s u) = Some (lb, j)} \<subseteq> {self w})
    \<and> mflock_lock lb (w\<lparr>mflocks := T\<rparr>) = None
    \<and> mflock_unlock i (w\<lparr>mflocks := T\<rparr>) = Some (Inr (), w)"
proof -
  let ?t = "self w"
  have n0: "lb \<noteq> 0" using assms by (simp add: lock_free_def)
  obtain i T where c: "mflock_lock lb w = Some (Inr i, w\<lparr>mflocks := T\<rparr>)"
    "mflock_lock lb (w\<lparr>mflocks := T\<rparr>) = None"
    "mflock_unlock i (w\<lparr>mflocks := T\<rparr>) = Some (Inr (), w)"
    using mfl.critical_section [OF assms, of "\<lambda>w. ((), w)"] by auto
  have "mflocks (w\<lparr>mflocks := T\<rparr>) = T" by simp
  with c(1) have "lock_table ?t lb (mflocks w) = Some (i, T)"
    by (auto simp: mflock_lock_def split: bind_splits dest: arg_cong [where f = mflocks])
  from lock_table_shut_out [OF assms this] have o: "shut_out ?t lb i T Idle" .
  have x: "mutex (tab s ! i) = Some ?t \<and> label (tab s ! i) = lb
      \<and> {u. \<exists>j. has_label (pcs s u) = Some (lb, j)} \<subseteq> {?t}"
    if "others ?t \<lparr>tab = T, pcs = (\<lambda>_. Idle)(?t := Held lb i)\<rparr> s" for s
  proof -
    from shut_out_others [OF that n0, of i] o
    have all: "\<forall>u. u \<noteq> ?t \<longrightarrow> shut_out ?t lb i (tab s) (pcs s u)" by simp
    have "Suc ?t \<noteq> ?t" by simp
    with all have "shut_out ?t lb i (tab s) (pcs s (Suc ?t))" by blast
    then show ?thesis using all shut_out_has_label by (auto simp: shut_out_def)
  qed
  have "mutex (T ! i) = Some ?t" "label (T ! i) = lb" using o by (auto simp: shut_out_def)
  with c x show ?thesis by blast
qed

theorem mflock_round_trip_witness:
  "lock_free 5 (mflocks world0) \<and> others 1 lsys1 lsys2
   \<and> mutex (tab lsys2 ! 0) = Some 1 \<and> label (tab lsys2 ! 0) = 5
   \<and> {u. \<exists>j. has_label (pcs lsys2 u) = Some (5, j)} \<subseteq> {1}
   \<and> mflock_lock 5 (world0\<lparr>mflocks := table1\<rparr>) = None
   \<and> mflock_unlock 0 (world0\<lparr>mflocks := table1\<rparr>) = Some (Inr (), world0)"
proof -
  have f: "lock_free 5 (mflocks world0)"
    using lock_free_idle [of 5] by (simp add: world0_def table0_def)
  have l: "mflock_lock 5 world0 = Some (Inr 0, world0\<lparr>mflocks := table1\<rparr>)" "self world0 = 1"
    using lock_T0 by (simp_all add: mflock_lock_def world0_def)
  have o: "others 1 lsys1 lsys2" by (rule lsys2_others)
  obtain i T where r: "mflock_lock 5 world0 = Some (Inr i, world0\<lparr>mflocks := T\<rparr>)"
    "\<forall>s. others 1 \<lparr>tab = T, pcs = (\<lambda>_. Idle)(1 := Held 5 i)\<rparr> s \<longrightarrow>
       mutex (tab s ! i) = Some 1 \<and> label (tab s ! i) = 5
       \<and> {u. \<exists>j. has_label (pcs s u) = Some (5, j)} \<subseteq> {1}"
    "mflock_lock 5 (world0\<lparr>mflocks := T\<rparr>) = None"
    "mflock_unlock i (world0\<lparr>mflocks := T\<rparr>) = Some (Inr (), world0)"
    using mflock_round_trip [OF f] unfolding l(2) by blast
  have e: "world0\<lparr>mflocks := T\<rparr> = world0\<lparr>mflocks := table1\<rparr>" "i = 0" using r(1) l(1) by simp_all
  from arg_cong [OF e(1), where f = mflocks] have "T = table1" by simp
  then show ?thesis using f o r(2) [rule_format, of lsys2] r(3,4) e(2) by (simp add: lsys1_def)
qed

text \<open>
  C11: the procedures as one thread runs them alone are runs of the step-by-step model: a call of
  \<open>mflock_lock\<close> that returns slot \<open>i\<close> is a sequence of steps from \<open>Idle\<close> to holding \<open>i\<close>, and the
  \<open>mflock_unlock\<close> after it leads back to \<open>Idle\<close>.
\<close>

theorem mflock_solo_run:
  assumes "length (mflocks w) = LOCK_NUM" and "lb \<noteq> 0"
    and "mflock_lock lb w = Some (Inr i, w1)" and "mflock_unlock i w1 = Some (Inr (), w2)"
  shows "tsteps (self w) (mflocks w) Idle (mflocks w1) (Held lb i)
    \<and> tsteps (self w) (mflocks w1) (Held lb i) (mflocks w2) Idle"
proof -
  have l: "lock_table (self w) lb (mflocks w) = Some (i, mflocks w1)"
    using assms(3) by (auto simp: mflock_lock_def split: bind_splits)
  have u: "unlock_table i (mflocks w1) = Some (mflocks w2)"
    using assms(4) by (auto simp: mflock_unlock_def split: bind_splits)
  have "i < LOCK_NUM"
    using l assms(1) by (auto simp: lock_table_def find_slot_Some split: option.splits if_splits)
  moreover have "length (mflocks w1) = length (mflocks w)"
    by (rule lock_table_length [OF l])
  ultimately show ?thesis
    using lock_steps [OF assms(1,2) l] unlock_steps [OF _ _ u] assms(1) by simp
qed

theorem mflock_solo_run_witness:
  "tsteps 1 table0 Idle table1 (Held 5 0) \<and> tsteps 1 table1 (Held 5 0) table2 Idle"
proof -
  have "mflock_lock 5 world0 = Some (Inr 0, world0\<lparr>mflocks := table1\<rparr>)"
    using lock_T0 by (simp add: mflock_lock_def world0_def)
  moreover have "mflock_unlock 0 (world0\<lparr>mflocks := table1\<rparr>) = Some (Inr (), world0\<lparr>mflocks := table2\<rparr>)"
    by (simp add: mflock_unlock_def unlock_T1)
  ultimately show ?thesis
    using mflock_solo_run [of world0 5 0 "world0\<lparr>mflocks := table1\<rparr>" "world0\<lparr>mflocks := table2\<rparr>"]
    by (simp add: table_nth world0_def)
qed

text \<open>
  C12: a mutex can be lost. When the label of a slot is cleared between a thread finding it and
  locking the slot's mutex, the thread starts again without unlocking the mutex. There is a
  reachable state in which thread 2 is back at the start of \<open>mflock_lock\<close> while it holds the mutex
  of slot 0, and in every continuation it holds it for ever.
\<close>

theorem mutex_leak:
  "\<exists>s. lreach s \<and> pcs s 1 = Idle \<and> pcs s 2 = L_scan 5 0 False \<and> leaked_for_ever 2 0 s"
proof -
  have N: "0 < LOCK_NUM" by (simp add: LOCK_NUM_def)
  let ?T3 = "upd_slot 0 (want_update (\<lambda>_. want (table2 ! 0) + 1)) table2"
  let ?T4 = "upd_slot 0 (mutex_update (\<lambda>_. Some 2)) ?T3"
  let ?T5 = "upd_slot 0 (want_update (\<lambda>_. want (?T4 ! 0) - 1)) ?T4"
  have a: "tsteps 1 table0 Idle table1 (Held 5 0)"
    by (rule lock_steps [OF _ _ lock_T0]) (simp_all add: table_nth)
  have b: "tsteps 2 table1 Idle table1 (L_found 5 0 False)"
    by (rule tsteps.step [OF tstep.call [where lb = 5]], simp, rule tsteps.step [OF tstep.scan_hit])
      (simp_all add: table_nth N tsteps.stop mflock_empty_def)
  have c: "tsteps 1 table1 (Held 5 0) table2 Idle"
    by (rule unlock_steps [OF _ _ unlock_T1]) (simp_all add: table_nth N)
  have d: "tsteps 2 table2 (L_found 5 0 False) ?T5 (L_scan 5 0 False)"
    by (rule tsteps.step [OF tstep.want_read], rule tsteps.step [OF tstep.want_inc],
        rule tsteps.step [OF tstep.mutex_lock], simp add: table_nth N mflock_empty_def,
        rule tsteps.step [OF tstep.want_read2], rule tsteps.step [OF tstep.want_dec],
        rule tsteps.step [OF tstep.recheck_fail], simp add: table_nth N mflock_empty_def,
        rule tsteps.stop)
  define s1 where "s1 = lsys_init\<lparr>tab := table1, pcs := (pcs lsys_init)(1 := Held 5 0)\<rparr>"
  define s2 where "s2 = s1\<lparr>tab := table1, pcs := (pcs s1)(2 := L_found 5 0 False)\<rparr>"
  define s3 where "s3 = s2\<lparr>tab := table2, pcs := (pcs s2)(1 := Idle)\<rparr>"
  define s4 where "s4 = s3\<lparr>tab := ?T5, pcs := (pcs s3)(2 := L_scan 5 0 False)\<rparr>"
  have "lreach s1" unfolding s1_def
    by (rule tsteps_lreach [OF a lreach.start]) (simp_all add: lsys_init_def table0_def)
  then have "lreach s2" unfolding s2_def
    by (rule tsteps_lreach [OF b]) (simp_all add: s1_def lsys_init_def)
  then have "lreach s3" unfolding s3_def
    by (rule tsteps_lreach [OF c]) (simp_all add: s2_def s1_def)
  then have "lreach s4" unfolding s4_def
    by (rule tsteps_lreach [OF d]) (simp_all add: s3_def s2_def)
  moreover have "pcs s4 1 = Idle" "pcs s4 2 = L_scan 5 0 False" by (simp_all add: s4_def s3_def)
  moreover have "leaked 2 0 s4" by (simp add: leaked_def s4_def table_nth N)
  then have "leaked_for_ever 2 0 s4"
    using leaked_steps \<open>lreach s4\<close> by (auto simp: leaked_for_ever_def)
  ultimately show ?thesis by blast
qed

end
