(* ===== verification/UtilLocking.thy ===== *)
theory UtilLocking
  imports Mflock
begin

text \<open>
  The tools of \<open>util_locking.c\<close>: removing a directory tree (\<open>recursive_remove\<close>, by \<open>nftw\<close> with a
  callback) and creating the parent directories of a path (\<open>mkpath\<close>).
\<close>

section \<open>Removing a tree\<close>

text \<open>The callback of \<open>nftw\<close>; the flag says whether the node is a directory.\<close>

definition univ_rm :: "string \<Rightarrow> bool \<Rightarrow> 'z os_scheme \<Rightarrow> unit res \<times> 'z os_scheme" where
  "univ_rm fpath isdir w = (if isdir then sys_rmdir fpath w else sys_unlink fpath w)"

text \<open>
  \<open>nftw\<close> with \<open>FTW_DEPTH\<close>: the nodes below a directory before the directory itself. The nodes are
  given by their path relative to the start; the depth of the tree is at most the number of
  directory entries, which is the fuel.
\<close>

fun post_order :: "nat \<Rightarrow> 'z os_scheme \<Rightarrow> string list \<Rightarrow> string list \<Rightarrow> string list list" where
  "post_order 0 w k rel = [rel]"
| "post_order (Suc n) w k rel =
     concat (map (\<lambda>c. post_order n w k (rel @ [c])) (children w (k @ rel))) @ [rel]"

definition sub_path :: "string \<Rightarrow> string list \<Rightarrow> string" where
  "sub_path p rel = p @ concat (map (\<lambda>c. DIRSEP @ c) rel)"

fun remove_nodes :: "string \<Rightarrow> string list list \<Rightarrow> 'z os_scheme \<Rightarrow> unit res \<times> 'z os_scheme" where
  "remove_nodes p [] w = (Inr (), w)"
| "remove_nodes p (rel # rels) w =
     (let q = sub_path p rel;
          isdir = (case resolve w (comps q) of Inl e \<Rightarrow> False | Inr i \<Rightarrow> is_dir w i);
          (r, w) = univ_rm q isdir w
      in case r of Inl e \<Rightarrow> (Inl e, w) | Inr _ \<Rightarrow> remove_nodes p rels w)"

text \<open>\<open>None\<close> is the error of \<open>nftw\<close> itself, \<open>-1\<close>: the start cannot be examined.\<close>

definition nftw_rm :: "string \<Rightarrow> 'z os_scheme \<Rightarrow> unit res option \<times> 'z os_scheme" where
  "nftw_rm p w =
     (let (st, w) = sys_lstat p w in
      case st of
        Inl e \<Rightarrow> (None, w)
      | Inr _ \<Rightarrow>
          (let (r, w) = remove_nodes p (post_order (length (dents w)) w (comps p) []) w
           in (Some r, w)))"

definition recursive_remove :: "string \<Rightarrow> world \<Rightarrow> (unit res \<times> world) option" where
  "recursive_remove p w =
     do {
       (l, w) \<leftarrow> mflock_lock (string2locklabel LOCKLABEL_RMDIR) w;
       case l of
         Inl e \<Rightarrow> Some (Inl e, w)
       | Inr lock \<Rightarrow>
           do {
             let (ret, w) = nftw_rm p w;
             (u, w) \<leftarrow> mflock_unlock lock w;
             case u of
               Inl e \<Rightarrow> Some (Inl e, w)
             | Inr _ \<Rightarrow> Some (case ret of Some r \<Rightarrow> r | None \<Rightarrow> Inl ENOMEM, w)
           }
     }"

section \<open>Creating the parents of a path\<close>

fun strrchr :: "string \<Rightarrow> char \<Rightarrow> nat option" where
  "strrchr [] c = None"
| "strrchr (x # xs) c =
     (case strrchr xs c of
        Some n \<Rightarrow> Some (Suc n)
      | None \<Rightarrow> if x = c then Some 0 else None)"

lemma strrchr_less: "strrchr s c = Some n \<Longrightarrow> n < length s"
  by (induction s arbitrary: n) (auto split: option.splits if_splits)

text \<open>
  \<open>mkpath\<close>: \<open>Inr 0\<close> if the parent exists, \<open>Inr 1\<close> if a directory has been created. \<open>firstcreated\<close> is the
  buffer for the top directory created; \<open>None\<close> is the null pointer.
\<close>

function mkpath ::
  "string \<Rightarrow> string option \<Rightarrow> mode \<Rightarrow> 'z os_scheme \<Rightarrow> (nat res \<times> string option) \<times> 'z os_scheme" where
  "mkpath p firstcreated md w =
     (case strrchr p DIRSEPCH of
        None \<Rightarrow> ((Inl EBADE, firstcreated), w)
      | Some slashpos \<Rightarrow>
          if slashpos = 0 then ((Inl EBADE, firstcreated), w)
          else
            (let prepath = take slashpos p; (st, w) = sys_lstat prepath w in
             case st of
               Inl statret \<Rightarrow>
                 if statret = ENOENT then
                   (let ((mkpathret, firstcreated), w) = mkpath prepath firstcreated md w in
                    case mkpathret of
                      Inl e \<Rightarrow> ((Inl e, firstcreated), w)
                    | Inr k \<Rightarrow>
                        (let (mkdirret, w) = sys_mkdir prepath md w;
                             fc = (if k = 0 then map_option (\<lambda>_. prepath) firstcreated
                                   else firstcreated) in
                         case mkdirret of
                           Inl e \<Rightarrow>
                             if e \<noteq> EEXIST then ((Inl e, firstcreated), w)
                             else ((Inr 1, fc), w)
                         | Inr _ \<Rightarrow> ((Inr 1, fc), w)))
                 else ((Inl statret, firstcreated), w)
             | Inr mystat \<Rightarrow>
                 if S_ISDIR (st_mode mystat) then ((Inr 0, firstcreated), w)
                 else ((Inl ENOTDIR, firstcreated), w)))"
  by pat_completeness auto
termination
  by (relation "measure (\<lambda>(p, _). length p)") (auto dest: strrchr_less)

declare mkpath.simps [simp del]

end
