(* ===== verification/Snapshot.thy ===== *)
theory Snapshot
  imports UtilLocking
begin

text \<open>
  The snapshots themselves (\<open>snapshot.c\<close>). A snapshot is a directory \<open>ROOT/snapshots/ID\<close>. The file
  \<open>/snapshots/.hid\<close> holds the path of the latest snapshot, \<open>/snapshots/ID.hid\<close> the path of the one
  before \<open>ID\<close>.
\<close>

section \<open>Names and the snapshot directory\<close>

definition sn_filter_name :: "string \<Rightarrow> bool" where
  "sn_filter_name name =
     (let plen = length name in
      if plen < EXT_LEN then True
      else if name = EXT_HID then False
      else if drop (plen - EXT_LEN) name = EXT_HID then False
      else True)"

text \<open>\<open>Inr 1\<close>: there is something at the path that is not a directory.\<close>

definition sn_check_dir :: "world \<Rightarrow> nat res \<times> world" where
  "sn_check_dir w =
     (let (st, w) = sys_lstat (sn_dir w) w in
      case st of
        Inr mystat \<Rightarrow> (if S_ISDIR (st_mode mystat) then Inr 0 else Inr 1, w)
      | Inl e \<Rightarrow>
          if e = ENOENT then
            (let (r, w) = sys_mkdir (sn_dir w) S_IRWXU w in
             case r of Inl e \<Rightarrow> (Inl e, w) | Inr _ \<Rightarrow> (Inr 0, w))
          else (Inl e, w))"

section \<open>Following the pointers\<close>

text \<open>
  \<open>sn_get_earliest\<close> returns 1 if there are no snapshots, 2 if there is one (the pointer path is then
  not set), 0 otherwise, with the path of the earliest snapshot and of the pointer file of the
  second earliest.
\<close>

function earliest_loop ::
  "nat \<Rightarrow> string \<Rightarrow> string \<Rightarrow> world \<Rightarrow> (nat res \<times> string \<times> string) \<times> world" where
  "earliest_loop p snp prevpointerpath w =
     (if p < MAX_SNAPSHOTS then
        (case get_hid_path snp of
           Inl e \<Rightarrow> ((Inl e, snp, prevpointerpath), w)
         | Inr pointerpath \<Rightarrow>
             (let ((ret, snp'), w) = read_sndir_from_file snp pointerpath w in
              case ret of
                Inl e \<Rightarrow> ((Inl e, snp', prevpointerpath), w)
              | Inr n \<Rightarrow>
                  if n = 0 then ((Inr (if p = 0 then 2 else 0), snp', prevpointerpath), w)
                  else earliest_loop (Suc p) snp' pointerpath w))
      else ((Inl EIO, snp, prevpointerpath), w))"
  by pat_completeness auto
termination
  by (relation "measure (\<lambda>(p, _). MAX_SNAPSHOTS - p)") auto

declare earliest_loop.simps [simp del]

definition sn_get_earliest :: "world \<Rightarrow> (nat res \<times> string \<times> string) \<times> world" where
  "sn_get_earliest w =
     (if \<not> sn_is_any w then ((Inr 1, [], []), w)
      else earliest_loop 0 (sn_lat_dir w) [] w)"

text \<open>
  The paths of the main space, the latest snapshot and so on back to the one wanted. The array
  has room for \<open>allocated\<close> paths and is doubled when it is full.
\<close>

function paths_loop ::
  "string \<Rightarrow> nat \<Rightarrow> nat \<Rightarrow> string list \<Rightarrow> world \<Rightarrow> string list res \<times> world" where
  "paths_loop mysnroot allocated p paths w =
     (if mysnroot = last paths then (Inr paths, w)
      else
        (case get_hid_path (last paths) of
           Inl e \<Rightarrow> (Inl e, w)
         | Inr pointerpath \<Rightarrow>
             (let p' = Suc p;
                  full = (p' \<ge> allocated);
                  (ok, w) = (if full then malloc_ok w else (True, w)) in
              if \<not> ok then (Inl ENOMEM, w)
              else if p' \<ge> MAX_SNAPSHOTS then (Inl EIO, w)
              else
                (let ((ret, buf), w) = read_sndir_from_file [] pointerpath w in
                 case ret of
                   Inl e \<Rightarrow> (Inl e, w)
                 | Inr n \<Rightarrow>
                     if n = 0 then (Inl EFAULT, w)
                     else paths_loop mysnroot (if full then 2 * allocated else allocated) p'
                            (paths @ [buf]) w))))"
  by pat_completeness auto
termination
  by (relation "measure (\<lambda>(_, _, p, _). MAX_SNAPSHOTS - p)") auto

declare paths_loop.simps [simp del]

text \<open>The descriptors of a step are set by \<open>mfd_get_sn_steps\<close>; until then they are not valid.\<close>

definition step_at :: "string \<Rightarrow> sn_step" where
  "step_at p = \<lparr>step_path = p, step_mapfd = SN_STEPS_NOTOPEN, step_datfd = SN_STEPS_NOTOPEN,
     step_dirfd = None\<rparr>"

definition sn_get_paths_to :: "mfd \<Rightarrow> snpath \<Rightarrow> world \<Rightarrow> (unit res \<times> mfd) \<times> world" where
  "sn_get_paths_to m sp w =
     (if is_there sp = Snpath_root then ((Inl EFAULT, m), w)
      else if length (snp_id sp) + length (sn_dir w) \<ge> PATH_MAX then ((Inl ENAMETOOLONG, m), w)
      else
        (let mysnroot = sn_dir w @ snp_id sp; (ok, w) = malloc_ok w in
         if \<not> ok then ((Inl ENOMEM, m), w)
         else
           (let (r, w) = paths_loop mysnroot 4 1 [rootdir w, sn_lat_dir w] w in
            case r of
              Inl e \<Rightarrow> ((Inl e, m), w)
            | Inr paths \<Rightarrow>
                ((Inr (), m\<lparr>sn_steps := map step_at paths, sn_current := length paths - 1\<rparr>), w))))"

section \<open>The latest snapshot\<close>

definition sn_get_latest :: "world \<Rightarrow> unit res \<times> world" where
  "sn_get_latest w =
     (case get_dir_hid_path (sn_dir w) of
        Inl e \<Rightarrow> (Inl e, w)
      | Inr p \<Rightarrow>
          (let ((ret, buf), w) = read_sndir_from_file (sn_lat_dir w) p w;
               w = w\<lparr>sn_lat_dir := buf\<rparr> in
           case ret of
             Inl e \<Rightarrow> (Inl e, w)
           | Inr n \<Rightarrow>
               if n = 0 then (Inr (), w\<lparr>sn_is_any := False\<rparr>)
               else (Inr (), w\<lparr>sn_is_any := True, sn_lat_dir_len := n\<rparr>)))"

definition sn_set_latest :: "string \<Rightarrow> world \<Rightarrow> unit res \<times> world" where
  "sn_set_latest newpath w =
     (case get_dir_hid_path (sn_dir w) of
        Inl e \<Rightarrow> (Inl e, w)
      | Inr p \<Rightarrow>
          (let (fd, w) = sys_open p (O_WRONLY OR O_CREAT OR O_TRUNC) S_IRWXU w in
           case fd of
             Inl e \<Rightarrow> (Inl e, w)
           | Inr fd \<Rightarrow>
               (let len = length newpath + 1;
                    (ret, w) = sys_pwrite fd (str_bytes newpath @ [0]) 0 w in
                case ret of
                  Inl e \<Rightarrow> (Inl e, w)
                | Inr n \<Rightarrow>
                    if n \<noteq> len then (Inl EIO, w)
                    else
                      (let (_, w) = sys_close fd w
                       in (Inr (), w\<lparr>sn_lat_dir := newpath, sn_lat_dir_len := len - 1,
                             sn_is_any := True, sn_number := Suc (sn_number w)\<rparr>)))))"

section \<open>Creating and destroying a snapshot\<close>

text \<open>The pointer file of the new snapshot is written, then the latest snapshot is set.\<close>

definition write_pointer :: "int \<Rightarrow> string \<Rightarrow> world \<Rightarrow> unit res \<times> world" where
  "write_pointer fd p w =
     (let len = length (sn_lat_dir w) + 1;
          (ret, w) = sys_pwrite fd (str_bytes (sn_lat_dir w) @ [0]) 0 w in
      case ret of
        Inl e \<Rightarrow> (Inl e, w)
      | Inr n \<Rightarrow> if n \<noteq> len then (Inl EIO, w) else sn_set_latest p w)"

definition sn_create_body :: "string \<Rightarrow> world \<Rightarrow> unit res \<times> world" where
  "sn_create_body p w =
     (if sn_is_any w then
        (case get_hid_path p of
           Inl e \<Rightarrow> (Inl e, w)
         | Inr hid \<Rightarrow>
             (let (fd, w) = sys_open hid (O_WRONLY OR O_CREAT OR O_EXCL) S_IRWXU w in
              case fd of
                Inl e \<Rightarrow> (Inl e, w)
              | Inr fd \<Rightarrow>
                  (let (r, w) = write_pointer fd p w;
                       (_, w) = sys_close fd w in
                   case r of
                     Inl e \<Rightarrow> (let (_, w) = sys_unlink hid w in (Inl e, w))
                   | Inr _ \<Rightarrow> (Inr (), w))))
      else sn_set_latest p w)"

definition sn_create :: "string \<Rightarrow> world \<Rightarrow> unit res \<times> world" where
  "sn_create p w =
     (let (r, w) = sys_mkdir p S_IRWXU w in
      case r of
        Inl e \<Rightarrow> (Inl e, w)
      | Inr _ \<Rightarrow>
          (let (r, w) = sn_create_body p w in
           case r of
             Inl e \<Rightarrow> (let (_, w) = sys_rmdir p w in (Inl e, w))
           | Inr _ \<Rightarrow> (Inr (), w)))"

definition sn_destroy :: "world \<Rightarrow> (unit res \<times> world) option" where
  "sn_destroy w =
     (let ((ret, snp, prevpointerpath), w) = sn_get_earliest w in
      case ret of
        Inl e \<Rightarrow> Some (Inl e, w)
      | Inr n \<Rightarrow>
          if n = 1 then Some (Inl ENOENT, w)
          else if n = 2 then
            (case get_dir_hid_path (sn_dir w) of
               Inl e \<Rightarrow> Some (Inl e, w)
             | Inr p \<Rightarrow>
                 (let (r, w) = sys_unlink p w in
                  case r of
                    Inl e \<Rightarrow> Some (Inl e, w)
                  | Inr _ \<Rightarrow>
                      do {
                        (r, w) \<leftarrow> recursive_remove snp w;
                        case r of
                          Inl e \<Rightarrow> Some (Inl e, w)
                        | Inr _ \<Rightarrow> Some (Inr (), w\<lparr>sn_is_any := False\<rparr>)
                      }))
          else
            (let (r, w) = sys_unlink prevpointerpath w in
             case r of
               Inl e \<Rightarrow> Some (Inl e, w)
             | Inr _ \<Rightarrow> recursive_remove snp w))"

end
