(* ===== verification/Mfd.thy ===== *)
theory Mfd
  imports Snapshot
begin

text \<open>
  The file handles (\<open>mfd.c\<close>): the map and dat files of a main file in the latest snapshot
  (\<open>mfd_open_sn\<close>, \<open>mfd_close_sn\<close>, \<open>mfd_validate\<close>), and the steps from a snapshot through the later
  ones to the main space for a file or directory read in a snapshot (\<open>mfd_get_sn_steps\<close>).

  A function that changes the handle returns it; on an error the handle has the fields the C code
  has set before the error.
\<close>

section \<open>Names and map headers\<close>

definition mfd_filter_name :: "string \<Rightarrow> nat" where
  "mfd_filter_name name =
     (let plen = length name in
      if plen \<le> EXT_LEN then 1
      else if drop (plen - EXT_LEN) name = EXT_DAT then 0
      else if drop (plen - EXT_LEN) name = EXT_MAP then 2
      else 1)"

definition mfd_save_mapheader :: "mfd \<Rightarrow> world \<Rightarrow> unit res \<times> world" where
  "mfd_save_mapheader m w =
     (if mapfd m < 0 then (Inr (), w)
      else
        (let (ret, w) = sys_pwrite (mapfd m) (mapheader_bytes (mapheader m)) 0 w in
         case ret of
           Inl e \<Rightarrow> (Inl e, w)
         | Inr n \<Rightarrow> (if n \<noteq> MAPHEADER_S then Inl EIO else Inr (), w)))"

text \<open>The bytes read replace those of the header even when the header is then refused.\<close>

definition mfd_load_mapheader :: "mapheader \<Rightarrow> int \<Rightarrow> world \<Rightarrow> (unit res \<times> mapheader) \<times> world" where
  "mfd_load_mapheader maphead fd w =
     (let (ret, w) = sys_pread fd MAPHEADER_S 0 w in
      case ret of
        Inl e \<Rightarrow> ((Inl e, maphead), w)
      | Inr bs \<Rightarrow>
          (let h = bytes_mapheader (bs @ drop (length bs) (mapheader_bytes maphead)) in
           if length bs \<noteq> MAPHEADER_S then ((Inl EIO, h), w)
           else if mh_version h \<noteq> 12000 \<or> mh_signature h \<noteq> ESFS_SIGNATURE
           then ((Inl EFAULT, h), w)
           else ((Inr (), h), w)))"

section \<open>The snapshot part of a main file\<close>

text \<open>The macro \<open>MFD_OPEN_DAT_FILE\<close>.\<close>

definition mfd_open_dat_file :: "mfd \<Rightarrow> string \<Rightarrow> world \<Rightarrow> (unit res \<times> mfd) \<times> world" where
  "mfd_open_dat_file m vp w =
     (if mh_exists (mapheader m) = 0 then ((Inr (), m\<lparr>datfd := MFD_FD_ENOENT\<rparr>), w)
      else if st_size (mh_fstat (mapheader m)) = 0 then ((Inr (), m\<lparr>datfd := MFD_FD_ZLEN\<rparr>), w)
      else
        (case get_dat_prefix_path vp (sn_lat_dir w) (sn_lat_dir_len w) of
           Inl e \<Rightarrow> ((Inl ENAMETOOLONG, m), w)
         | Inr fdat \<Rightarrow>
             (let (fd_dat, w) = sys_open fdat (O_WRONLY OR O_CREAT OR O_APPEND OR O_NOATIME)
                                  S_IRWXU w in
              case fd_dat of
                Inl e \<Rightarrow> ((Inl e, m), w)
              | Inr fd_dat \<Rightarrow> ((Inr (), m\<lparr>datfd := fd_dat\<rparr>), w))))"

text \<open>
  The end of \<open>mfd_open_sn\<close>: a lock that is still held is released. In the blocks [B] and [C] it has
  been released before the dat file is opened.
\<close>

definition mfd_open_end ::
  "unit res \<Rightarrow> mfd \<Rightarrow> nat option \<Rightarrow> world \<Rightarrow> ((unit res \<times> mfd) \<times> world) option" where
  "mfd_open_end waserror m mylock w =
     (case mylock of
        None \<Rightarrow> Some ((waserror, m), w)
      | Some i \<Rightarrow>
          do {
            (u, w) \<leftarrow> mflock_unlock i w;
            case u of
              Inl e \<Rightarrow> Some ((Inl e, m), w)
            | Inr _ \<Rightarrow> Some ((waserror, m), w)
          })"

text \<open>[B]: the map file exists already.\<close>

definition mfd_open_old :: "mfd \<Rightarrow> string \<Rightarrow> string \<Rightarrow> nat \<Rightarrow> world \<Rightarrow> ((unit res \<times> mfd) \<times> world) option"
where
  "mfd_open_old m vp fmap mylock w =
     (let (fd, w) = sys_open fmap O_RDWR 0 w in
      case fd of
        Inl e \<Rightarrow> mfd_open_end (Inl e) m (Some mylock) w
      | Inr fd \<Rightarrow>
          (let m = m\<lparr>mapfd := fd\<rparr>;
               ((ret, h), w) = mfd_load_mapheader (mapheader m) fd w;
               m = m\<lparr>mapheader := h\<rparr> in
           case ret of
             Inl e \<Rightarrow> (let (_, w) = sys_close fd w in mfd_open_end (Inl e) m (Some mylock) w)
           | Inr _ \<Rightarrow>
               do {
                 (u, w) \<leftarrow> mflock_unlock mylock w;
                 case u of
                   Inl e \<Rightarrow> (let (_, w) = sys_close fd w in mfd_open_end (Inl e) m (Some mylock) w)
                 | Inr _ \<Rightarrow>
                     (let ((r, m), w) = mfd_open_dat_file m vp w in
                      case r of
                        Inl e \<Rightarrow> (let (_, w) = sys_close fd w in mfd_open_end (Inl e) m None w)
                      | Inr _ \<Rightarrow> mfd_open_end (Inr ()) m None w)
               }))"

text \<open>
  [C]: the map file has just been created. The header of a new map file is made from the main file;
  if there is none, the stat in the header is what it was before.
\<close>

definition mfd_new_header :: "mfd \<Rightarrow> string \<Rightarrow> world \<Rightarrow> (unit res \<times> mfd) \<times> world" where
  "mfd_new_header m fpath w =
     (let h = (mapheader m)\<lparr>mh_version := 12000, mh_signature := ESFS_SIGNATURE, mh_exists := 1\<rparr>;
          (st, w) = sys_lstat fpath w;
          (ret, h) =
            (case st of
               Inr st \<Rightarrow> (Inr (), h\<lparr>mh_fstat := st\<rparr>)
             | Inl e \<Rightarrow> if e = ENOENT then (Inr (), h\<lparr>mh_exists := 0\<rparr>) else (Inl e, h));
          m = m\<lparr>mapheader := h\<rparr> in
      case ret of
        Inl e \<Rightarrow> ((Inl e, m), w)
      | Inr _ \<Rightarrow>
          if S_ISDIR (st_mode (mh_fstat h)) then ((Inl EISDIR, m), w)
          else (let (r, w) = mfd_save_mapheader m w in ((r, m), w)))"

definition mfd_open_new ::
  "mfd \<Rightarrow> string \<Rightarrow> string \<Rightarrow> string \<Rightarrow> int \<Rightarrow> nat \<Rightarrow> world \<Rightarrow> ((unit res \<times> mfd) \<times> world) option"
where
  "mfd_open_new m vp fpath fmap fd mylock w =
     (let ((ret, m), w) = mfd_new_header (m\<lparr>mapfd := fd\<rparr>) fpath w in
      case ret of
        Inl e \<Rightarrow>
          (let (_, w) = sys_close fd w; (_, w) = sys_unlink fmap w
           in mfd_open_end (Inl e) m (Some mylock) w)
      | Inr _ \<Rightarrow>
          do {
            (u, w) \<leftarrow> mflock_unlock mylock w;
            case u of
              Inl e \<Rightarrow>
                (let (_, w) = sys_close fd w; (_, w) = sys_unlink fmap w
                 in mfd_open_end (Inl e) m (Some mylock) w)
            | Inr _ \<Rightarrow>
                (let ((r, m), w) = mfd_open_dat_file m vp w in
                 case r of
                   Inl e \<Rightarrow> (let (_, w) = sys_close fd w in mfd_open_end (Inl e) m None w)
                 | Inr _ \<Rightarrow> mfd_open_end (Inr ()) m None w)
          })"

text \<open>[A]: under the lock, the map file is created, or opened if it exists.\<close>

definition mfd_open_locked ::
  "mfd \<Rightarrow> string \<Rightarrow> string \<Rightarrow> string \<Rightarrow> nat \<Rightarrow> world \<Rightarrow> ((unit res \<times> mfd) \<times> world) option" where
  "mfd_open_locked m vp fpath fmap mylock w =
     (let (fd, w) = sys_open fmap (O_RDWR OR O_CREAT OR O_EXCL OR O_NOATIME) S_IRWXU w in
      case fd of
        Inl e \<Rightarrow>
          if e \<noteq> EEXIST then mfd_open_end (Inl e) m (Some mylock) w
          else mfd_open_old m vp fmap mylock w
      | Inr fd \<Rightarrow> mfd_open_new m vp fpath fmap fd mylock w)"

definition mfd_open_sn ::
  "mfd \<Rightarrow> string \<Rightarrow> string option \<Rightarrow> world \<Rightarrow> ((unit res \<times> mfd) \<times> world) option" where
  "mfd_open_sn m vp fpath_in w =
     (case (case fpath_in of None \<Rightarrow> map_path vp w | Some f \<Rightarrow> Inr f) of
        Inl e \<Rightarrow> Some ((Inl ENAMETOOLONG, m), w)
      | Inr fpath \<Rightarrow>
          (let m = m\<lparr>mfd_sn_number := sn_number w, is_main := Mfd_main,
                     mfd_locklabel := string2locklabel fpath,
                     latest_written_block_cache := 0, vpath := vp\<rparr> in
           if \<not> sn_is_any w then
             Some ((Inr (), m\<lparr>mapfd := MFD_FD_NOSN, datfd := MFD_FD_NOSN\<rparr>), w)
           else
             (case get_map_prefix_path vp (sn_lat_dir w) (sn_lat_dir_len w) of
                Inl e \<Rightarrow> Some ((Inl ENAMETOOLONG, m), w)
              | Inr fmap \<Rightarrow>
                  (let ((ret, _), w) = mkpath fmap None S_IRWXU w in
                   case ret of
                     Inl e \<Rightarrow> Some ((Inl e, m), w)
                   | Inr _ \<Rightarrow>
                       do {
                         (l, w) \<leftarrow> mflock_lock (mfd_locklabel m) w;
                         case l of
                           Inl e \<Rightarrow> Some ((Inl e, m), w)
                         | Inr mylock \<Rightarrow> mfd_open_locked m vp fpath fmap mylock w
                       }))))"

definition mfd_open_sn_rdonly :: "mfd \<Rightarrow> mfd" where
  "mfd_open_sn_rdonly m =
     m\<lparr>mapfd := MFD_FD_RDONLY, datfd := MFD_FD_RDONLY, is_main := Mfd_main\<rparr>"

definition close_if :: "int \<Rightarrow> unit res \<Rightarrow> world \<Rightarrow> unit res \<times> world" where
  "close_if fd waserror w =
     (if fd \<ge> 0 then
        (let (r, w) = sys_close fd w in (case r of Inl e \<Rightarrow> Inl e | Inr _ \<Rightarrow> waserror, w))
      else (waserror, w))"

definition mfd_close_sn :: "mfd \<Rightarrow> world \<Rightarrow> unit res \<times> world" where
  "mfd_close_sn m w =
     (let (r, w) = close_if (datfd m) (Inr ()) w in close_if (mapfd m) r w)"

text \<open>A handle whose fields have not been set; the stat is what the memory happens to hold.\<close>

definition mfd_garbage :: "stat \<Rightarrow> mfd" where
  "mfd_garbage st = \<lparr>is_main = Mfd_main,
     mapheader = \<lparr>mh_version = 0, mh_exists = 0, mh_fstat = st, mh_signature = [0, 0, 0, 0]\<rparr>,
     mfd_locklabel = 0, mfd_sn_number = 0, mainfd = 0, maindir = 0, mapfd = 0, datfd = 0,
     vpath = [], latest_written_block_cache = 0, sn_current = 0, sn_first_file = 0,
     sn_steps = []\<rparr>"

definition mfd_init_sn :: "stat \<Rightarrow> string \<Rightarrow> string \<Rightarrow> world \<Rightarrow> (unit res \<times> world) option" where
  "mfd_init_sn garbage vp fpath w =
     do {
       ((r, m), w) \<leftarrow> mfd_open_sn (mfd_garbage garbage) vp (Some fpath) w;
       case r of
         Inl e \<Rightarrow> Some (Inl e, w)
       | Inr _ \<Rightarrow> Some (mfd_close_sn m w)
     }"

definition mfd_validate :: "mfd \<Rightarrow> world \<Rightarrow> ((unit res \<times> mfd) \<times> world) option" where
  "mfd_validate m w =
     (if sn_number w = mfd_sn_number m then Some ((Inr (), m), w)
      else if mapfd m = MFD_FD_RDONLY then Some ((Inr (), m), w)
      else
        (let (r, w) = mfd_close_sn m w in
         case r of
           Inl e \<Rightarrow> Some ((Inl e, m), w)
         | Inr _ \<Rightarrow>
             do {
               ((r, m), w) \<leftarrow> mfd_open_sn m (vpath m) None w;
               case r of
                 Inl e \<Rightarrow> Some ((Inl e, m), w)
               | Inr _ \<Rightarrow> Some ((Inr (), m\<lparr>mfd_sn_number := sn_number w\<rparr>), w)
             }))"

definition mfd_in_sn_validate :: "mfd \<Rightarrow> world \<Rightarrow> unit res" where
  "mfd_in_sn_validate m w = (if sn_number w = mfd_sn_number m then Inr () else Inl EREMCHG)"

section \<open>The steps of a path in a snapshot\<close>

type_synonym sn_flags = "32 word"

abbreviation (input) "SN_STEPS_F_FILE \<equiv> 0x1 :: sn_flags"
abbreviation (input) "SN_STEPS_F_DIR \<equiv> 0x2 :: sn_flags"
abbreviation (input) "SN_STEPS_F_TYPE_UNKNOWN \<equiv> 0x4 :: sn_flags"
abbreviation (input) "SN_STEPS_F_FIRSTONLY \<equiv> 0x8 :: sn_flags"
abbreviation (input) "SN_STEPS_F_SKIPOPENDAT \<equiv> 0x10 :: sn_flags"
abbreviation (input) "SN_STEPS_F_SKIPOPENDIR \<equiv> 0x20 :: sn_flags"
abbreviation (input) "SN_STEPS_F_STATDIR \<equiv> 0x40 :: sn_flags"

text \<open>
  \<open>mfd_destroy_sn_steps\<close> closes the descriptors from the selected snapshot down to the main space,
  but only if a first file has been found. The last error is returned.
\<close>

definition close_step :: "sn_step \<Rightarrow> unit res \<Rightarrow> world \<Rightarrow> unit res \<times> world" where
  "close_step s waserror w =
     (let (r, w) = close_if (step_mapfd s) waserror w;
          (r, w) = close_if (step_datfd s) r w in
      case step_dirfd s of
        None \<Rightarrow> (r, w)
      | Some d \<Rightarrow>
          (let (c, w) = sys_closedir d w in (case c of Inl e \<Rightarrow> Inl e | Inr _ \<Rightarrow> r, w)))"

fun close_steps :: "sn_step list \<Rightarrow> unit res \<Rightarrow> world \<Rightarrow> unit res \<times> world" where
  "close_steps [] waserror w = (waserror, w)"
| "close_steps (s # ss) waserror w =
     (let (r, w) = close_step s waserror w in close_steps ss r w)"

definition mfd_destroy_sn_steps :: "mfd \<Rightarrow> world \<Rightarrow> unit res \<times> world" where
  "mfd_destroy_sn_steps m w =
     (if sn_first_file m \<ge> 0 then close_steps (rev (take (Suc (sn_current m)) (sn_steps m))) (Inr ()) w
      else (Inr (), w))"

text \<open>
  The body of the loop of \<open>mfd_get_sn_steps\<close>, in the pieces the code has. \<open>flow\<close> says how a piece ends:
  with \<open>continue\<close>, with \<open>break\<close>, or by falling through. \<open>waserror\<close> is kept across the pieces.
\<close>

datatype flow = Continue | Break | Fall

datatype knowntype = Known_none | Known_dir stat | Known_file

definition upd_step :: "nat \<Rightarrow> (sn_step \<Rightarrow> sn_step) \<Rightarrow> mfd \<Rightarrow> mfd" where
  "upd_step i f m = m\<lparr>sn_steps := (sn_steps m)[i := f (sn_steps m ! i)]\<rparr>"

definition unused_step :: "nat \<Rightarrow> mfd \<Rightarrow> mfd" where
  "unused_step i m =
     upd_step i (\<lambda>s. s\<lparr>step_mapfd := SN_STEPS_UNUSED, step_datfd := SN_STEPS_UNUSED\<rparr>) m"

definition sn_known_type :: "sn_flags \<Rightarrow> string \<Rightarrow> world \<Rightarrow> knowntype res \<times> world" where
  "sn_known_type flags p w =
     (if has_flag flags SN_STEPS_F_TYPE_UNKNOWN then
        (let (st, w) = sys_lstat p w in
         case st of
           Inl e \<Rightarrow> (if e = ENOENT then Inr Known_file else Inl e, w)
         | Inr st \<Rightarrow> (Inr (if S_ISDIR (st_mode st) then Known_dir st else Known_file), w))
      else (Inr Known_none, w))"

definition set_fstat :: "stat \<Rightarrow> mfd \<Rightarrow> mfd" where
  "set_fstat st m = m\<lparr>mapheader := (mapheader m)\<lparr>mh_fstat := st\<rparr>\<rparr>"

text \<open>The first directory found is the one whose stat is kept.\<close>

definition sn_step_dir_first ::
  "sn_flags \<Rightarrow> nat \<Rightarrow> knowntype \<Rightarrow> unit res \<Rightarrow> mfd \<Rightarrow> world \<Rightarrow> (flow \<times> unit res \<times> mfd) \<times> world" where
  "sn_step_dir_first flags sni kt waserror m w =
     (let m = m\<lparr>sn_first_file := int sni\<rparr>;
          fl = (if has_flag flags SN_STEPS_F_FIRSTONLY then Break else Fall) in
      if has_flag flags SN_STEPS_F_STATDIR \<or> has_flag flags SN_STEPS_F_SKIPOPENDIR then
        (case kt of
           Known_dir st \<Rightarrow> ((fl, waserror, set_fstat st m), w)
         | _ \<Rightarrow>
             (let (st, w) = sys_lstat (step_path (sn_steps m ! sni)) w in
              case st of
                Inl e \<Rightarrow>
                  if e = ENOENT then ((fl, waserror, unused_step sni m), w)
                  else ((Break, Inl e, m), w)
              | Inr st \<Rightarrow> ((fl, waserror, set_fstat st m), w)))
      else ((fl, waserror, m), w))"

definition sn_step_dir ::
  "sn_flags \<Rightarrow> nat \<Rightarrow> knowntype \<Rightarrow> unit res \<Rightarrow> mfd \<Rightarrow> world \<Rightarrow> (flow \<times> unit res \<times> mfd) \<times> world" where
  "sn_step_dir flags sni kt waserror m w =
     (let (d, w) =
        (if has_flag flags SN_STEPS_F_SKIPOPENDIR then (Inr None, w)
         else
           (let (d, w) = sys_opendir (step_path (sn_steps m ! sni)) w
            in (case d of Inl e \<Rightarrow> Inl e | Inr d \<Rightarrow> Inr (Some d), w))) in
      case d of
        Inl e \<Rightarrow>
          if e = ENOENT then ((Continue, waserror, unused_step sni m), w)
          else ((Break, Inl e, m), w)
      | Inr d \<Rightarrow>
          (let m = (case d of
                      None \<Rightarrow> m
                    | Some _ \<Rightarrow> upd_step sni (\<lambda>s. s\<lparr>step_dirfd := d\<rparr>) m) in
           if sn_first_file m = -1 then sn_step_dir_first flags sni kt waserror m w
           else ((Fall, waserror, m), w)))"

text \<open>A file in a snapshot: its dat file (unless skipped) after its map file.\<close>

definition sn_step_dat ::
  "sn_flags \<Rightarrow> nat \<Rightarrow> unit res \<Rightarrow> mfd \<Rightarrow> world \<Rightarrow> (flow \<times> unit res \<times> mfd) \<times> world" where
  "sn_step_dat flags sni waserror m w =
     (if has_flag flags SN_STEPS_F_SKIPOPENDAT then ((Fall, waserror, m), w)
      else
        (case get_dat_path (step_path (sn_steps m ! sni)) of
           Inl e \<Rightarrow> ((Break, Inl e, m), w)
         | Inr mysnpath \<Rightarrow>
             (let (fd, w) = sys_open mysnpath O_RDONLY 0 w in
              case fd of
                Inl e \<Rightarrow>
                  if e = ENOENT then
                    ((Continue, waserror,
                      upd_step sni (\<lambda>s. s\<lparr>step_datfd := SN_STEPS_UNUSED\<rparr>) m), w)
                  else ((Break, Inl e, m), w)
              | Inr fd \<Rightarrow>
                  ((Fall, waserror, upd_step sni (\<lambda>s. s\<lparr>step_datfd := fd\<rparr>) m), w))))"

definition sn_step_map ::
  "sn_flags \<Rightarrow> nat \<Rightarrow> unit res \<Rightarrow> mfd \<Rightarrow> world
    \<Rightarrow> (flow \<times> unit res \<times> mfd \<times> mapheader) \<times> world" where
  "sn_step_map flags sni waserror m w =
     (case get_map_path (step_path (sn_steps m ! sni)) of
        Inl e \<Rightarrow> ((Break, Inl e, m, mapheader m), w)
      | Inr mysnpath \<Rightarrow>
          (let (fd, w) = sys_open mysnpath O_RDONLY 0 w in
           case fd of
             Inl e \<Rightarrow>
               if e = ENOENT then ((Continue, waserror, unused_step sni m, mapheader m), w)
               else ((Break, Inl e, m, mapheader m), w)
           | Inr fd \<Rightarrow>
               (let m = upd_step sni (\<lambda>s. s\<lparr>step_mapfd := fd\<rparr>) m;
                    ((ret, maphead), w) = mfd_load_mapheader (mapheader m) fd w;
                    waserror = (case ret of Inl e \<Rightarrow> Inl e | Inr _ \<Rightarrow> waserror);
                    ((fl, waserror, m), w) = sn_step_dat flags sni waserror m w
                in ((fl, waserror, m, maphead), w))))"

text \<open>The main file.\<close>

definition sn_step_main ::
  "sn_flags \<Rightarrow> unit res \<Rightarrow> mfd \<Rightarrow> world \<Rightarrow> (flow \<times> unit res \<times> mfd) \<times> world" where
  "sn_step_main flags waserror m w =
     (let p = step_path (sn_steps m ! 0);
          m = (upd_step 0 (\<lambda>s. s\<lparr>step_mapfd := SN_STEPS_MAIN\<rparr>) m)
                \<lparr>mfd_locklabel := string2locklabel p\<rparr> in
      if has_flag flags SN_STEPS_F_SKIPOPENDAT then
        ((Fall, waserror, upd_step 0 (\<lambda>s. s\<lparr>step_datfd := SN_STEPS_NOTOPEN\<rparr>) m), w)
      else
        (let (fd, w) = sys_open p O_RDONLY 0 w in
         case fd of
           Inl e \<Rightarrow>
             if e = ENOENT then
               ((Continue, waserror, upd_step 0 (\<lambda>s. s\<lparr>step_datfd := SN_STEPS_UNUSED\<rparr>) m), w)
             else ((Break, Inl e, m), w)
         | Inr fd \<Rightarrow> ((Fall, waserror, upd_step 0 (\<lambda>s. s\<lparr>step_datfd := fd\<rparr>) m), w)))"

text \<open>The first file found is the one whose header is kept.\<close>

definition sn_step_first ::
  "sn_flags \<Rightarrow> nat \<Rightarrow> mapheader \<Rightarrow> unit res \<Rightarrow> mfd \<Rightarrow> world \<Rightarrow> (flow \<times> unit res \<times> mfd) \<times> world"
where
  "sn_step_first flags sni maphead waserror m w =
     (if sn_first_file m = -1 then
        (let m = m\<lparr>sn_first_file := int sni\<rparr>;
             fl = (if has_flag flags SN_STEPS_F_FIRSTONLY then Break else Fall) in
         if sni > 0 then ((fl, waserror, m\<lparr>mapheader := maphead\<rparr>), w)
         else
           (let (st, w) = sys_lstat (step_path (sn_steps m ! sni)) w in
            case st of
              Inl e \<Rightarrow> ((Break, Inl e, m), w)
            | Inr st \<Rightarrow> ((fl, waserror, set_fstat st m), w)))
      else ((Fall, waserror, m), w))"

definition sn_step_file ::
  "sn_flags \<Rightarrow> nat \<Rightarrow> unit res \<Rightarrow> mfd \<Rightarrow> world \<Rightarrow> (flow \<times> unit res \<times> mfd) \<times> world" where
  "sn_step_file flags sni waserror m w =
     (let ((fl, waserror, m, maphead), w) =
        (if sni > 0 then sn_step_map flags sni waserror m w
         else (let ((fl, we, m), w) = sn_step_main flags waserror m w
               in ((fl, we, m, mapheader m), w))) in
      if fl = Fall then sn_step_first flags sni maphead waserror m w
      else ((fl, waserror, m), w))"

definition sn_step_body ::
  "sn_flags \<Rightarrow> string \<Rightarrow> nat \<Rightarrow> unit res \<Rightarrow> mfd \<Rightarrow> world \<Rightarrow> (flow \<times> unit res \<times> mfd) \<times> world" where
  "sn_step_body flags mypath sni waserror m w =
     (let s = step_path (sn_steps m ! sni) in
      if length mypath + length s \<ge> PATH_MAX then ((Break, Inl ENAMETOOLONG, m), w)
      else
        (let m = upd_step sni (\<lambda>t. t\<lparr>step_path := s @ mypath\<rparr>) m;
             (kt, w) = sn_known_type flags (s @ mypath) w in
         case kt of
           Inl e \<Rightarrow> ((Break, Inl e, m), w)
         | Inr kt \<Rightarrow>
             if (case kt of Known_dir _ \<Rightarrow> True | _ \<Rightarrow> has_flag flags SN_STEPS_F_DIR)
             then sn_step_dir flags sni kt waserror m w
             else if kt = Known_file \<or> has_flag flags SN_STEPS_F_FILE
             then sn_step_file flags sni waserror m w
             else ((Fall, Inl EBADE, m), w)))"

text \<open>The loop from the selected snapshot (index \<open>n - 1\<close>) down to the main space (index 0).\<close>

fun sn_steps_loop ::
  "sn_flags \<Rightarrow> string \<Rightarrow> nat \<Rightarrow> unit res \<Rightarrow> mfd \<Rightarrow> world \<Rightarrow> (unit res \<times> mfd) \<times> world" where
  "sn_steps_loop flags mypath 0 waserror m w = ((waserror, m), w)"
| "sn_steps_loop flags mypath (Suc sni) waserror m w =
     (let ((fl, waserror, m), w) = sn_step_body flags mypath sni waserror m w in
      if fl = Break \<or> fl = Fall \<and> waserror \<noteq> Inr () then ((waserror, m), w)
      else sn_steps_loop flags mypath sni waserror m w)"

definition mfd_get_sn_steps ::
  "mfd \<Rightarrow> snpath \<Rightarrow> sn_flags \<Rightarrow> world \<Rightarrow> (unit res \<times> mfd) \<times> world" where
  "mfd_get_sn_steps m sp flags w =
     (let m = m\<lparr>mfd_sn_number := sn_number w\<rparr>;
          ((ret, m), w) = sn_get_paths_to m sp w in
      case ret of
        Inl e \<Rightarrow> ((Inl e, m), w)
      | Inr _ \<Rightarrow>
          (let mypath = (if is_there sp = Snpath_full then inpath sp else []);
               m = m\<lparr>sn_first_file := -1,
                     sn_steps := map (\<lambda>s. s\<lparr>step_mapfd := SN_STEPS_NOTOPEN,
                       step_datfd := SN_STEPS_NOTOPEN, step_dirfd := None\<rparr>) (sn_steps m)\<rparr>;
               ((waserror, m), w) =
                 sn_steps_loop flags mypath (Suc (sn_current m)) (Inr ()) m w in
           case waserror of
             Inl e \<Rightarrow> (let (_, w) = mfd_destroy_sn_steps m w in ((Inl e, m), w))
           | Inr _ \<Rightarrow> ((Inr (), m), w)))"

end
