(* ===== verification/Block.thy ===== *)
theory Block
  imports Mfd
begin

text \<open>
  Blocks (\<open>block.c\<close>): reading a file in a snapshot from the first of its steps that has the block
  (\<open>b_read\<close>), and saving the blocks of a main file in the latest snapshot before they change
  (\<open>b_write\<close>, \<open>b_truncate\<close>). Offsets and sizes are natural numbers; \<open>calc_blocks64\<close> is the macro
  \<open>B_CALC_BLOCKS\<close> on 64-bit values.
\<close>

section \<open>Block numbers\<close>

definition b_calc_blocks :: "nat \<Rightarrow> nat \<Rightarrow> nat \<Rightarrow> nat \<times> nat" where
  "b_calc_blocks slog byteoffset bytesize =
     (drop_bit slog byteoffset,
      drop_bit slog (bytesize + (byteoffset AND (2 ^ slog - 1)) - 1) + 1)"

definition calc_blocks64 :: "nat \<Rightarrow> 64 word \<Rightarrow> 64 word \<Rightarrow> 64 word \<times> 64 word" where
  "calc_blocks64 slog byteoffset bytesize =
     (drop_bit slog byteoffset,
      drop_bit slog (bytesize + (byteoffset AND (2 ^ slog - 1)) - 1) + 1)"

section \<open>Reading a file in a snapshot\<close>

text \<open>
  The inner block of \<open>b_read\<close> at one step: \<open>Inr None\<close> if the step does not have the block. The
  position in the step's file is relative to the pointer, or to the block in the main file.
\<close>

definition b_read_from ::
  "int \<Rightarrow> nat \<Rightarrow> nat \<Rightarrow> world \<Rightarrow> byte list option res \<times> world" where
  "b_read_from copyfd copyfrom copylength w =
     (let (ret, w) = sys_pread copyfd copylength copyfrom w in
      case ret of
        Inl e \<Rightarrow> (Inl e, w)
      | Inr bs \<Rightarrow> (if length bs \<noteq> copylength then Inl ENXIO else Inr (Some bs), w))"

definition b_probe ::
  "mfd \<Rightarrow> nat \<Rightarrow> nat \<Rightarrow> nat \<Rightarrow> nat \<Rightarrow> world \<Rightarrow> byte list option res \<times> world" where
  "b_probe m sni blockoffset copyfrom copylength w =
     (let s = sn_steps m ! sni; mapoffset = MAPHEADER_S + blockoffset * BLP_S in
      if sni > 0 then
        (if step_mapfd s < 0 then (Inr None, w)
         else
           (let (ret, w) = sys_pread (step_mapfd s) BLP_S mapoffset w in
            case ret of
              Inl e \<Rightarrow> (Inl e, w)
            | Inr bs \<Rightarrow>
                if length bs \<noteq> BLP_S \<and> length bs \<noteq> 0 then (Inl ENXIO, w)
                else
                  (let pointer = (if bs = [] then 0 else le_nat bs) in
                   if pointer = 0 then (Inr None, w)
                   else
                     b_read_from (step_datfd s) (copyfrom + push_bit (bl_slog w) (pointer - 1))
                       copylength w)))
      else b_read_from (step_datfd s) (copyfrom + push_bit (bl_slog w) blockoffset) copylength w)"

text \<open>
  The loop over the steps, from \<open>n - 1\<close> down to 0. The lock is taken at the latest snapshot or the
  main file and kept until the block is found. \<open>Inl r\<close> makes \<open>b_read\<close> return \<open>r\<close>; an error of the
  unlocking is returned with the wrong sign, as a number of bytes.
\<close>

definition b_release ::
  "nat option \<Rightarrow> nat res + byte list option \<Rightarrow> world
    \<Rightarrow> ((nat res + byte list option) \<times> world) option" where
  "b_release lock r w =
     (case lock of
        None \<Rightarrow> Some (r, w)
      | Some i \<Rightarrow>
          do {
            (u, w) \<leftarrow> mflock_unlock i w;
            case u of
              Inl e \<Rightarrow> Some (Inl (Inr (errno_num e)), w)
            | Inr _ \<Rightarrow> Some (r, w)
          })"

fun b_search ::
  "mfd \<Rightarrow> nat \<Rightarrow> nat \<Rightarrow> nat \<Rightarrow> nat \<Rightarrow> nat option \<Rightarrow> world
    \<Rightarrow> ((nat res + byte list option) \<times> world) option" where
  "b_search m blockoffset copyfrom copylength 0 lock w = Some (Inr None, w)"
| "b_search m blockoffset copyfrom copylength (Suc sni) lock w =
     do {
       (l, w) \<leftarrow> (if sni \<le> 1 \<and> lock = None then
                    do {
                      (l, w) \<leftarrow> mflock_lock (mfd_locklabel m) w;
                      Some (map_sum id Some l, w)
                    }
                  else Some (Inr lock, w));
       case l of
         Inl e \<Rightarrow> Some (Inl (Inl e), w)
       | Inr lock \<Rightarrow>
           (let (r, w) = b_probe m sni blockoffset copyfrom copylength w in
            case r of
              Inl e \<Rightarrow> b_release lock (Inl (Inl e)) w
            | Inr None \<Rightarrow> b_search m blockoffset copyfrom copylength sni lock w
            | Inr (Some bs) \<Rightarrow> b_release lock (Inr (Some bs)) w)
     }"

text \<open>The loop over the blocks; \<open>buf\<close> is the caller's buffer.\<close>

definition copy_from :: "nat \<Rightarrow> nat \<Rightarrow> nat \<Rightarrow> nat \<Rightarrow> nat" where
  "copy_from slog readoffset blockoffset copyto =
     (if copyto = 0 then readoffset - push_bit slog blockoffset else 0)"

definition copy_length :: "nat \<Rightarrow> nat \<Rightarrow> nat \<Rightarrow> nat \<Rightarrow> nat \<Rightarrow> nat \<Rightarrow> nat" where
  "copy_length slog readoffset readsize blocknumber blockoffset copyto =
     (let copylength = 2 ^ slog - copy_from slog readoffset blockoffset copyto in
      if blocknumber = 1
      then copylength - (push_bit slog (blockoffset + 1) - readoffset - readsize)
      else copylength)"

fun b_read_blocks ::
  "mfd \<Rightarrow> nat \<Rightarrow> nat \<Rightarrow> nat \<Rightarrow> nat \<Rightarrow> nat \<Rightarrow> byte list \<Rightarrow> world
    \<Rightarrow> ((nat res \<times> byte list) \<times> world) option" where
  "b_read_blocks m readoffset readsize 0 blockoffset copyto buf w = Some ((Inr copyto, buf), w)"
| "b_read_blocks m readoffset readsize (Suc k) blockoffset copyto buf w =
     (let copyfrom = copy_from (bl_slog w) readoffset blockoffset copyto;
          copylength = copy_length (bl_slog w) readoffset readsize (Suc k) blockoffset copyto in
      do {
        (r, w) \<leftarrow> b_search m blockoffset copyfrom copylength (nat (sn_first_file m + 1)) None w;
        case r of
          Inl ret \<Rightarrow> Some ((ret, buf), w)
        | Inr found \<Rightarrow>
            b_read_blocks m readoffset readsize k (blockoffset + 1) (copyto + copylength)
              (case found of None \<Rightarrow> buf | Some bs \<Rightarrow> write_at buf bs copyto) w
      })"

definition b_read ::
  "byte list \<Rightarrow> mfd \<Rightarrow> nat \<Rightarrow> nat \<Rightarrow> world \<Rightarrow> ((nat res \<times> byte list) \<times> world) option" where
  "b_read buf m readsize readoffset w =
     (let snsize = st_size (mh_fstat (mapheader m)) in
      if readsize = 0 then Some ((Inr 0, buf), w)
      else if readoffset + readsize > snsize \<and> readoffset \<ge> snsize then Some ((Inr 0, buf), w)
      else
        (let readsize = (if readoffset + readsize > snsize then snsize - readoffset else readsize);
             (blockoffset, blocknumber) = b_calc_blocks (bl_slog w) readoffset readsize
         in b_read_blocks m readoffset readsize blocknumber blockoffset 0 buf w))"

section \<open>The global block buffer\<close>

definition b_init_block_buffer :: "world \<Rightarrow> unit res \<times> world" where
  "b_init_block_buffer w =
     (let (ok, w) = malloc_ok w in
      if ok then (Inr (), w\<lparr>block_buffer := resize_to (junk w) (BL_S w)\<rparr>) else (Inl ENOMEM, w))"

definition b_destroy_block_buffer :: "world \<Rightarrow> unit res \<times> world" where
  "b_destroy_block_buffer w = (Inr (), w\<lparr>block_buffer := []\<rparr>)"

section \<open>Saving the blocks that are about to change\<close>

definition block_read_pointer :: "mfd \<Rightarrow> nat \<Rightarrow> world \<Rightarrow> nat res \<times> world" where
  "block_read_pointer m mapoffset w =
     (let (ret, w) = sys_pread (mapfd m) BLP_S mapoffset w in
      case ret of
        Inl e \<Rightarrow> (Inl e, w)
      | Inr bs \<Rightarrow>
          (if length bs \<noteq> BLP_S \<and> length bs \<noteq> 0 then Inl ENXIO
           else Inr (if bs = [] then 0 else le_nat bs), w))"

text \<open>
  The buffer of a save: not allocated yet, the global one (used under the lock with index 0), or one
  on the heap with its bytes.
\<close>

datatype bufsel = No_buf | Global_buf | Heap_buf "byte list"

definition buf_get :: "bufsel \<Rightarrow> world \<Rightarrow> byte list" where
  "buf_get buf w = (case buf of No_buf \<Rightarrow> [] | Global_buf \<Rightarrow> block_buffer w | Heap_buf bs \<Rightarrow> bs)"

definition buf_put :: "bufsel \<Rightarrow> byte list \<Rightarrow> world \<Rightarrow> bufsel \<times> world" where
  "buf_put buf bs w =
     (case buf of
        No_buf \<Rightarrow> (No_buf, w)
      | Global_buf \<Rightarrow> (Global_buf, w\<lparr>block_buffer := write_at (block_buffer w) bs 0\<rparr>)
      | Heap_buf old \<Rightarrow> (Heap_buf (write_at old bs 0), w))"

definition b_alloc_buf :: "int \<Rightarrow> bufsel \<Rightarrow> world \<Rightarrow> bufsel res \<times> world" where
  "b_alloc_buf lock buf w =
     (if buf \<noteq> No_buf then (Inr buf, w)
      else if lock = 0 then (Inr Global_buf, w)
      else
        (let (ok, w) = malloc_ok w in
         if ok then (Inr (Heap_buf (resize_to (junk w) (BL_S w))),
                     w\<lparr>heap_bufs := Suc (heap_bufs w)\<rparr>)
         else (Inl ENOMEM, w)))"

text \<open>
  The block has been read into the buffer: it is appended to the dat file, then its number there,
  plus one, is written to the map file.
\<close>

definition b_append_block :: "mfd \<Rightarrow> nat \<Rightarrow> byte list \<Rightarrow> world \<Rightarrow> unit res \<times> world" where
  "b_append_block m mapoffset block w =
     (let (datsize, w) = sys_lseek_end (datfd m) w in
      case datsize of
        Inl e \<Rightarrow> (Inl e, w)
      | Inr datsize \<Rightarrow>
          if datsize AND (BL_S w - 1) \<noteq> 0 then (Inl EFAULT, w)
          else
            (let (ret, w) = sys_write (datfd m) block w in
             case ret of
               Inl e \<Rightarrow> (Inl e, w)
             | Inr n \<Rightarrow>
                 if n \<noteq> BL_S w then (Inl ENXIO, w)
                 else
                   (let pointer = drop_bit (bl_slog w) datsize + 1;
                        (ret, w) = sys_pwrite (mapfd m) (le_bytes BLP_S pointer) mapoffset w in
                    case ret of
                      Inl e \<Rightarrow> (Inl e, w)
                    | Inr n \<Rightarrow> (if n \<noteq> BLP_S then Inl ENXIO else Inr (), w))))"

definition b_save_block ::
  "mfd \<Rightarrow> nat \<Rightarrow> int \<Rightarrow> bufsel \<Rightarrow> world \<Rightarrow> (unit res \<times> mfd \<times> int \<times> bufsel) \<times> world" where
  "b_save_block m blockoffset lock buf w =
     (let mapoffset = MAPHEADER_S + blockoffset * BLP_S; (b, w) = b_alloc_buf lock buf w in
      case b of
        Inl e \<Rightarrow> ((Inl e, m, lock, buf), w)
      | Inr buf \<Rightarrow>
          (let (ret, w) = sys_pread (mainfd m) (BL_S w) (push_bit (bl_slog w) blockoffset) w in
           case ret of
             Inl e \<Rightarrow> ((Inl e, m, lock, buf), w)
           | Inr bs \<Rightarrow>
               if length bs < 1 then ((Inl ENXIO, m, lock, buf), w)
               else
                 (let (buf, w) = buf_put buf bs w;
                      (r, w) = b_append_block m mapoffset (buf_get buf w) w in
                  case r of
                    Inl e \<Rightarrow> ((Inl e, m, lock, buf), w)
                  | Inr _ \<Rightarrow>
                      ((Inr (), m\<lparr>latest_written_block_cache := blockoffset + 1\<rparr>, lock, buf), w))))"

text \<open>One turn of the block loop. \<open>lock\<close> is -1 for no lock, -2 for a lock of the caller.\<close>

definition b_write_block ::
  "mfd \<Rightarrow> nat \<Rightarrow> int \<Rightarrow> bufsel \<Rightarrow> world \<Rightarrow> ((unit res \<times> mfd \<times> int \<times> bufsel) \<times> world) option" where
  "b_write_block m blockoffset lock buf w =
     (if latest_written_block_cache m = blockoffset + 1 then Some ((Inr (), m, lock, buf), w)
      else
        (let mapoffset = MAPHEADER_S + blockoffset * BLP_S;
             (ret, w) = block_read_pointer m mapoffset w in
         case ret of
           Inl e \<Rightarrow> Some ((Inl e, m, lock, buf), w)
         | Inr pointer \<Rightarrow>
             if pointer \<noteq> 0 then
               Some ((Inr (), m\<lparr>latest_written_block_cache := blockoffset + 1\<rparr>, lock, buf), w)
             else if lock = -1 then
               do {
                 (l, w) \<leftarrow> mflock_lock (mfd_locklabel m) w;
                 case l of
                   Inl e \<Rightarrow> Some ((Inl e, m, -1, buf), w)
                 | Inr i \<Rightarrow>
                     (let (ret, w) = block_read_pointer m mapoffset w in
                      case ret of
                        Inl e \<Rightarrow> Some ((Inl e, m, int i, buf), w)
                      | Inr pointer \<Rightarrow>
                          if pointer \<noteq> 0 then Some ((Inr (), m, int i, buf), w)
                          else Some (b_save_block m blockoffset (int i) buf w))
               }
             else Some (b_save_block m blockoffset lock buf w)))"

fun b_write_blocks ::
  "mfd \<Rightarrow> nat \<Rightarrow> nat \<Rightarrow> int \<Rightarrow> bufsel \<Rightarrow> world \<Rightarrow> ((unit res \<times> mfd \<times> int \<times> bufsel) \<times> world) option"
where
  "b_write_blocks m 0 blockoffset lock buf w = Some ((Inr (), m, lock, buf), w)"
| "b_write_blocks m (Suc k) blockoffset lock buf w =
     do {
       ((r, m, lock, buf), w) \<leftarrow> b_write_block m blockoffset lock buf w;
       case r of
         Inl e \<Rightarrow> Some ((Inl e, m, lock, buf), w)
       | Inr _ \<Rightarrow> b_write_blocks m k (blockoffset + 1) lock buf w
     }"

text \<open>
  The end of \<open>b_write\<close>. The variable \<open>lock\<close> has the result of the unlocking when it is compared with
  0, so that a buffer on the heap is freed only if the unlocking fails.
\<close>

definition b_write_end ::
  "unit res \<Rightarrow> mfd \<Rightarrow> int \<Rightarrow> bufsel \<Rightarrow> world \<Rightarrow> ((unit res \<times> mfd) \<times> world) option" where
  "b_write_end waserror m lock buf w =
     (if lock \<ge> 0 then
        do {
          (u, w) \<leftarrow> mflock_unlock (nat lock) w;
          case u of
            Inl e \<Rightarrow>
              Some ((if waserror = Inr () then Inl e else waserror, m),
                    case buf of
                      Heap_buf _ \<Rightarrow> w\<lparr>heap_bufs := heap_bufs w - 1\<rparr>
                    | Global_buf \<Rightarrow> w\<lparr>block_buffer := []\<rparr>
                    | No_buf \<Rightarrow> w)
          | Inr _ \<Rightarrow> Some ((waserror, m), w)
        }
      else Some ((waserror, m), w))"

definition b_write ::
  "mfd \<Rightarrow> nat \<Rightarrow> nat \<Rightarrow> bool \<Rightarrow> world \<Rightarrow> ((unit res \<times> mfd) \<times> world) option" where
  "b_write m writesize writeoffset has_lock w =
     (let snsize = st_size (mh_fstat (mapheader m)) in
      if datfd m < 0 \<or> writesize = 0 then Some ((Inr (), m), w)
      else if writeoffset + writesize > snsize \<and> writeoffset \<ge> snsize then Some ((Inr (), m), w)
      else
        (let writesize = (if writeoffset + writesize > snsize then snsize - writeoffset
                          else writesize);
             (blockoffset, blocknumber) = b_calc_blocks (bl_slog w) writeoffset writesize in
         do {
           ((r, m, lock, buf), w) \<leftarrow>
             b_write_blocks m blocknumber blockoffset (if has_lock then -2 else -1) No_buf w;
           b_write_end r m lock buf w
         }))"

definition b_truncate :: "mfd \<Rightarrow> nat \<Rightarrow> bool \<Rightarrow> world \<Rightarrow> ((unit res \<times> mfd) \<times> world) option" where
  "b_truncate m newsize has_lock w =
     (if mh_exists (mapheader m) = 1 \<and> newsize < st_size (mh_fstat (mapheader m))
      then b_write m (st_size (mh_fstat (mapheader m)) - newsize) newsize has_lock w
      else Some ((Inr (), m), w))"

end
