(* ===== verification/FuseFd.thy ===== *)
theory FuseFd
  imports Block
begin

text \<open>
  The handlers on open files and directories: \<open>fuse_fd_read.c\<close>, \<open>fuse_fd_write.c\<close> and
  \<open>fuse_fd_close.c\<close>. A handler takes the handle in \<open>fi->fh\<close> and returns it if it may have changed.
  The callback of FUSE that fills a directory buffer is a parameter: \<open>filler\<close> says of the entries
  already given and the next one whether the buffer has room for it.
\<close>

section \<open>Reading and writing a file\<close>

definition read_op ::
  "byte list \<Rightarrow> nat \<Rightarrow> nat \<Rightarrow> mfd \<Rightarrow> world \<Rightarrow> ((nat res \<times> byte list) \<times> world) option" where
  "read_op buf sz offset m w =
     (case is_main m of
        Mfd_main \<Rightarrow>
          (let (ret, w) = sys_pread (mainfd m) sz offset w in
           Some (case ret of
                   Inl e \<Rightarrow> ((Inl e, buf), w)
                 | Inr bs \<Rightarrow> ((Inr (length bs), write_at buf bs 0), w)))
      | Mfd_sn_full \<Rightarrow>
          (case mfd_in_sn_validate m w of
             Inl e \<Rightarrow> Some ((Inl e, buf), w)
           | Inr _ \<Rightarrow> b_read buf m sz offset w)
      | _ \<Rightarrow> Some ((Inl EBADE, buf), w))"

definition write_op ::
  "byte list \<Rightarrow> nat \<Rightarrow> mfd \<Rightarrow> world \<Rightarrow> ((nat res \<times> mfd) \<times> world) option" where
  "write_op buf offset m w =
     (if is_main m \<noteq> Mfd_main then Some ((Inl EACCES, m), w)
      else
        do {
          ((r, m), w) \<leftarrow> mfd_validate m w;
          case r of
            Inl e \<Rightarrow> Some ((Inl e, m), w)
          | Inr _ \<Rightarrow>
              do {
                ((r, m), w) \<leftarrow> b_write m (length buf) offset False w;
                case r of
                  Inl e \<Rightarrow> Some ((Inl e, m), w)
                | Inr _ \<Rightarrow>
                    (let (ret, w) = sys_pwrite (mainfd m) buf offset w in Some ((ret, m), w))
              }
        })"

definition ftruncate_op :: "nat \<Rightarrow> mfd \<Rightarrow> world \<Rightarrow> ((unit res \<times> mfd) \<times> world) option" where
  "ftruncate_op newsize m w =
     do {
       ((r, m), w) \<leftarrow> mfd_validate m w;
       case r of
         Inl e \<Rightarrow> Some ((Inl e, m), w)
       | Inr _ \<Rightarrow>
           do {
             ((r, m), w) \<leftarrow> b_truncate m newsize False w;
             case r of
               Inl e \<Rightarrow> Some ((Inl e, m), w)
             | Inr _ \<Rightarrow> (let (ret, w) = sys_ftruncate (mainfd m) newsize w in Some ((ret, m), w))
           }
     }"

definition fgetattr_op :: "mfd \<Rightarrow> world \<Rightarrow> stat res \<times> world" where
  "fgetattr_op m w =
     (if is_main m \<noteq> Mfd_sn_full then sys_fstat (mainfd m) w
      else (Inr (mh_fstat (mapheader m)), w))"

section \<open>Listing a directory\<close>

type_synonym entries = "(string \<times> stat option) list"

text \<open>
  A directory of a snapshot. \<open>sn_entry\<close> decides what a name found at a step means: \<open>Inr None\<close> if it is
  not to be shown or has been seen, else the name to store with its stat, or with no stat if the
  file did not exist.
\<close>

definition sn_entry_map ::
  "string \<Rightarrow> string \<Rightarrow> string list \<Rightarrow> mapheader \<Rightarrow> world
    \<Rightarrow> (string \<times> stat option) option res \<times> world" where
  "sn_entry_map fpath name seen maphead w =
     (if name \<in> set seen then (Inr None, w)
      else
        (let (fd, w) = sys_open fpath O_RDONLY 0 w in
         case fd of
           Inl e \<Rightarrow> (Inl e, w)
         | Inr fd \<Rightarrow>
             (let ((ret, h), w) = mfd_load_mapheader maphead fd w; (c, w) = sys_close fd w in
              case ret of
                Inl e \<Rightarrow> (Inl e, w)
              | Inr _ \<Rightarrow>
                  (case c of
                     Inl e \<Rightarrow> (Inl e, w)
                   | Inr _ \<Rightarrow>
                       (Inr (Some (name, if mh_exists h = 1 then Some (mh_fstat h) else None)),
                        w)))))"

definition sn_entry ::
  "nat \<Rightarrow> string \<Rightarrow> string \<Rightarrow> string list \<Rightarrow> mapheader \<Rightarrow> world
    \<Rightarrow> (string \<times> stat option) option res \<times> world" where
  "sn_entry sni dir d_name seen maphead w =
     (if length dir + 1 + length d_name > PATH_MAX then (Inl ENAMETOOLONG, w)
      else
        (let fpath = dir @ DIRSEP @ d_name; j = (if sni > 0 then mfd_filter_name d_name else 1) in
         if j = 0 then (Inr None, w)
         else if j = 2
         then sn_entry_map fpath (take (length d_name - EXT_LEN) d_name) seen maphead w
         else if d_name \<in> set seen then (Inr None, w)
         else
           (let (st, w) = sys_lstat fpath w in
            case st of
              Inl e \<Rightarrow> (Inl e, w)
            | Inr st \<Rightarrow> (Inr (Some (d_name, Some st)), w))))"

text \<open>
  The array of the names seen has room for \<open>allocated\<close> names. The inner loop ends at the end of the
  stream; its length, plus one, is enough fuel.
\<close>

record listing =
  seen :: "string list"
  allocated :: nat
  filled :: entries

fun sn_readdir_stream ::
  "nat \<Rightarrow> (entries \<Rightarrow> string \<times> stat option \<Rightarrow> bool) \<Rightarrow> nat \<Rightarrow> sn_step \<Rightarrow> mapheader \<Rightarrow> listing \<Rightarrow> world
    \<Rightarrow> (unit res \<times> listing) \<times> world" where
  "sn_readdir_stream 0 filler sni s maphead ls w = ((Inr (), ls), w)"
| "sn_readdir_stream (Suc n) filler sni s maphead ls w =
     (let (de, w) = (case step_dirfd s of
                       None \<Rightarrow> (Inl EBADF, w)
                     | Some d \<Rightarrow> sys_readdir d w) in
      case de of
        Inl e \<Rightarrow> ((Inl e, ls), w)
      | Inr None \<Rightarrow> ((Inr (), ls), w)
      | Inr (Some d_name) \<Rightarrow>
          (let (r, w) = sn_entry sni (step_path s) d_name (seen ls) maphead w in
           case r of
             Inl e \<Rightarrow> ((Inl e, ls), w)
           | Inr None \<Rightarrow> sn_readdir_stream n filler sni s maphead ls w
           | Inr (Some (name, st)) \<Rightarrow>
               if st \<noteq> None \<and> \<not> filler (filled ls) (name, st) then ((Inl ENOMEM, ls), w)
               else
                 (let ls = (if st = None then ls else ls\<lparr>filled := filled ls @ [(name, st)]\<rparr>);
                      full = (length (seen ls) \<ge> allocated ls);
                      (ok, w) = (if full then malloc_ok w else (True, w)) in
                  if \<not> ok then ((Inl ENOMEM, ls), w)
                  else
                    sn_readdir_stream n filler sni s maphead
                      (ls\<lparr>seen := seen ls @ [name],
                          allocated := (if full then 2 * allocated ls else allocated ls)\<rparr>) w)))"

definition stream_fuel :: "sn_step \<Rightarrow> world \<Rightarrow> nat" where
  "stream_fuel s w =
     (case step_dirfd s of
        None \<Rightarrow> 1
      | Some d \<Rightarrow> (case get_stream w d of None \<Rightarrow> 1 | Some names \<Rightarrow> Suc (length names)))"

text \<open>The loop over the steps, from \<open>n - 1\<close> down to the main space.\<close>

fun sn_readdir_steps ::
  "nat \<Rightarrow> (entries \<Rightarrow> string \<times> stat option \<Rightarrow> bool) \<Rightarrow> mfd \<Rightarrow> listing \<Rightarrow> world
    \<Rightarrow> (unit res \<times> listing) \<times> world" where
  "sn_readdir_steps 0 filler m ls w = ((Inr (), ls), w)"
| "sn_readdir_steps (Suc sni) filler m ls w =
     (let s = sn_steps m ! sni in
      if step_mapfd s = SN_STEPS_UNUSED then sn_readdir_steps sni filler m ls w
      else
        (let ((r, ls), w) =
           sn_readdir_stream (stream_fuel s w) filler sni s (mapheader m) ls w in
         case r of
           Inl e \<Rightarrow> ((Inl e, ls), w)
         | Inr _ \<Rightarrow> sn_readdir_steps sni filler m ls w))"

definition sn_readdir ::
  "(entries \<Rightarrow> string \<times> stat option \<Rightarrow> bool) \<Rightarrow> mfd \<Rightarrow> bool \<Rightarrow> world \<Rightarrow> (unit res \<times> entries) \<times> world" where
  "sn_readdir filler m skip_snroot w =
     (let (ok, w) = malloc_ok w in
      if \<not> ok then ((Inl ENOMEM, []), w)
      else
        (let ((r, ls), w) =
           sn_readdir_steps (Suc (sn_current m)) filler m
             \<lparr>seen = (if skip_snroot then [drop 1 SNDIR] else []), allocated = 4, filled = []\<rparr> w
         in ((r, filled ls), w)))"

text \<open>A directory of the main space, or \<open>/snapshots\<close>, where the pointer files are skipped.\<close>

fun main_readdir ::
  "nat \<Rightarrow> (entries \<Rightarrow> string \<times> stat option \<Rightarrow> bool) \<Rightarrow> (string \<Rightarrow> bool) \<Rightarrow> nat \<Rightarrow> entries \<Rightarrow> world
    \<Rightarrow> (unit res \<times> entries) \<times> world" where
  "main_readdir 0 filler visible d es w = ((Inr (), es), w)"
| "main_readdir (Suc n) filler visible d es w =
     (let (de, w) = sys_readdir d w in
      case de of
        Inl e \<Rightarrow> ((Inl e, es), w)
      | Inr None \<Rightarrow> ((Inr (), es), w)
      | Inr (Some d_name) \<Rightarrow>
          if \<not> visible d_name then main_readdir n filler visible d es w
          else if \<not> filler es (d_name, None) then ((Inl ENOMEM, es), w)
          else main_readdir n filler visible d (es @ [(d_name, None)]) w)"

definition dir_fuel :: "nat \<Rightarrow> world \<Rightarrow> nat" where
  "dir_fuel d w = (case get_stream w d of None \<Rightarrow> 1 | Some names \<Rightarrow> Suc (length names))"

definition readdir_op ::
  "(entries \<Rightarrow> string \<times> stat option \<Rightarrow> bool) \<Rightarrow> mfd \<Rightarrow> world \<Rightarrow> (unit res \<times> entries) \<times> world" where
  "readdir_op filler m w =
     (case is_main m of
        Mfd_main \<Rightarrow> main_readdir (dir_fuel (maindir m) w) filler (\<lambda>_. True) (maindir m) [] w
      | Mfd_sn_root \<Rightarrow> main_readdir (dir_fuel (maindir m) w) filler sn_filter_name (maindir m) [] w
      | Mfd_sn_id \<Rightarrow> sn_readdir filler m True w
      | Mfd_sn_full \<Rightarrow> sn_readdir filler m False w)"

section \<open>Closing and synchronising\<close>

definition flush_op :: "unit res" where
  "flush_op = Inr ()"

definition release_op :: "mfd \<Rightarrow> world \<Rightarrow> unit res \<times> world" where
  "release_op m w =
     (case is_main m of
        Mfd_main \<Rightarrow>
          (let (ret, w) = mfd_close_sn m w; (c, w) = sys_close (mainfd m) w
           in (case c of Inl e \<Rightarrow> Inl e | Inr _ \<Rightarrow> ret, w))
      | Mfd_sn_full \<Rightarrow> mfd_destroy_sn_steps m w
      | _ \<Rightarrow> (Inl EBADE, w))"

definition sync_fd :: "int \<Rightarrow> unit res \<Rightarrow> world \<Rightarrow> unit res \<times> world" where
  "sync_fd fd waserror w =
     (let (r, w) = sys_fsync fd w in (case r of Inl e \<Rightarrow> Inl e | Inr _ \<Rightarrow> waserror, w))"

text \<open>\<open>fsync\<close> and \<open>fdatasync\<close> differ in what they put on the disk, which is not part of the state.\<close>

definition fsync_op :: "mfd \<Rightarrow> world \<Rightarrow> unit res \<times> world" where
  "fsync_op m w =
     (if is_main m \<noteq> Mfd_main then (Inl EBADE, w)
      else
        (let (r, w) = sync_fd (mainfd m) (Inr ()) w;
             (r, w) = (if mapfd m \<ge> 0 then sync_fd (mapfd m) r w else (r, w))
         in if datfd m \<ge> 0 then sync_fd (datfd m) r w else (r, w)))"

definition releasedir_op :: "mfd \<Rightarrow> world \<Rightarrow> unit res \<times> world" where
  "releasedir_op m w =
     (case is_main m of
        Mfd_main \<Rightarrow> sys_closedir (maindir m) w
      | Mfd_sn_root \<Rightarrow> sys_closedir (maindir m) w
      | _ \<Rightarrow> mfd_destroy_sn_steps m w)"

definition fsyncdir_op :: "unit res" where
  "fsyncdir_op = Inr ()"

end
