(* ===== verification/Overlay.thy ===== *)
theory Overlay
  imports Types
begin

text \<open>
  The abstract specification of the snapshots: what a file looks like in a snapshot. A snapshot
  keeps, for a file that has changed since, a layer: the map file and the dat file. The map file has
  the stat of the file and, for each block, 0 or the number plus one of the block in the dat file.
  A block that is not in the layer is that of the file one step later: in the next snapshot or,
  after the latest one, in the main space.

  The locale \<open>cow_layer\<close> is what a layer has to offer to its clients: a lookup of a saved block, the
  saving of a block, and how they are related. Its interpretation is the format of the map and dat
  files.
\<close>

section \<open>Layers\<close>

text \<open>A byte of a file of which some blocks are saved (\<open>get\<close>) and the others are \<open>below\<close>.\<close>

definition overlay_byte :: "nat \<Rightarrow> (nat \<Rightarrow> byte list option) \<Rightarrow> byte list \<Rightarrow> nat \<Rightarrow> byte" where
  "overlay_byte bs get below p =
     (case get (p div bs) of Some blk \<Rightarrow> blk ! (p mod bs) | None \<Rightarrow> below ! p)"

definition overlay :: "nat \<Rightarrow> nat \<Rightarrow> (nat \<Rightarrow> byte list option) \<Rightarrow> byte list \<Rightarrow> byte list" where
  "overlay bs n get below = map (overlay_byte bs get below) [0..<n]"

text \<open>Every byte of the file that is not in a saved block is there below.\<close>

definition covered :: "nat \<Rightarrow> nat \<Rightarrow> (nat \<Rightarrow> byte list option) \<Rightarrow> byte list \<Rightarrow> bool" where
  "covered bs n get below \<longleftrightarrow> (\<forall>p<n. get (p div bs) = None \<longrightarrow> p < length below)"

text \<open>The map and dat files: pointers, lookup of a block, saving a block.\<close>

definition ptr_at :: "byte list \<Rightarrow> nat \<Rightarrow> nat" where
  "ptr_at mb b = le_nat (read_at mb BLP_S (MAPHEADER_S + b * BLP_S))"

type_synonym layer = "byte list \<times> byte list"

definition layer_get :: "nat \<Rightarrow> layer \<Rightarrow> nat \<Rightarrow> byte list option" where
  "layer_get s l b =
     (let q = ptr_at (fst l) b in
      if q = 0 then None else Some (read_at (snd l) (2 ^ s) ((q - 1) * 2 ^ s)))"

definition layer_put :: "nat \<Rightarrow> nat \<Rightarrow> byte list \<Rightarrow> layer \<Rightarrow> layer" where
  "layer_put s b blk l =
     (write_at (fst l) (le_bytes BLP_S (length (snd l) div 2 ^ s + 1)) (MAPHEADER_S + b * BLP_S),
      snd l @ blk)"

definition layer_ok :: "nat \<Rightarrow> layer \<Rightarrow> bool" where
  "layer_ok s l \<longleftrightarrow> MAPHEADER_S \<le> length (fst l) \<and> BLP_S dvd length (fst l)
     \<and> (\<forall>b. ptr_at (fst l) b * 2 ^ s \<le> length (snd l))"

definition layer_fits :: "nat \<Rightarrow> byte list \<Rightarrow> layer \<Rightarrow> bool" where
  "layer_fits s blk l \<longleftrightarrow> length blk = 2 ^ s \<and> 2 ^ s dvd length (snd l) \<and> length (snd l) < 2 ^ 63"

section \<open>Views\<close>

text \<open>
  A file through a snapshot, \<open>None\<close> if it does not exist: a snapshot without a map file for it shows
  the file as it is one step later; otherwise the header says whether it existed, and its size.
\<close>

definition map_header :: "byte list \<Rightarrow> mapheader" where
  "map_header mb = bytes_mapheader (read_at mb MAPHEADER_S 0)"

definition layer_size :: "byte list \<Rightarrow> nat option" where
  "layer_size mb =
     (if mh_exists (map_header mb) = 0 then None else Some (st_size (mh_fstat (map_header mb))))"

fun layer_view :: "nat \<Rightarrow> layer option \<Rightarrow> byte list option \<Rightarrow> byte list option" where
  "layer_view s None below = below"
| "layer_view s (Some l) below =
     map_option (\<lambda>n. overlay (2 ^ s) n (layer_get s l) (case below of None \<Rightarrow> [] | Some bs \<Rightarrow> bs))
       (layer_size (fst l))"

text \<open>Through several snapshots, the earliest first.\<close>

definition view :: "nat \<Rightarrow> layer option list \<Rightarrow> byte list option \<Rightarrow> byte list option" where
  "view s ls main = foldr (layer_view s) ls main"

definition layer_wf :: "nat \<Rightarrow> layer \<Rightarrow> byte list option \<Rightarrow> bool" where
  "layer_wf s l below \<longleftrightarrow> layer_ok s l \<and>
     (\<forall>n. layer_size (fst l) = Some n \<longrightarrow>
        covered (2 ^ s) n (layer_get s l) (case below of None \<Rightarrow> [] | Some bs \<Rightarrow> bs))"

section \<open>The contract of a layer\<close>

locale cow_layer =
  fixes get :: "'l \<Rightarrow> nat \<Rightarrow> byte list option"
    and put :: "nat \<Rightarrow> byte list \<Rightarrow> 'l \<Rightarrow> 'l"
    and ok :: "'l \<Rightarrow> bool"
    and fits :: "byte list \<Rightarrow> 'l \<Rightarrow> bool"
    and bs :: nat
  assumes bs_pos: "0 < bs"
    and get_put_same: "ok l \<Longrightarrow> fits blk l \<Longrightarrow> get (put b blk l) b = Some blk"
    and get_put_other: "ok l \<Longrightarrow> fits blk l \<Longrightarrow> c \<noteq> b \<Longrightarrow> get (put b blk l) c = get l c"
    and ok_put: "ok l \<Longrightarrow> fits blk l \<Longrightarrow> ok (put b blk l)"
begin

lemma get_put:
  "ok l \<Longrightarrow> fits blk l \<Longrightarrow> get (put b blk l) c = (if c = b then Some blk else get l c)"
  by (simp add: get_put_same get_put_other)

text \<open>Saving a block as it is below does not change the file.\<close>

lemma put_overlay:
  assumes "ok l" and "fits blk l" and "get l b = None"
    and "\<And>i. i < bs \<Longrightarrow> b * bs + i < n \<Longrightarrow> blk ! i = below ! (b * bs + i)"
  shows "overlay bs n (get (put b blk l)) below = overlay bs n (get l) below"
proof -
  have "blk ! (p mod bs) = below ! p" if "p < n" "p div bs = b" for p
  proof -
    have "b * bs + p mod bs = p" using that(2) by auto
    then show ?thesis using assms(4) [of "p mod bs"] that(1) bs_pos by simp
  qed
  then show ?thesis
    using assms(1-3) by (auto simp: overlay_def overlay_byte_def get_put)
qed

lemma put_covered:
  "ok l \<Longrightarrow> fits blk l \<Longrightarrow> covered bs n (get l) below \<Longrightarrow> covered bs n (get (put b blk l)) below"
  by (auto simp: covered_def get_put)

lemma put_saved:
  "ok l \<Longrightarrow> fits blk l \<Longrightarrow> get l c \<noteq> None \<Longrightarrow> get (put b blk l) c \<noteq> None"
  by (auto simp: get_put)

end

text \<open>What is below may change wherever the block is saved.\<close>

lemma overlay_below:
  assumes "\<And>p. p < n \<Longrightarrow> get (p div bs) = None \<Longrightarrow> below' ! p = below ! p"
  shows "overlay bs n get below' = overlay bs n get below"
  using assms by (auto simp: overlay_def overlay_byte_def split: option.splits)

section \<open>The map and dat files are a layer\<close>

lemma map_slot_bound:
  assumes "layer_ok s l" and "MAPHEADER_S + b * BLP_S < length (fst l)"
  shows "MAPHEADER_S + b * BLP_S + BLP_S \<le> length (fst l)"
proof -
  obtain k where k: "length (fst l) = BLP_S * k" using assms(1) by (auto simp: layer_ok_def)
  with assms(2) have "160 + b * 8 < 8 * k" by (simp add: MAPHEADER_S_def BLP_S_def)
  then have "168 + b * 8 \<le> 8 * k" by presburger
  with k show ?thesis by (simp add: MAPHEADER_S_def BLP_S_def)
qed

lemma le_nat_Nil_or_0: "ptr_at mb b = 0" if "length mb \<le> MAPHEADER_S + b * BLP_S"
  using that by (simp add: ptr_at_def read_at_def)

lemma ptr_at_put_same:
  assumes "layer_fits s blk l"
  shows "ptr_at (fst (layer_put s b blk l)) b = length (snd l) div 2 ^ s + 1"
proof -
  have "length (snd l) div 2 ^ s \<le> length (snd l)" by simp
  moreover have "length (snd l) < 9223372036854775808" using assms by (simp add: layer_fits_def)
  ultimately have "length (snd l) div 2 ^ s + 1 < 18446744073709551616" by linarith
  moreover have "read_at (fst (layer_put s b blk l)) BLP_S (MAPHEADER_S + b * BLP_S)
    = le_bytes BLP_S (length (snd l) div 2 ^ s + 1)"
    unfolding layer_put_def fst_conv
    using read_at_write_at_same [of "le_bytes BLP_S (length (snd l) div 2 ^ s + 1)"]
    by (simp add: BLP_S_def)
  ultimately show ?thesis by (simp add: ptr_at_def BLP_S_def)
qed

lemma read_at_write_at_gap:
  assumes "length xs \<le> off'" and "off' + n \<le> off" and "ys \<noteq> []"
  shows "read_at (write_at xs ys off) n off' = replicate n 0"
  using assms by (intro nth_equalityI) (auto simp: nth_read_at nth_write_at)

lemma ptr_at_put_other:
  assumes "layer_ok s l" and "c \<noteq> b"
  shows "ptr_at (fst (layer_put s b blk l)) c = ptr_at (fst l) c"
proof (cases "MAPHEADER_S + c * BLP_S < length (fst l)")
  case True
  have "c < b \<or> b < c" using assms(2) by auto
  then have "read_at (fst (layer_put s b blk l)) BLP_S (MAPHEADER_S + c * BLP_S)
    = read_at (fst l) BLP_S (MAPHEADER_S + c * BLP_S)"
    unfolding layer_put_def fst_conv
    by (intro read_at_write_at_other map_slot_bound [OF assms(1) True])
      (auto simp: BLP_S_def)
  then show ?thesis by (simp add: ptr_at_def)
next
  case False
  then have 0: "ptr_at (fst l) c = 0" by (simp add: le_nat_Nil_or_0)
  let ?ys = "le_bytes BLP_S (length (snd l) div 2 ^ s + 1)"
  have ys: "?ys \<noteq> []" by (simp add: BLP_S_def)
  show ?thesis
  proof (cases "c < b")
    case True
    then have "read_at (fst (layer_put s b blk l)) BLP_S (MAPHEADER_S + c * BLP_S) = replicate BLP_S 0"
      unfolding layer_put_def fst_conv using False ys
      by (intro read_at_write_at_gap) (auto simp: BLP_S_def)
    with 0 show ?thesis by (simp add: ptr_at_def)
  next
    case False2: False
    with assms(2) have "length (fst (layer_put s b blk l)) \<le> MAPHEADER_S + c * BLP_S"
      unfolding layer_put_def fst_conv using False ys by (auto simp: BLP_S_def)
    with 0 show ?thesis by (simp add: le_nat_Nil_or_0)
  qed
qed

lemma layer_ok_put:
  assumes "layer_ok s l" and "layer_fits s blk l"
  shows "layer_ok s (layer_put s b blk l)"
proof -
  have "length (fst (layer_put s b blk l)) = max (length (fst l)) (MAPHEADER_S + b * BLP_S + BLP_S)"
    unfolding layer_put_def fst_conv by (subst length_write_at) (simp_all add: BLP_S_def)
  then have "MAPHEADER_S \<le> length (fst (layer_put s b blk l))"
    "BLP_S dvd length (fst (layer_put s b blk l))"
    using assms(1) by (auto simp: layer_ok_def max_def MAPHEADER_S_def BLP_S_def)
  moreover have "ptr_at (fst (layer_put s b blk l)) c * 2 ^ s \<le> length (snd (layer_put s b blk l))" for c
  proof (cases "c = b")
    case True
    have "length (snd l) div 2 ^ s * 2 ^ s = length (snd l)"
      using assms(2) by (simp add: layer_fits_def)
    moreover have "length (snd (layer_put s b blk l)) = length (snd l) + 2 ^ s"
      using assms(2) by (simp add: layer_put_def layer_fits_def)
    ultimately show ?thesis using True ptr_at_put_same [OF assms(2)] by simp
  next
    case False
    then show ?thesis using ptr_at_put_other [OF assms(1) False] assms(1)
      by (simp add: layer_ok_def layer_put_def trans_le_add1)
  qed
  ultimately show ?thesis by (simp add: layer_ok_def)
qed

lemma layer_get_put_same:
  assumes "layer_fits s blk l"
  shows "layer_get s (layer_put s b blk l) b = Some blk"
proof -
  have "length (snd l) div 2 ^ s * 2 ^ s = length (snd l)" "length blk = 2 ^ s"
    using assms by (auto simp: layer_fits_def)
  then show ?thesis
    by (simp add: layer_get_def ptr_at_put_same [OF assms] Let_def)
      (simp add: layer_put_def read_at_def)
qed

lemma layer_get_put_other:
  assumes "layer_ok s l" and "c \<noteq> b"
  shows "layer_get s (layer_put s b blk l) c = layer_get s l c"
proof (cases "ptr_at (fst l) c = 0")
  case True
  then show ?thesis by (simp add: layer_get_def ptr_at_put_other [OF assms])
next
  case False
  then have "(ptr_at (fst l) c - 1) * 2 ^ s + 2 ^ s = ptr_at (fst l) c * 2 ^ s"
    by (cases "ptr_at (fst l) c") auto
  then have "(ptr_at (fst l) c - 1) * 2 ^ s + 2 ^ s \<le> length (snd l)"
    using assms(1) by (simp add: layer_ok_def)
  then have "read_at (snd l @ blk) (2 ^ s) ((ptr_at (fst l) c - 1) * 2 ^ s)
    = read_at (snd l) (2 ^ s) ((ptr_at (fst l) c - 1) * 2 ^ s)"
    by (rule read_at_append_left)
  then show ?thesis
    by (simp add: layer_get_def ptr_at_put_other [OF assms] Let_def)
      (simp add: layer_put_def)
qed

interpretation lay: cow_layer "layer_get s" "layer_put s" "layer_ok s" "layer_fits s" "2 ^ s" for s
  by unfold_locales
    (simp_all add: layer_get_put_same layer_get_put_other layer_ok_put)

text \<open>Saving a block keeps the header.\<close>

lemma map_header_put:
  assumes "layer_ok s l"
  shows "map_header (fst (layer_put s b blk l)) = map_header (fst l)"
proof -
  have "read_at (fst (layer_put s b blk l)) MAPHEADER_S 0 = read_at (fst l) MAPHEADER_S 0"
    unfolding layer_put_def fst_conv using assms
    by (intro read_at_write_at_other) (auto simp: layer_ok_def)
  then show ?thesis by (simp add: map_header_def)
qed

section \<open>Views of several layers\<close>

lemma view_append: "view s (ls @ ls') main = view s ls (view s ls' main)"
  by (simp add: view_def)

lemma view_Nil [simp]: "view s [] main = main"
  by (simp add: view_def)

lemma view_Cons: "view s (l # ls) main = layer_view s l (view s ls main)"
  by (simp add: view_def)

end
