(* ===== verification/Frames.thy ===== *)
theory Frames
  imports Util
begin

text \<open>
  What the system calls on descriptors change. \<open>fd_view\<close> is what a descriptor refers to, without its
  position; \<open>frame A w w'\<close> says that \<open>w'\<close> differs from \<open>w\<close> at most in the contents of the files in
  \<open>A\<close>, the positions of descriptors, the lock table, the buffers and the schedule of faults.
\<close>

definition fd_view :: "'z os_scheme \<Rightarrow> int \<Rightarrow> (nat \<times> oflags) option" where
  "fd_view w fd = map_option (\<lambda>f. (of_ino f, of_flags f)) (get_fd w fd)"

definition frame :: "nat set \<Rightarrow> world \<Rightarrow> world \<Rightarrow> bool" where
  "frame A w w' \<longleftrightarrow>
     dents w' = dents w \<and> next_ino w' = next_ino w \<and> dirs w' = dirs w \<and>
     euid w' = euid w \<and> egid w' = egid w \<and> fd_view w' = fd_view w \<and>
     (\<forall>x. i_mode (inodes w' x) = i_mode (inodes w x)) \<and>
     (\<forall>x. i_uid (inodes w' x) = i_uid (inodes w x)) \<and>
     (\<forall>x. i_gid (inodes w' x) = i_gid (inodes w x)) \<and>
     (\<forall>x. x \<notin> A \<longrightarrow> fdata w' x = fdata w x) \<and>
     rootdir w' = rootdir w \<and> rootdir_len w' = rootdir_len w \<and> sn_dir w' = sn_dir w \<and>
     sn_number w' = sn_number w \<and> sn_lat_dir w' = sn_lat_dir w \<and>
     sn_lat_dir_len w' = sn_lat_dir_len w \<and> sn_is_any w' = sn_is_any w \<and>
     self w' = self w \<and> junk w' = junk w \<and> bl_slog w' = bl_slog w"

text \<open>Schedules in which a call either does all its work or fails.\<close>

definition is_short :: "fate \<Rightarrow> bool" where
  "is_short f = (case f of Short n \<Rightarrow> True | _ \<Rightarrow> False)"

definition no_short :: "'z os_scheme \<Rightarrow> bool" where
  "no_short w \<longleftrightarrow> list_all (\<lambda>f. \<not> is_short f) (fates w)"

section \<open>Frames\<close>

lemma frame_refl [simp]: "frame A w w"
  by (simp add: frame_def)

lemma frame_trans: "frame A w w' \<Longrightarrow> frame A w' w'' \<Longrightarrow> frame A w w''"
  by (simp add: frame_def)

lemma frame_mono: "frame A w w' \<Longrightarrow> A \<subseteq> B \<Longrightarrow> frame B w w'"
  by (auto simp: frame_def)

lemma frame_is_dir: "frame A w w' \<Longrightarrow> is_dir w' x = is_dir w x"
  by (simp add: frame_def is_dir_def)

lemma frame_fdata: "frame A w w' \<Longrightarrow> x \<notin> A \<Longrightarrow> fdata w' x = fdata w x"
  by (simp add: frame_def)

lemma frame_BL_S: "frame A w w' \<Longrightarrow> BL_S w' = BL_S w"
  by (simp add: frame_def BL_S_def)

lemma frame_bl_slog: "frame A w w' \<Longrightarrow> bl_slog w' = bl_slog w"
  by (simp add: frame_def)

lemma frame_fd_view: "frame A w w' \<Longrightarrow> fd_view w' fd = fd_view w fd"
  by (simp add: frame_def)

text \<open>Updates of single fields.\<close>

lemma get_fd_upd [simp]:
  "get_fd (w\<lparr>fates := x\<rparr>) fd = get_fd w fd"
  "get_fd (w\<lparr>inodes := ii\<rparr>) fd = get_fd w fd"
  by (simp_all add: get_fd_def)

lemma get_fd_upd_world [simp]:
  "get_fd (w\<lparr>mflocks := T\<rparr>) fd = get_fd w fd"
  "get_fd (w\<lparr>block_buffer := b\<rparr>) fd = get_fd w fd"
  "get_fd (w\<lparr>heap_bufs := h\<rparr>) fd = get_fd w fd"
  for w :: world
  by (simp_all add: get_fd_def)

lemma fd_view_upd [simp]:
  "fd_view (w\<lparr>fates := x\<rparr>) = fd_view w"
  "fd_view (w\<lparr>inodes := ii\<rparr>) = fd_view w"
  by (simp_all add: fd_view_def fun_eq_iff)

lemma fd_view_upd_world [simp]:
  "fd_view (w\<lparr>mflocks := T\<rparr>) = fd_view w"
  "fd_view (w\<lparr>block_buffer := b\<rparr>) = fd_view w"
  "fd_view (w\<lparr>heap_bufs := h\<rparr>) = fd_view w"
  for w :: world
  by (simp_all add: fd_view_def fun_eq_iff)

lemma fdata_upd [simp]:
  "fdata (w\<lparr>fates := x\<rparr>) = fdata w" "fdata (w\<lparr>fds := y\<rparr>) = fdata w"
  by (simp_all add: fdata_def fun_eq_iff)

lemma fdata_upd_world [simp]:
  "fdata (w\<lparr>mflocks := T\<rparr>) = fdata w" "fdata (w\<lparr>block_buffer := b\<rparr>) = fdata w"
  "fdata (w\<lparr>heap_bufs := h\<rparr>) = fdata w"
  for w :: world
  by (simp_all add: fdata_def fun_eq_iff)

lemma is_dir_upd [simp]: "is_dir (w\<lparr>fates := x\<rparr>) = is_dir w" "is_dir (w\<lparr>fds := y\<rparr>) = is_dir w"
  by (simp_all add: is_dir_def fun_eq_iff)

lemma fdata_set_data: "fdata (set_data i bs w) x = (if x = i then bs else fdata w x)"
  by (simp add: fdata_def set_data_def)

lemma fd_view_set_data [simp]: "fd_view (set_data i bs w) = fd_view w"
  by (simp add: set_data_def)

lemma frame_upd [simp]:
  "frame A w (w'\<lparr>fates := x\<rparr>) = frame A w w'" "frame A w (w'\<lparr>mflocks := T\<rparr>) = frame A w w'"
  "frame A w (w'\<lparr>block_buffer := b\<rparr>) = frame A w w'"
  "frame A w (w'\<lparr>heap_bufs := h\<rparr>) = frame A w w'"
  by (simp_all add: frame_def)

lemma set_data_fields [simp]:
  "dents (set_data i bs w) = dents w" "next_ino (set_data i bs w) = next_ino w"
  "fds (set_data i bs w) = fds w" "dirs (set_data i bs w) = dirs w"
  "euid (set_data i bs w) = euid w" "egid (set_data i bs w) = egid w"
  "fates (set_data i bs w) = fates w" "os.more (set_data i bs w) = os.more w"
  "i_mode (inodes (set_data i bs w) x) = i_mode (inodes w x)"
  "i_uid (inodes (set_data i bs w) x) = i_uid (inodes w x)"
  "i_gid (inodes (set_data i bs w) x) = i_gid (inodes w x)"
  by (simp_all add: set_data_def)

lemma set_data_world [simp]:
  "rootdir (set_data i bs w) = rootdir w" "rootdir_len (set_data i bs w) = rootdir_len w"
  "sn_dir (set_data i bs w) = sn_dir w" "sn_number (set_data i bs w) = sn_number w"
  "sn_lat_dir (set_data i bs w) = sn_lat_dir w"
  "sn_lat_dir_len (set_data i bs w) = sn_lat_dir_len w"
  "sn_is_any (set_data i bs w) = sn_is_any w" "self (set_data i bs w) = self w"
  "junk (set_data i bs w) = junk w" "bl_slog (set_data i bs w) = bl_slog w"
  "block_buffer (set_data i bs w) = block_buffer w" "mflocks (set_data i bs w) = mflocks w"
  "heap_bufs (set_data i bs w) = heap_bufs w"
  for w :: world
  by (simp_all add: set_data_def)

lemma frame_set_data [simp]:
  assumes "i \<in> A"
  shows "frame A w (set_data i bs w') = frame A w w'"
proof -
  have "(\<forall>x. x \<notin> A \<longrightarrow> (if x = i then bs else fdata w' x) = fdata w x)
    \<longleftrightarrow> (\<forall>x. x \<notin> A \<longrightarrow> fdata w' x = fdata w x)"
    using assms by auto
  then show ?thesis by (simp add: frame_def fdata_set_data)
qed

lemma get_fd_set_pos:
  "get_fd (set_pos fd n w) g =
     (if g = fd then map_option (\<lambda>f. f\<lparr>of_pos := n\<rparr>) (get_fd w fd) else get_fd w g)"
  by (auto simp: set_pos_def get_fd_def nth_list_update split: option.splits)

lemma fd_view_set_pos [simp]: "fd_view (set_pos fd n w) = fd_view w"
  by (auto simp: fd_view_def get_fd_set_pos fun_eq_iff option.map_comp o_def)

lemma set_pos_fields [simp]:
  "dents (set_pos fd n w) = dents w" "inodes (set_pos fd n w) = inodes w"
  "next_ino (set_pos fd n w) = next_ino w" "dirs (set_pos fd n w) = dirs w"
  "euid (set_pos fd n w) = euid w" "egid (set_pos fd n w) = egid w"
  "fates (set_pos fd n w) = fates w" "os.more (set_pos fd n w) = os.more w"
  by (auto simp: set_pos_def split: option.splits)

lemma set_pos_world [simp]:
  "rootdir (set_pos fd n w) = rootdir w" "rootdir_len (set_pos fd n w) = rootdir_len w"
  "sn_dir (set_pos fd n w) = sn_dir w" "sn_number (set_pos fd n w) = sn_number w"
  "sn_lat_dir (set_pos fd n w) = sn_lat_dir w"
  "sn_lat_dir_len (set_pos fd n w) = sn_lat_dir_len w"
  "sn_is_any (set_pos fd n w) = sn_is_any w" "self (set_pos fd n w) = self w"
  "junk (set_pos fd n w) = junk w" "bl_slog (set_pos fd n w) = bl_slog w"
  "block_buffer (set_pos fd n w) = block_buffer w" "mflocks (set_pos fd n w) = mflocks w"
  "heap_bufs (set_pos fd n w) = heap_bufs w"
  for w :: world
  by (auto simp: set_pos_def split: option.splits)

lemma fdata_set_pos [simp]: "fdata (set_pos fd n w) = fdata w"
  by (simp add: fdata_def fun_eq_iff)

lemma frame_set_pos [simp]: "frame A w (set_pos fd n w') = frame A w w'"
  by (simp add: frame_def)

section \<open>The schedule of faults\<close>

lemma pop_fate_eq:
  "pop_fate w = ((case fates w of [] \<Rightarrow> Normal | f # _ \<Rightarrow> f), w\<lparr>fates := tl (fates w)\<rparr>)"
  by (cases w) (auto simp: pop_fate_def split: list.splits)

lemma no_short_tl [simp]: "no_short w \<Longrightarrow> no_short (w\<lparr>fates := tl (fates w)\<rparr>)"
  by (cases "fates w") (auto simp: no_short_def)

lemma no_short_cong: "fates w' = fates w \<Longrightarrow> no_short w' = no_short w"
  by (simp add: no_short_def)

lemma no_short_hd:
  assumes "no_short w"
  obtains "(case fates w of [] \<Rightarrow> Normal | f # _ \<Rightarrow> f) = Normal"
  | e where "(case fates w of [] \<Rightarrow> Normal | f # _ \<Rightarrow> f) = Fail e"
proof (cases "case fates w of [] \<Rightarrow> Normal | f # _ \<Rightarrow> f")
  case (Short n)
  with assms show ?thesis by (auto simp: no_short_def is_short_def split: list.splits)
qed (use that in auto)

lemma malloc_ok_eq: "malloc_ok w = (ok, w') \<Longrightarrow> w' = w\<lparr>fates := tl (fates w)\<rparr>"
  by (auto simp: malloc_ok_def pop_fate_eq)

section \<open>System calls on descriptors\<close>

lemma fd_view_Some:
  "fd_view w fd = Some (i, fl) \<longleftrightarrow> (\<exists>f. get_fd w fd = Some f \<and> of_ino f = i \<and> of_flags f = fl)"
  by (auto simp: fd_view_def)

lemma sys_pread_state: "sys_pread fd n off w = (r, w') \<Longrightarrow> w' = w\<lparr>fates := tl (fates w)\<rparr>"
  by (auto simp: sys_pread_def pop_fate_eq Let_def split: option.splits if_splits fate.splits)

lemma sys_pread_ok:
  assumes "sys_pread fd n off w = (Inr bs, w')" and "no_short w" and "fd_view w fd = Some (i, fl)"
  shows "bs = read_at (fdata w i) n off"
  using assms by (auto simp: sys_pread_def pop_fate_eq Let_def fd_view_Some fdata_def
      elim: no_short_hd split: if_splits fate.splits)

lemma sys_pwrite_cases:
  assumes "sys_pwrite fd bs off w = (r, w')" and "no_short w" and "fd_view w fd = Some (i, fl)"
  obtains e where "r = Inl e" and "w' = w\<lparr>fates := tl (fates w)\<rparr>"
  | pos where "r = Inr (length bs)" and "writable fl"
    and "pos = (if has_flag fl O_APPEND then length (fdata w i) else off)"
    and "pos + length bs \<le> MAX_OFF"
    and "w' = set_data i (write_at (fdata w i) bs pos) (w\<lparr>fates := tl (fates w)\<rparr>)"
  using assms by (auto simp: sys_pwrite_def pop_fate_eq Let_def fd_view_Some
      elim!: no_short_hd split: if_splits fate.splits)

lemma sys_write_cases:
  assumes "sys_write fd bs w = (r, w')" and "no_short w" and "fd_view w fd = Some (i, fl)"
    and "has_flag fl O_APPEND"
  obtains e where "r = Inl e" and "w' = w\<lparr>fates := tl (fates w)\<rparr>"
  | pos where "r = Inr (length bs)" and "length (fdata w i) + length bs \<le> MAX_OFF"
    and "w' = set_pos fd pos (set_data i (fdata w i @ bs) (w\<lparr>fates := tl (fates w)\<rparr>))"
proof -
  obtain f where f: "get_fd w fd = Some f" "of_ino f = i" "of_flags f = fl"
    using assms(3) by (auto simp: fd_view_Some)
  obtain r' w1 where p: "sys_pwrite fd bs (length (fdata w i)) w = (r', w1)" by fastforce
  from p assms(2,3) show thesis
  proof (cases rule: sys_pwrite_cases)
    case (1 e)
    then show ?thesis using that(1) [of e] assms(1,4) f p by (simp add: sys_write_def)
  next
    case (2 pos)
    then show ?thesis using that(2) [of "length (fdata w i) + length bs"] assms(1,4) f p
      by (simp add: sys_write_def write_at_end)
  qed
qed

lemma sys_lseek_end_cases:
  assumes "sys_lseek_end fd w = (r, w')" and "fd_view w fd = Some (i, fl)"
  obtains e where "r = Inl e" and "w' = w\<lparr>fates := tl (fates w)\<rparr>"
  | pos where "r = Inr (length (fdata w i))"
    and "w' = set_pos fd pos (w\<lparr>fates := tl (fates w)\<rparr>)"
  using assms by (auto simp: sys_lseek_end_def pop_fate_eq Let_def fd_view_Some split: fate.splits)

lemma sys_ftruncate_cases:
  assumes "sys_ftruncate fd n w = (r, w')" and "fd_view w fd = Some (i, fl)"
  obtains e where "r = Inl e" and "w' = w\<lparr>fates := tl (fates w)\<rparr>"
  | "r = Inr ()" and "n \<le> MAX_OFF"
    and "w' = set_data i (resize_to (fdata w i) n) (w\<lparr>fates := tl (fates w)\<rparr>)"
  using assms by (auto simp: sys_ftruncate_def pop_fate_eq Let_def fd_view_Some
      split: fate.splits if_splits)

end
