(* ===== verification/Cow.thy ===== *)
theory Cow
  imports FuseFd Overlay Frames
begin

text \<open>
  Copy on write: saving blocks (\<open>b_write\<close>, \<open>b_truncate\<close>) and the handlers that change a file
  (\<open>write\<close>, \<open>ftruncate\<close>) never change what the file looks like in the latest snapshot, and so in
  no snapshot. \<open>snap_file i j k w\<close> is the file in the latest snapshot, when its main file is inode
  \<open>i\<close> and its map and dat files are \<open>j\<close> and \<open>k\<close>. \<open>cow_ok\<close> is the invariant of a handle open for
  writing: its descriptors refer to these three files, its header is that of the map file, every
  byte of the snapshot is in a saved block or still in the main file, and the block in the cache
  is saved.

  Any system call may fail at any time; only partial reads and writes (\<open>Short\<close>) are excluded by
  \<open>no_short\<close>, since a torn pointer in the map file does change the snapshot.
\<close>

section \<open>The invariant\<close>

definition snap_file :: "nat \<Rightarrow> nat \<Rightarrow> nat \<Rightarrow> world \<Rightarrow> byte list option" where
  "snap_file i j k w =
     layer_view (bl_slog w) (Some (fdata w j, fdata w k)) (Some (fdata w i))"

definition saving_fds :: "mfd \<Rightarrow> nat \<Rightarrow> nat \<Rightarrow> nat \<Rightarrow> world \<Rightarrow> bool" where
  "saving_fds m i j k w \<longleftrightarrow>
     (\<exists>fl. fd_view w (mainfd m) = Some (i, fl)) \<and>
     (\<exists>fl. fd_view w (mapfd m) = Some (j, fl) \<and> readable fl \<and> writable fl
        \<and> \<not> has_flag fl O_APPEND) \<and>
     (\<exists>fl. fd_view w (datfd m) = Some (k, fl) \<and> writable fl \<and> has_flag fl O_APPEND) \<and>
     i \<noteq> j \<and> i \<noteq> k \<and> j \<noteq> k"

definition layer_inv :: "mfd \<Rightarrow> nat \<Rightarrow> nat \<Rightarrow> nat \<Rightarrow> world \<Rightarrow> bool" where
  "layer_inv m i j k w \<longleftrightarrow>
     map_header (fdata w j) = mapheader m \<and> mh_exists (mapheader m) = 1 \<and>
     layer_wf (bl_slog w) (fdata w j, fdata w k) (Some (fdata w i)) \<and>
     (latest_written_block_cache m \<noteq> 0 \<longrightarrow>
        ptr_at (fdata w j) (latest_written_block_cache m - 1) \<noteq> 0)"

definition cow_ok :: "mfd \<Rightarrow> nat \<Rightarrow> nat \<Rightarrow> nat \<Rightarrow> world \<Rightarrow> bool" where
  "cow_ok m i j k w \<longleftrightarrow> no_short w \<and> length (block_buffer w) = BL_S w \<and>
     saving_fds m i j k w \<and> layer_inv m i j k w"

definition cow_step :: "nat \<Rightarrow> nat \<Rightarrow> nat \<Rightarrow> world \<Rightarrow> world \<Rightarrow> bool" where
  "cow_step i j k w w' \<longleftrightarrow> frame {j, k} w w' \<and> snap_file i j k w' = snap_file i j k w \<and>
     (\<forall>b. ptr_at (fdata w j) b \<noteq> 0 \<longrightarrow> ptr_at (fdata w' j) b \<noteq> 0)"

abbreviation sn_size :: "mfd \<Rightarrow> nat" where
  "sn_size m \<equiv> st_size (mh_fstat (mapheader m))"

definition buf_ok :: "bufsel \<Rightarrow> world \<Rightarrow> bool" where
  "buf_ok buf w \<longleftrightarrow> (case buf of Heap_buf bs \<Rightarrow> length bs = BL_S w | _ \<Rightarrow> True)"

definition same_handle :: "mfd \<Rightarrow> mfd \<Rightarrow> bool" where
  "same_handle m m' \<longleftrightarrow> (\<exists>c. m' = m\<lparr>latest_written_block_cache := c\<rparr>)"

text \<open>What a part of the saving loop does: nothing that is visible in the snapshot.\<close>

definition save_step :: "nat \<Rightarrow> nat \<Rightarrow> nat \<Rightarrow> mfd \<times> bufsel \<times> world \<Rightarrow> mfd \<times> bufsel \<times> world \<Rightarrow> bool" where
  "save_step i j k = (\<lambda>(m, buf, w) (m', buf', w').
     cow_ok m' i j k w' \<and> cow_step i j k w w' \<and> buf_ok buf' w' \<and> same_handle m m')"

section \<open>Steps\<close>

lemma cow_step_refl [simp]: "cow_step i j k w w"
  by (simp add: cow_step_def)

lemma cow_step_trans: "cow_step i j k w w' \<Longrightarrow> cow_step i j k w' w'' \<Longrightarrow> cow_step i j k w w''"
  by (auto simp: cow_step_def intro: frame_trans)

lemma cow_step_upd [simp, intro]:
  "cow_step i j k w (w\<lparr>fates := x\<rparr>)" "cow_step i j k w (w\<lparr>mflocks := T\<rparr>)"
  "cow_step i j k w (w\<lparr>block_buffer := b\<rparr>)" "cow_step i j k w (w\<lparr>heap_bufs := h\<rparr>)"
  "cow_step i j k w (set_pos fd n w)"
  by (simp_all add: cow_step_def snap_file_def)

lemma cow_ok_upd [simp]:
  "cow_ok m i j k w \<Longrightarrow> cow_ok m i j k (w\<lparr>fates := tl (fates w)\<rparr>)"
  "cow_ok m i j k (w\<lparr>mflocks := T\<rparr>) = cow_ok m i j k w"
  "cow_ok m i j k (w\<lparr>heap_bufs := h\<rparr>) = cow_ok m i j k w"
  "cow_ok m i j k (set_pos fd n w) = cow_ok m i j k w"
  "cow_ok m i j k w \<Longrightarrow> length b = BL_S w \<Longrightarrow> cow_ok m i j k (w\<lparr>block_buffer := b\<rparr>)"
  by (simp_all add: cow_ok_def saving_fds_def layer_inv_def BL_S_def no_short_def)

lemma cow_ok_cache:
  "cow_ok m i j k w \<Longrightarrow> ptr_at (fdata w j) b \<noteq> 0 \<Longrightarrow>
    cow_ok (m\<lparr>latest_written_block_cache := b + 1\<rparr>) i j k w"
  by (simp add: cow_ok_def saving_fds_def layer_inv_def)

lemma layer_size_header:
  "layer_inv m i j k w \<Longrightarrow> layer_size (fdata w j) = Some (sn_size m)"
  by (simp add: layer_inv_def layer_size_def)

lemma block_read_pointer_state:
  "block_read_pointer m off w = (r, w') \<Longrightarrow> w' = w\<lparr>fates := tl (fates w)\<rparr>"
  by (auto simp: block_read_pointer_def dest: sys_pread_state split: prod.splits sum.splits)

lemma block_read_pointer_ok:
  assumes "cow_ok m i j k w" and "block_read_pointer m (MAPHEADER_S + b * BLP_S) w = (Inr q, w')"
  shows "q = ptr_at (fdata w j) b"
proof -
  obtain fl where v: "fd_view w (mapfd m) = Some (j, fl)" "no_short w"
    using assms(1) by (auto simp: cow_ok_def saving_fds_def)
  from assms(2) obtain bs where bs: "sys_pread (mapfd m) BLP_S (MAPHEADER_S + b * BLP_S) w = (Inr bs, w')"
    and q: "q = (if bs = [] then 0 else le_nat bs)"
    by (auto simp: block_read_pointer_def split: prod.splits sum.splits if_splits)
  from sys_pread_ok [OF bs v(2,1)] q show ?thesis by (auto simp: ptr_at_def)
qed

text \<open>Appending to the dat file alone changes nothing that is visible.\<close>

lemma layer_get_append:
  assumes "layer_ok s (mb, db)"
  shows "layer_get s (mb, db @ x) b = layer_get s (mb, db) b"
proof (cases "ptr_at mb b = 0")
  case False
  then have "(ptr_at mb b - 1) * 2 ^ s + 2 ^ s = ptr_at mb b * 2 ^ s"
    by (cases "ptr_at mb b") auto
  then have "(ptr_at mb b - 1) * 2 ^ s + 2 ^ s \<le> length db"
    using assms by (simp add: layer_ok_def)
  then show ?thesis by (simp add: layer_get_def read_at_append_left Let_def)
qed (simp add: layer_get_def)

lemma layer_ok_append: "layer_ok s (mb, db) \<Longrightarrow> layer_ok s (mb, db @ x)"
  by (auto simp: layer_ok_def intro: trans_le_add1)

lemma cow_ok_step:
  assumes "cow_ok m i j k w" and "frame {j, k} w w'" and "no_short w'"
    and "block_buffer w' = block_buffer w" and "layer_inv m i j k w'"
  shows "cow_ok m i j k w'"
  using assms by (auto simp: cow_ok_def saving_fds_def frame_def BL_S_def)

lemma dat_append_step:
  assumes "cow_ok m i j k w" and "w' = set_pos fd pos (set_data k (fdata w k @ blk) (w\<lparr>fates := tl (fates w)\<rparr>))"
  shows "cow_ok m i j k w' \<and> cow_step i j k w w'"
proof -
  have n: "i \<noteq> j" "i \<noteq> k" "j \<noteq> k" using assms(1) by (auto simp: cow_ok_def saving_fds_def)
  have d: "fdata w' x = (if x = k then fdata w k @ blk else fdata w x)" for x
    by (simp add: assms(2) fdata_set_data)
  have fr: "frame {j, k} w w'"
    by (simp add: assms(2))
  have s: "bl_slog w' = bl_slog w" by (rule frame_bl_slog [OF fr])
  have ok: "layer_ok (bl_slog w) (fdata w j, fdata w k)"
    using assms(1) by (auto simp: cow_ok_def layer_inv_def layer_wf_def)
  have g: "layer_get (bl_slog w) (fdata w j, fdata w k @ blk) = layer_get (bl_slog w) (fdata w j, fdata w k)"
    by (rule ext) (rule layer_get_append [OF ok])
  have "layer_inv m i j k w'"
    using assms(1) n layer_ok_append [OF ok] by (simp add: cow_ok_def layer_inv_def layer_wf_def d s g)
  moreover have "no_short w'" "block_buffer w' = block_buffer w"
    using assms(1) by (simp_all add: assms(2) cow_ok_def no_short_def)
  ultimately have "cow_ok m i j k w'" by (intro cow_ok_step [OF assms(1) fr])
  moreover have "cow_step i j k w w'"
    using fr n by (simp add: cow_step_def snap_file_def d s g)
  ultimately show ?thesis ..
qed


text \<open>Writing the pointer after the block has been appended.\<close>

lemma pointer_step:
  assumes "cow_ok m i j k w" and "ptr_at (fdata w j) b = 0" and "fdata w k = db @ blk"
    and "layer_ok (bl_slog w) (fdata w j, db)"
    and "layer_fits (bl_slog w) blk (fdata w j, db)"
    and "\<And>x. x < BL_S w \<Longrightarrow> b * BL_S w + x < sn_size m \<Longrightarrow> blk ! x = fdata w i ! (b * BL_S w + x)"
    and "w' = set_data j (write_at (fdata w j) (le_bytes BLP_S (length db div 2 ^ bl_slog w + 1))
           (MAPHEADER_S + b * BLP_S)) (w\<lparr>fates := tl (fates w)\<rparr>)"
  shows "cow_ok m i j k w' \<and> cow_step i j k w w' \<and> ptr_at (fdata w' j) b \<noteq> 0"
proof -
  let ?s = "bl_slog w" and ?l = "(fdata w j, db)"
  have n: "i \<noteq> j" "i \<noteq> k" "j \<noteq> k" using assms(1) by (auto simp: cow_ok_def saving_fds_def)
  have put: "layer_put ?s b blk ?l = (fdata w' j, fdata w' k)"
    using n assms(3) by (simp add: layer_put_def assms(7) fdata_set_data)
  have i: "fdata w' i = fdata w i" using n by (simp add: assms(7) fdata_set_data)
  have get: "layer_get ?s (fdata w j, fdata w k) = layer_get ?s ?l"
    unfolding assms(3) by (rule ext) (rule layer_get_append [OF assms(4)])
  have b: "layer_get ?s ?l b = None" using assms(2) by (simp add: layer_get_def)
  have size: "layer_size (fdata w j) = Some (sn_size m)"
    using assms(1) by (auto simp: cow_ok_def intro: layer_size_header)
  have hdr: "map_header (fdata w' j) = map_header (fdata w j)"
    using map_header_put [OF assms(4), of b blk] by (simp add: put)
  have fr: "frame {j, k} w w'" by (simp add: assms(7))
  have s': "bl_slog w' = ?s" by (rule frame_bl_slog [OF fr])
  have ov: "overlay (2 ^ ?s) (sn_size m) (layer_get ?s (fdata w' j, fdata w' k)) (fdata w i)
    = overlay (2 ^ ?s) (sn_size m) (layer_get ?s (fdata w j, fdata w k)) (fdata w i)"
    unfolding put [symmetric] get
    using assms(6) by (intro lay.put_overlay [OF assms(4,5) b]) (simp add: BL_S_def)
  have mono: "ptr_at (fdata w' j) c \<noteq> 0" if "ptr_at (fdata w j) c \<noteq> 0 \<or> c = b" for c
    using that ptr_at_put_other [OF assms(4), of c b blk] ptr_at_put_same [OF assms(5), of b]
    by (cases "c = b") (auto simp: put)
  have size': "layer_size (fdata w' j) = Some (sn_size m)"
    using size unfolding layer_size_def hdr .
  have "covered (2 ^ ?s) (sn_size m) (layer_get ?s (fdata w j, fdata w k)) (fdata w i)"
    using assms(1) size by (simp add: cow_ok_def layer_inv_def layer_wf_def)
  then have "covered (2 ^ ?s) (sn_size m) (layer_get ?s (fdata w' j, fdata w' k)) (fdata w i)"
    unfolding put [symmetric] get by (rule lay.put_covered [OF assms(4,5)])
  then have "layer_wf ?s (fdata w' j, fdata w' k) (Some (fdata w i))"
    using lay.ok_put [OF assms(4,5), of b] size' by (simp add: layer_wf_def put)
  then have "layer_inv m i j k w'"
    using assms(1) mono by (auto simp: cow_ok_def layer_inv_def hdr s' i)
  moreover have "no_short w'" "block_buffer w' = block_buffer w"
    using assms(1) by (simp_all add: assms(7) cow_ok_def no_short_def)
  ultimately have "cow_ok m i j k w'" by (intro cow_ok_step [OF assms(1) fr])
  moreover have "cow_step i j k w w'"
    using fr mono ov size size' by (simp add: cow_step_def snap_file_def s' i)
  ultimately show ?thesis using mono by blast
qed

lemma and_mask_dvd: "(n :: nat) AND (2 ^ s - 1) = 0 \<longleftrightarrow> 2 ^ s dvd n"
  unfolding mask_eq_exp_minus_1 [symmetric] take_bit_eq_mask [symmetric] take_bit_eq_mod
  by (simp add: dvd_eq_mod_eq_0)

lemma b_append_block_step:
  assumes "cow_ok m i j k w" and "ptr_at (fdata w j) b = 0" and "length blk = BL_S w"
    and "\<And>x. x < BL_S w \<Longrightarrow> b * BL_S w + x < sn_size m \<Longrightarrow> blk ! x = fdata w i ! (b * BL_S w + x)"
    and "b_append_block m (MAPHEADER_S + b * BLP_S) blk w = (r, w')"
  shows "cow_ok m i j k w' \<and> cow_step i j k w w' \<and> (r = Inr () \<longrightarrow> ptr_at (fdata w' j) b \<noteq> 0)"
proof -
  obtain flm fld where v: "fd_view w (mapfd m) = Some (j, flm)" "\<not> has_flag flm O_APPEND"
    "fd_view w (datfd m) = Some (k, fld)" "has_flag fld O_APPEND" and n: "j \<noteq> k" "i \<noteq> k"
    using assms(1) by (auto simp: cow_ok_def saving_fds_def)
  have ns: "no_short w" using assms(1) by (simp add: cow_ok_def)
  obtain d w1 where d: "sys_lseek_end (datfd m) w = (d, w1)" by fastforce
  from d v(3) show ?thesis
  proof (cases rule: sys_lseek_end_cases)
    case (1 e)
    with assms(1,5) d show ?thesis by (auto simp: b_append_block_def)
  next
    case (2 pos)
    then have ok1: "cow_ok m i j k w1" and st1: "cow_step i j k w w1"
      using assms(1) by (auto intro: cow_step_trans)
    have w1: "fdata w1 = fdata w" "bl_slog w1 = bl_slog w" "BL_S w1 = BL_S w" "fd_view w1 = fd_view w"
      using 2(2) by (simp_all add: BL_S_def)
    show ?thesis
    proof (cases "length (fdata w k) AND (BL_S w - 1) = 0")
      case False
      with assms(5) d 2(1) w1 ok1 st1 show ?thesis by (auto simp: b_append_block_def)
    next
      case True
      then have dv: "2 ^ bl_slog w dvd length (fdata w k)" by (simp only: and_mask_dvd BL_S_def)
      obtain r2 w2 where r2: "sys_write (datfd m) blk w1 = (r2, w2)" by fastforce
      have ns1: "no_short w1" "fd_view w1 (datfd m) = Some (k, fld)"
        using ok1 v w1 by (auto simp: cow_ok_def)
      from r2 ns1 v(4) show ?thesis
      proof (cases rule: sys_write_cases)
        case (1 e)
        with assms(5) d 2(1) w1 True r2 have "w' = w1\<lparr>fates := tl (fates w1)\<rparr>" "r = Inl e"
          by (auto simp: b_append_block_def)
        with ok1 st1 show ?thesis by (auto intro: cow_step_trans)
      next
        case w2: (2 pos')
        have ok2: "cow_ok m i j k w2" and st2: "cow_step i j k w1 w2"
          using dat_append_step [OF ok1 w2(3)] by auto
        have w2': "fdata w2 j = fdata w j" "fdata w2 k = fdata w k @ blk" "fdata w2 i = fdata w i"
          "bl_slog w2 = bl_slog w" "BL_S w2 = BL_S w" "fd_view w2 = fd_view w"
          using w2(3) w1 n by (simp_all add: fdata_set_data BL_S_def)
        obtain r3 w3 where r3: "sys_pwrite (mapfd m)
          (le_bytes BLP_S (length (fdata w k) div 2 ^ bl_slog w + 1)) (MAPHEADER_S + b * BLP_S) w2
          = (r3, w3)" by fastforce
        have ns2: "no_short w2" "fd_view w2 (mapfd m) = Some (j, flm)"
          using ok2 v w2' by (auto simp: cow_ok_def)
        have ret: "w' = w3" "r = (case r3 of Inl e \<Rightarrow> Inl e | Inr n \<Rightarrow> if n \<noteq> BLP_S then Inl ENXIO else Inr ())"
          using assms(3,5) d 2 w1 True r2 w2(1) w2' r3
          by (auto simp: b_append_block_def drop_bit_eq_div split: sum.splits)
        from r3 ns2 show ?thesis
        proof (cases rule: sys_pwrite_cases)
          case (1 e)
          with ret ok2 st1 st2 show ?thesis by (auto intro: cow_step_trans)
        next
          case (2 p)
          have ok: "layer_ok (bl_slog w) (fdata w j, fdata w k)"
            using assms(1) by (simp add: cow_ok_def layer_inv_def layer_wf_def)
          have "length (fdata w k) + length blk \<le> 0x7FFFFFFFFFFFFFFF" using w2(2) w1 by simp
          then have fits: "layer_fits (bl_slog w) blk (fdata w j, fdata w k)"
            using dv assms(3) by (simp add: layer_fits_def BL_S_def)
          have "cow_ok m i j k w3 \<and> cow_step i j k w2 w3 \<and> ptr_at (fdata w3 j) b \<noteq> 0"
            by (rule pointer_step [OF ok2, where db = "fdata w k" and blk = blk])
              (use assms(2,4) w2' ok fits 2 v(2) in auto)
          with ret st1 st2 show ?thesis by (auto intro: cow_step_trans)
        qed
      qed
    qed
  qed
qed


section \<open>Saving a block\<close>

lemma same_handle_refl [simp]: "same_handle m m"
  unfolding same_handle_def by (rule exI [where x = "latest_written_block_cache m"]) simp

lemma same_handle_cache [simp]: "same_handle m (m\<lparr>latest_written_block_cache := c\<rparr>)"
  by (auto simp: same_handle_def)

lemma same_handle_trans: "same_handle m m' \<Longrightarrow> same_handle m' m'' \<Longrightarrow> same_handle m m''"
  by (auto simp: same_handle_def)

lemma same_handle_mapheader: "same_handle m m' \<Longrightarrow> mapheader m' = mapheader m"
  by (auto simp: same_handle_def)

lemma save_step_trans:
  "save_step i j k a b \<Longrightarrow> save_step i j k b c \<Longrightarrow> save_step i j k a c"
  by (auto simp: save_step_def intro: cow_step_trans same_handle_trans)

lemma buf_ok_step: "cow_step i j k w w' \<Longrightarrow> buf_ok buf w' = buf_ok buf w"
  by (auto simp: buf_ok_def cow_step_def frame_BL_S split: bufsel.splits)

lemma buf_ok_upd [simp]:
  "buf_ok buf (w\<lparr>fates := x\<rparr>) = buf_ok buf w" "buf_ok buf (w\<lparr>mflocks := T\<rparr>) = buf_ok buf w"
  by (auto simp: buf_ok_def BL_S_def split: bufsel.splits)

lemma save_step_fates:
  "cow_ok m i j k w \<Longrightarrow> buf_ok buf w \<Longrightarrow> save_step i j k (m, buf, w) (m, buf, w\<lparr>fates := tl (fates w)\<rparr>)"
  by (simp add: save_step_def)

lemma save_step_mflocks:
  "cow_ok m i j k w \<Longrightarrow> buf_ok buf w \<Longrightarrow> save_step i j k (m, buf, w) (m, buf, w\<lparr>mflocks := T\<rparr>)"
  by (simp add: save_step_def)

lemma b_alloc_buf_step:
  assumes "cow_ok m i j k w" and "buf_ok buf w" and "b_alloc_buf lock buf w = (r, w')"
  shows "save_step i j k (m, buf, w) (m, case r of Inl e \<Rightarrow> buf | Inr b \<Rightarrow> b, w')
    \<and> (\<forall>b. r = Inr b \<longrightarrow> b \<noteq> No_buf) \<and> fdata w' = fdata w \<and> bl_slog w' = bl_slog w"
proof -
  have "w' = w \<or> w' = w\<lparr>fates := tl (fates w)\<rparr> \<or> (\<exists>h. w' = w\<lparr>fates := tl (fates w), heap_bufs := h\<rparr>)"
    using assms(3) by (auto simp: b_alloc_buf_def dest: malloc_ok_eq split: if_splits prod.splits)
  then have "cow_ok m i j k w'" and st: "cow_step i j k w w'" and "fdata w' = fdata w"
    "bl_slog w' = bl_slog w"
    using assms(1) by (auto intro: cow_step_trans)
  moreover have "buf_ok (case r of Inl e \<Rightarrow> buf | Inr b \<Rightarrow> b) w'"
    using assms(2,3) st
    by (auto simp: b_alloc_buf_def buf_ok_def BL_S_def
        dest!: malloc_ok_eq split: if_splits prod.splits)
  moreover have "\<forall>b. r = Inr b \<longrightarrow> b \<noteq> No_buf"
    using assms(3) by (auto simp: b_alloc_buf_def split: if_splits prod.splits)
  ultimately show ?thesis by (simp add: save_step_def)
qed

lemma buf_put_step:
  assumes "cow_ok m i j k w" and "buf_ok buf w" and "buf \<noteq> No_buf" and "length bs \<le> BL_S w"
    and "buf_put buf bs w = (buf', w')"
  shows "save_step i j k (m, buf, w) (m, buf', w')" and "length (buf_get buf' w') = BL_S w"
    and "x < length bs \<Longrightarrow> buf_get buf' w' ! x = bs ! x"
    and "fdata w' = fdata w" and "bl_slog w' = bl_slog w"
proof -
  have l: "length (write_at old bs 0) = BL_S w" if "length old = BL_S w" for old
    using that assms(4) by (cases "bs = []") auto
  have x: "write_at old bs 0 ! x = bs ! x" if "length old = BL_S w" "x < length bs" for old
    using that assms(4) by (cases "bs = []") (auto simp: nth_write_at)
  have b: "length (block_buffer w) = BL_S w" using assms(1) by (simp add: cow_ok_def)
  show "save_step i j k (m, buf, w) (m, buf', w')" "length (buf_get buf' w') = BL_S w"
    "x < length bs \<Longrightarrow> buf_get buf' w' ! x = bs ! x" "fdata w' = fdata w" "bl_slog w' = bl_slog w"
    using assms(1,2,3,5) l b x
    by (auto simp: buf_put_def save_step_def buf_ok_def buf_get_def split: bufsel.splits)
qed

lemma b_save_block_step:
  assumes "cow_ok m i j k w" and "ptr_at (fdata w j) b = 0" and "buf_ok buf w"
    and "b_save_block m b lock buf w = ((r, m', lock', buf'), w')"
  shows "save_step i j k (m, buf, w) (m', buf', w') \<and> lock' = lock
    \<and> (r = Inr () \<longrightarrow> ptr_at (fdata w' j) b \<noteq> 0)"
proof -
  obtain a w1 where a: "b_alloc_buf lock buf w = (a, w1)" by fastforce
  note st1 = b_alloc_buf_step [OF assms(1,3) a]
  show ?thesis
  proof (cases a)
    case (Inl e)
    with st1 a assms(4) show ?thesis by (auto simp: b_save_block_def)
  next
    case (Inr buf1)
    from st1 Inr have ok1: "cow_ok m i j k w1" and b1: "buf_ok buf1 w1" "buf1 \<noteq> No_buf"
      and d1: "fdata w1 = fdata w" "bl_slog w1 = bl_slog w"
      and s1: "save_step i j k (m, buf, w) (m, buf1, w1)"
      by (auto simp: save_step_def)
    obtain q w2 where q: "sys_pread (mainfd m) (BL_S w1) (push_bit (bl_slog w1) b) w1 = (q, w2)"
      by fastforce
    have w2: "w2 = w1\<lparr>fates := tl (fates w1)\<rparr>" by (rule sys_pread_state [OF q])
    have s2: "save_step i j k (m, buf1, w1) (m, buf1, w2)"
      unfolding w2 by (rule save_step_fates [OF ok1 b1(1)])
    show ?thesis
    proof (cases "\<exists>bs. q = Inr bs \<and> bs \<noteq> []")
      case False
      then have "r \<noteq> Inr ()" "m' = m" "lock' = lock" "buf' = buf1" "w' = w2"
        using assms(4) a Inr q by (cases q; auto simp: b_save_block_def)+
      with save_step_trans [OF s1 s2] show ?thesis by simp
    next
      case True
      then obtain bs where bs: "q = Inr bs" "bs \<noteq> []" by auto
      obtain flm where v: "fd_view w1 (mainfd m) = Some (i, flm)" "no_short w1"
        using ok1 by (auto simp: cow_ok_def saving_fds_def)
      have BL: "BL_S w1 = BL_S w" "BL_S w2 = BL_S w" using d1 w2 by (simp_all add: BL_S_def)
      have bs_eq: "bs = read_at (fdata w i) (BL_S w) (b * BL_S w)"
        using sys_pread_ok [OF q [unfolded bs(1)] v(2,1)] BL d1
        by (simp add: push_bit_eq_mult BL_S_def)
      obtain buf2 w3 where p: "buf_put buf1 bs w2 = (buf2, w3)" by fastforce
      have ok2: "cow_ok m i j k w2" "buf_ok buf1 w2" using s2 by (auto simp: save_step_def)
      have lb: "length bs \<le> BL_S w2" using bs_eq BL by simp
      note put = buf_put_step [OF ok2(1) ok2(2) b1(2) lb p]
      have ok3: "cow_ok m i j k w3" using put(1) by (simp add: save_step_def)
      have d3: "fdata w3 = fdata w" "BL_S w3 = BL_S w"
        using put(4,5) w2 d1 by (simp_all add: BL_S_def)
      obtain r4 w4 where r4: "b_append_block m (MAPHEADER_S + b * BLP_S) (buf_get buf2 w3) w3 = (r4, w4)"
        by fastforce
      have cov: "b * BL_S w + x < length (fdata w i)" if "x < BL_S w" "b * BL_S w + x < sn_size m" for x
      proof -
        have "covered (2 ^ bl_slog w) (sn_size m) (layer_get (bl_slog w) (fdata w j, fdata w k)) (fdata w i)"
          using assms(1) layer_size_header [of m i j k w]
          by (auto simp: cow_ok_def layer_inv_def layer_wf_def)
        moreover have "(b * BL_S w + x) div BL_S w = b" using that(1) by simp
        ultimately show ?thesis using that assms(2)
          by (auto simp: covered_def layer_get_def BL_S_def)
      qed
      have s4: "cow_ok m i j k w4 \<and> cow_step i j k w3 w4 \<and> (r4 = Inr () \<longrightarrow> ptr_at (fdata w4 j) b \<noteq> 0)"
      proof (rule b_append_block_step [OF ok3 _ _ _ r4])
        show "ptr_at (fdata w3 j) b = 0" using assms(2) d3 by simp
        show "length (buf_get buf2 w3) = BL_S w3" using put(2) BL d3 by simp
        show "buf_get buf2 w3 ! x = fdata w3 i ! (b * BL_S w3 + x)"
          if "x < BL_S w3" "b * BL_S w3 + x < sn_size m" for x
        proof -
          have x: "x < length bs" using cov [of x] that d3 bs_eq by simp
          then show ?thesis using put(3) [of x] that d3 bs_eq by (simp add: nth_read_at)
        qed
      qed
      have s3: "save_step i j k (m, buf, w) (m, buf2, w3)"
        by (rule save_step_trans [OF save_step_trans [OF s1 s2] put(1)])
      have s5: "save_step i j k (m, buf, w) (m, buf2, w4)"
      proof -
        have a: "cow_step i j k w w3" "buf_ok buf2 w3" using s3 by (simp_all add: save_step_def)
        have "buf_ok buf2 w4" using a(2) s4 buf_ok_step by blast
        with cow_step_trans [OF a(1)] s4 show ?thesis by (simp add: save_step_def)
      qed
      have "b_save_block m b lock buf w =
        (case r4 of
           Inl e \<Rightarrow> ((Inl e, m, lock, buf2), w4)
         | Inr _ \<Rightarrow> ((Inr (), m\<lparr>latest_written_block_cache := b + 1\<rparr>, lock, buf2), w4))"
        using a Inr q bs p r4 by (simp add: b_save_block_def)
      note ret = this [unfolded assms(4)]
      show ?thesis
      proof (cases r4)
        case (Inl e)
        with ret s5 show ?thesis by simp
      next
        case (Inr u)
        with s4 have ptr: "ptr_at (fdata w4 j) b \<noteq> 0" by simp
        with s4 have "cow_ok (m\<lparr>latest_written_block_cache := b + 1\<rparr>) i j k w4"
          by (intro cow_ok_cache) auto
        with ret Inr s5 ptr show ?thesis by (simp add: save_step_def)
      qed
    qed
  qed
qed


lemma save_step_refl: "cow_ok m i j k w \<Longrightarrow> buf_ok buf w \<Longrightarrow> save_step i j k (m, buf, w) (m, buf, w)"
  by (simp add: save_step_def)

lemma save_step_saved:
  "save_step i j k (m, buf, w) (m', buf', w') \<Longrightarrow> ptr_at (fdata w j) b \<noteq> 0 \<Longrightarrow> ptr_at (fdata w' j) b \<noteq> 0"
  by (simp add: save_step_def cow_step_def)

lemma save_step_cow_ok: "save_step i j k a (m', buf', w') \<Longrightarrow> cow_ok m' i j k w' \<and> buf_ok buf' w'"
  by (auto simp: save_step_def)

lemma save_step_cache:
  "save_step i j k (m, buf, w) (m', buf', w') \<Longrightarrow> ptr_at (fdata w' j) b \<noteq> 0 \<Longrightarrow>
    save_step i j k (m, buf, w) (m'\<lparr>latest_written_block_cache := b + 1\<rparr>, buf', w')"
  unfolding save_step_def prod.case
  by (metis cow_ok_cache same_handle_cache same_handle_trans)

lemma b_write_block_step:
  assumes "cow_ok m i j k w" and "buf_ok buf w"
    and "b_write_block m b lock buf w = Some ((r, m', lock', buf'), w')"
  shows "save_step i j k (m, buf, w) (m', buf', w')
    \<and> (r = Inr () \<longrightarrow> ptr_at (fdata w' j) b \<noteq> 0)"
proof (cases "latest_written_block_cache m = b + 1")
  case True
  with assms save_step_refl [OF assms(1,2)] show ?thesis
    by (simp add: b_write_block_def cow_ok_def layer_inv_def)
next
  case False
  obtain q w1 where q: "block_read_pointer m (MAPHEADER_S + b * BLP_S) w = (q, w1)" by fastforce
  have w1: "w1 = w\<lparr>fates := tl (fates w)\<rparr>" by (rule block_read_pointer_state [OF q])
  have s1: "save_step i j k (m, buf, w) (m, buf, w1)"
    unfolding w1 by (rule save_step_fates [OF assms(1,2)])
  note ok1 = save_step_cow_ok [OF s1]
  consider (err) e where "q = Inl e" | (saved) p where "q = Inr p" "p \<noteq> 0"
    | (unsaved) "q = Inr 0" "lock \<noteq> -1" | (lock) "q = Inr 0" "lock = -1"
    by (cases q) auto
  then show ?thesis
  proof cases
    case err
    with False assms(3) q s1 show ?thesis by (auto simp: b_write_block_def)
  next
    case saved
    then have p: "ptr_at (fdata w1 j) b \<noteq> 0"
      using block_read_pointer_ok [OF assms(1) q [unfolded saved(1)]] w1 by simp
    with save_step_cache [OF s1 p] False assms(3) q saved show ?thesis
      by (auto simp: b_write_block_def)
  next
    case unsaved
    then have p: "ptr_at (fdata w1 j) b = 0"
      using block_read_pointer_ok [OF assms(1) q [unfolded unsaved(1)]] w1 by simp
    have "b_save_block m b lock buf w1 = ((r, m', lock', buf'), w')"
      using False assms(3) q unsaved by (simp add: b_write_block_def)
    from b_save_block_step [OF _ p _ this] ok1 save_step_trans [OF s1] show ?thesis by blast
  next
    case lock
    then obtain l w2 where l: "mflock_lock (mfd_locklabel m) w1 = Some (l, w2)"
      using False assms(3) q by (auto simp: b_write_block_def split: bind_splits)
    then obtain n T where n: "l = Inr n" "w2 = w1\<lparr>mflocks := T\<rparr>" using mfl.acquire_state by blast
    have s2: "save_step i j k (m, buf, w) (m, buf, w2)"
      unfolding n(2) by (rule save_step_trans [OF s1 save_step_mflocks]) (use ok1 in auto)
    obtain q' w3 where q': "block_read_pointer m (MAPHEADER_S + b * BLP_S) w2 = (q', w3)" by fastforce
    have w3: "w3 = w2\<lparr>fates := tl (fates w2)\<rparr>" by (rule block_read_pointer_state [OF q'])
    note ok2 = save_step_cow_ok [OF s2]
    have s3: "save_step i j k (m, buf, w) (m, buf, w3)"
      unfolding w3 by (rule save_step_trans [OF s2 save_step_fates]) (use ok2 in auto)
    note ok3 = save_step_cow_ok [OF s3]
    have eq: "b_write_block m b lock buf w =
      (case q' of
         Inl e \<Rightarrow> Some ((Inl e, m, int n, buf), w3)
       | Inr p \<Rightarrow> if p \<noteq> 0 then Some ((Inr (), m, int n, buf), w3)
                  else Some (b_save_block m b (int n) buf w3))"
      using False q lock l n(1) q' by (simp add: b_write_block_def)
    note ret = eq [unfolded assms(3)]
    show ?thesis
    proof (cases q')
      case (Inl e)
      with ret s3 show ?thesis by auto
    next
      case (Inr p)
      then have p: "p = ptr_at (fdata w3 j) b"
        using block_read_pointer_ok [OF conjunct1 [OF ok2] q' [unfolded Inr]] w3 by simp
      show ?thesis
      proof (cases "p = 0")
        case True
        then have "b_save_block m b (int n) buf w3 = ((r, m', lock', buf'), w')" using ret Inr by simp
        from b_save_block_step [OF _ _ _ this] ok3 p True save_step_trans [OF s3] show ?thesis by auto
      next
        case False
        with ret Inr p s3 show ?thesis by auto
      qed
    qed
  qed
qed

lemma b_write_blocks_step:
  assumes "cow_ok m i j k w" and "buf_ok buf w"
    and "b_write_blocks m n b lock buf w = Some ((r, m', lock', buf'), w')"
  shows "save_step i j k (m, buf, w) (m', buf', w')
    \<and> (r = Inr () \<longrightarrow> (\<forall>c\<in>{b..<b + n}. ptr_at (fdata w' j) c \<noteq> 0))"
  using assms
proof (induction n arbitrary: m b lock buf w)
  case 0
  then show ?case by (simp add: save_step_refl)
next
  case (Suc n)
  from Suc.prems(3) obtain r1 m1 lock1 buf1 w1
    where one: "b_write_block m b lock buf w = Some ((r1, m1, lock1, buf1), w1)"
    by (auto split: bind_splits)
  note s1 = b_write_block_step [OF Suc.prems(1,2) one]
  show ?case
  proof (cases r1)
    case (Inl e)
    with Suc.prems(3) one s1 show ?thesis by auto
  next
    case (Inr u)
    with Suc.prems(3) one have rest: "b_write_blocks m1 n (b + 1) lock1 buf1 w1 = Some ((r, m', lock', buf'), w')"
      by simp
    from s1 save_step_cow_ok have ok1: "cow_ok m1 i j k w1" "buf_ok buf1 w1" by blast+
    note s2 = Suc.IH [OF ok1 rest]
    have "ptr_at (fdata w1 j) b \<noteq> 0" using s1 Inr by simp
    from save_step_saved [OF conjunct1 [OF s2] this] have b: "ptr_at (fdata w' j) b \<noteq> 0" .
    have "ptr_at (fdata w' j) c \<noteq> 0" if "r = Inr ()" "c \<in> {b..<b + Suc n}" for c
      using that b s2 by (cases "c = b") auto
    then show ?thesis using s1 s2 save_step_trans by blast
  qed
qed


lemma b_calc_blocks_eq:
  "b_calc_blocks s off sz = (off div 2 ^ s, (sz + off mod 2 ^ s - 1) div 2 ^ s + 1)"
proof -
  have "off AND (2 ^ s - 1) = off mod 2 ^ s"
    unfolding mask_eq_exp_minus_1 [symmetric] take_bit_eq_mask [symmetric] take_bit_eq_mod ..
  then show ?thesis by (simp add: b_calc_blocks_def drop_bit_eq_div)
qed

lemma b_calc_blocks_range:
  assumes "b_calc_blocks s off sz = (b, n)" and "off \<le> p" and "p < off + sz"
  shows "b \<le> p div 2 ^ s" and "p div 2 ^ s < b + n"
proof -
  have b: "b = off div 2 ^ s" and n: "n = (sz + off mod 2 ^ s - 1) div 2 ^ s + 1"
    using assms(1) by (auto simp: b_calc_blocks_eq)
  show "b \<le> p div 2 ^ s" using assms(2) b by (simp add: div_le_mono)
  have "off = b * 2 ^ s + off mod 2 ^ s" unfolding b by (rule div_mult_mod_eq [symmetric])
  then have "p \<le> (sz + off mod 2 ^ s - 1) + b * 2 ^ s" using assms(2,3) by linarith
  then have "p div 2 ^ s \<le> ((sz + off mod 2 ^ s - 1) + b * 2 ^ s) div 2 ^ s" by (rule div_le_mono)
  also have "\<dots> = b + (sz + off mod 2 ^ s - 1) div 2 ^ s" by simp
  finally show "p div 2 ^ s < b + n" using n by simp
qed

lemma b_write_end_step:
  assumes "b_write_end r m lock buf w = Some ((r', m'), w')"
  shows "r' = r \<and> m' = m \<and> (\<exists>T. w' = w\<lparr>mflocks := T\<rparr>)"
proof (cases "lock \<ge> 0")
  case True
  with assms obtain u w1 where u: "mflock_unlock (nat lock) w = Some (u, w1)"
    by (auto simp: b_write_end_def split: bind_splits)
  with mfl.release_state obtain T where "u = Inr ()" "w1 = w\<lparr>mflocks := T\<rparr>" by blast
  with True assms u show ?thesis by (auto simp: b_write_end_def)
next
  case False
  with assms have "r' = r" "m' = m" "w' = w" by (auto simp: b_write_end_def)
  then show ?thesis by (auto intro: exI [where x = "mflocks w"])
qed

lemma fd_view_nonneg: "fd_view w fd = Some x \<Longrightarrow> 0 \<le> fd"
  by (auto simp: fd_view_def get_fd_def split: if_splits)

lemma b_write_step:
  assumes "cow_ok m i j k w" and "b_write m sz off hl w = Some ((r, m'), w')"
  shows "cow_ok m' i j k w' \<and> cow_step i j k w w' \<and> same_handle m m'
    \<and> (r = Inr () \<longrightarrow> (\<forall>p. off \<le> p \<and> p < off + sz \<and> p < sn_size m
          \<longrightarrow> ptr_at (fdata w' j) (p div BL_S w) \<noteq> 0))"
proof -
  have dat: "\<not> datfd m < 0"
    using assms(1) fd_view_nonneg by (force simp: cow_ok_def saving_fds_def)
  show ?thesis
  proof (cases "sz = 0 \<or> off \<ge> sn_size m")
    case True
    then have "b_write m sz off hl w = Some ((Inr (), m), w)"
      by (cases "sz = 0") (auto simp: b_write_def Let_def)
    with True assms show ?thesis by auto
  next
    case False
    define sz' where "sz' = (if off + sz > sn_size m then sn_size m - off else sz)"
    obtain b n where bn: "b_calc_blocks (bl_slog w) off sz' = (b, n)" by fastforce
    have "b_write m sz off hl w =
      Option.bind (b_write_blocks m n b (if hl then -2 else -1) No_buf w)
        (\<lambda>((r, m, lock, buf), w). b_write_end r m lock buf w)"
      using dat False bn by (simp add: b_write_def Let_def sz'_def [symmetric])
    with assms(2) obtain r1 m1 l1 buf1 w1 where
      bl: "b_write_blocks m n b (if hl then -2 else -1) No_buf w = Some ((r1, m1, l1, buf1), w1)"
      and en: "b_write_end r1 m1 l1 buf1 w1 = Some ((r, m'), w')"
      by (auto split: bind_splits)
    from b_write_end_step [OF en] obtain T where e: "r1 = r" "m1 = m'" "w' = w1\<lparr>mflocks := T\<rparr>" by auto
    have st: "save_step i j k (m, No_buf, w) (m1, buf1, w1)"
      and sv: "r1 = Inr () \<Longrightarrow> \<forall>c\<in>{b..<b + n}. ptr_at (fdata w1 j) c \<noteq> 0"
      using b_write_blocks_step [OF assms(1) _ bl] by (auto simp: buf_ok_def)
    have "ptr_at (fdata w' j) (p div BL_S w) \<noteq> 0"
      if "r = Inr ()" "off \<le> p" "p < off + sz" "p < sn_size m" for p
    proof -
      have "p < off + sz'" using that by (auto simp: sz'_def)
      from b_calc_blocks_range [OF bn that(2) this] sv e that(1) show ?thesis
        by (simp add: BL_S_def)
    qed
    moreover have "cow_step i j k w w'"
      using st cow_step_trans [of i j k w w1 w'] by (simp add: e(3) save_step_def)
    ultimately show ?thesis using st e by (simp add: save_step_def)
  qed
qed


section \<open>Changing the main file\<close>

lemma cow_step_frame: "cow_step i j k w w' \<Longrightarrow> frame {i, j, k} w w'"
  by (auto simp: cow_step_def intro: frame_mono)

lemma cow_step_frame_trans:
  "cow_step i j k w w' \<Longrightarrow> frame {i} w' w'' \<Longrightarrow> frame {i, j, k} w w''"
  by (rule frame_trans [OF cow_step_frame frame_mono]) auto

lemma main_change_step:
  assumes "cow_ok m i j k w" and "w' = set_data i bs (w\<lparr>fates := tl (fates w)\<rparr>)"
    and "\<And>p. p < sn_size m \<Longrightarrow> ptr_at (fdata w j) (p div BL_S w) = 0 \<Longrightarrow> p < length (fdata w i)
      \<Longrightarrow> p < length bs \<and> bs ! p = fdata w i ! p"
  shows "cow_ok m i j k w' \<and> snap_file i j k w' = snap_file i j k w \<and> frame {i} w w'"
proof -
  have n: "i \<noteq> j" "i \<noteq> k" using assms(1) by (auto simp: cow_ok_def saving_fds_def)
  have d: "fdata w' j = fdata w j" "fdata w' k = fdata w k" "fdata w' i = bs" "bl_slog w' = bl_slog w"
    using n by (simp_all add: assms(2) fdata_set_data)
  have size: "layer_size (fdata w j) = Some (sn_size m)"
    using assms(1) by (auto simp: cow_ok_def intro: layer_size_header)
  let ?get = "layer_get (bl_slog w) (fdata w j, fdata w k)"
  have cov: "covered (2 ^ bl_slog w) (sn_size m) ?get (fdata w i)"
    using assms(1) size by (simp add: cow_ok_def layer_inv_def layer_wf_def)
  have keep: "p < length bs \<and> bs ! p = fdata w i ! p"
    if "p < sn_size m" "?get (p div 2 ^ bl_slog w) = None" for p
    using assms(3) [OF that(1)] cov that
    by (auto simp: layer_get_def covered_def BL_S_def Let_def split: if_splits)
  have "overlay (2 ^ bl_slog w) (sn_size m) ?get bs = overlay (2 ^ bl_slog w) (sn_size m) ?get (fdata w i)"
    by (rule overlay_below) (use keep in blast)
  then have "snap_file i j k w' = snap_file i j k w"
    by (simp add: snap_file_def d size)
  moreover have "covered (2 ^ bl_slog w) (sn_size m) ?get bs"
    using keep by (simp add: covered_def)
  then have "layer_inv m i j k w'"
    using assms(1) size by (simp add: cow_ok_def layer_inv_def layer_wf_def d)
  then have "cow_ok m i j k w'"
    using assms(1) by (simp add: cow_ok_def saving_fds_def assms(2) BL_S_def no_short_def)
  ultimately show ?thesis by (simp add: assms(2))
qed

lemma same_handle_fields:
  assumes "same_handle m m'"
  shows "mainfd m' = mainfd m" "mapfd m' = mapfd m" "datfd m' = datfd m" "mapheader m' = mapheader m"
    "mfd_sn_number m' = mfd_sn_number m" "is_main m' = is_main m" "vpath m' = vpath m"
    "mfd_locklabel m' = mfd_locklabel m"
  using assms by (auto simp: same_handle_def)

lemma write_op_step:
  assumes "cow_ok m i j k w" and "mfd_sn_number m = sn_number w"
    and "write_op buf off m w = Some ((r, m'), w')"
  shows "cow_ok m' i j k w' \<and> snap_file i j k w' = snap_file i j k w \<and> same_handle m m'
    \<and> frame {i, j, k} w w'"
proof (cases "is_main m = Mfd_main")
  case False
  with assms show ?thesis by (auto simp: write_op_def)
next
  case True
  then have eq: "write_op buf off m w = Option.bind (b_write m (length buf) off False w)
    (\<lambda>((r, m), w). case r of Inl e \<Rightarrow> Some ((Inl e, m), w)
       | Inr _ \<Rightarrow> let (ret, w) = sys_pwrite (mainfd m) buf off w in Some ((ret, m), w))"
    using assms(2) by (simp add: write_op_def mfd_validate_def)
  then obtain r1 m1 w1 where b: "b_write m (length buf) off False w = Some ((r1, m1), w1)"
    using assms(3) by (auto split: bind_splits)
  note st = b_write_step [OF assms(1) b]
  show ?thesis
  proof (cases r1)
    case (Inl e)
    with eq b assms(3) st show ?thesis using cow_step_frame by (auto simp: cow_step_def)
  next
    case (Inr u)
    obtain r2 w2 where p: "sys_pwrite (mainfd m1) buf off w1 = (r2, w2)" by fastforce
    with eq b assms(3) Inr have ret: "r = r2" "m' = m1" "w' = w2" by auto
    obtain fl where v: "fd_view w1 (mainfd m1) = Some (i, fl)" "no_short w1"
      using st by (auto simp: cow_ok_def saving_fds_def)
    from p v(2,1) show ?thesis
    proof (cases rule: sys_pwrite_cases)
      case (1 e)
      with ret st show ?thesis using cow_step_frame [of i j k w w1]
        by (auto simp: cow_step_def snap_file_def)
    next
      case (2 pos)
      have BL: "BL_S w1 = BL_S w" using st by (auto simp: cow_step_def frame_BL_S)
      have size: "sn_size m1 = sn_size m" using st same_handle_fields by metis
      have "cow_ok m1 i j k w2 \<and> snap_file i j k w2 = snap_file i j k w1 \<and> frame {i} w1 w2"
      proof (rule main_change_step [OF _ 2(5)])
        show "cow_ok m1 i j k w1" using st by simp
        fix p assume a: "p < sn_size m1" "ptr_at (fdata w1 j) (p div BL_S w1) = 0" "p < length (fdata w1 i)"
        have "ptr_at (fdata w1 j) (p div BL_S w) \<noteq> 0" if "off \<le> p" "p < off + length buf" "p < sn_size m"
          using st Inr that by simp
        with a have "p < off \<or> off + length buf \<le> p" using BL size by force
        then have "p < pos \<or> pos + length buf \<le> p" using a(3) 2(3) by auto
        moreover have "p < length (write_at (fdata w1 i) buf pos)"
          using a(3) length_write_at_ge less_le_trans by blast
        ultimately show "p < length (write_at (fdata w1 i) buf pos)
          \<and> write_at (fdata w1 i) buf pos ! p = fdata w1 i ! p"
          using a(3) by (auto simp: nth_write_at)
      qed
      then show ?thesis using ret st cow_step_frame_trans [of i j k w w1 w2] by (simp add: cow_step_def)
    qed
  qed
qed

lemma b_truncate_step:
  assumes "cow_ok m i j k w" and "b_truncate m n hl w = Some ((r, m'), w')"
  shows "cow_ok m' i j k w' \<and> cow_step i j k w w' \<and> same_handle m m'
    \<and> (r = Inr () \<longrightarrow> (\<forall>p. n \<le> p \<and> p < sn_size m \<longrightarrow> ptr_at (fdata w' j) (p div BL_S w) \<noteq> 0))"
proof (cases "n < sn_size m")
  case True
  then have "b_write m (sn_size m - n) n hl w = Some ((r, m'), w')"
    using assms by (simp add: b_truncate_def cow_ok_def layer_inv_def)
  from b_write_step [OF assms(1) this] True show ?thesis by simp
next
  case False
  then have "r = Inr ()" "m' = m" "w' = w" using assms(2) by (auto simp: b_truncate_def)
  with False assms(1) show ?thesis by simp
qed

lemma truncated_keep:
  assumes "p < n" and "p < length bs"
  shows "p < length (resize_to bs n) \<and> resize_to bs n ! p = bs ! p"
  using assms by (simp add: nth_resize_to)

lemma ftruncate_op_step:
  assumes "cow_ok m i j k w" and "mfd_sn_number m = sn_number w"
    and "ftruncate_op n m w = Some ((r, m'), w')"
  shows "cow_ok m' i j k w' \<and> snap_file i j k w' = snap_file i j k w \<and> same_handle m m'
    \<and> frame {i, j, k} w w'"
proof -
  have eq: "ftruncate_op n m w = Option.bind (b_truncate m n False w)
    (\<lambda>((r, m), w). case r of Inl e \<Rightarrow> Some ((Inl e, m), w)
       | Inr _ \<Rightarrow> let (ret, w) = sys_ftruncate (mainfd m) n w in Some ((ret, m), w))"
    using assms(2) by (simp add: ftruncate_op_def mfd_validate_def)
  then obtain r1 m1 w1 where b: "b_truncate m n False w = Some ((r1, m1), w1)"
    using assms(3) by (auto split: bind_splits)
  note st = b_truncate_step [OF assms(1) b]
  show ?thesis
  proof (cases r1)
    case (Inl e)
    with eq b assms(3) st show ?thesis using cow_step_frame by (auto simp: cow_step_def)
  next
    case (Inr u)
    obtain r2 w2 where p: "sys_ftruncate (mainfd m1) n w1 = (r2, w2)" by fastforce
    with eq b assms(3) Inr have ret: "r = r2" "m' = m1" "w' = w2" by auto
    obtain fl where v: "fd_view w1 (mainfd m1) = Some (i, fl)"
      using st by (auto simp: cow_ok_def saving_fds_def)
    from p v show ?thesis
    proof (cases rule: sys_ftruncate_cases)
      case (1 e)
      with ret st show ?thesis using cow_step_frame [of i j k w w1]
        by (auto simp: cow_step_def snap_file_def)
    next
      case 2
      have BL: "BL_S w1 = BL_S w" using st by (auto simp: cow_step_def frame_BL_S)
      have size: "sn_size m1 = sn_size m" using st same_handle_fields by metis
      have "cow_ok m1 i j k w2 \<and> snap_file i j k w2 = snap_file i j k w1 \<and> frame {i} w1 w2"
      proof (rule main_change_step [OF _ 2(3)])
        show "cow_ok m1 i j k w1" using st by simp
        fix p assume a: "p < sn_size m1" "ptr_at (fdata w1 j) (p div BL_S w1) = 0" "p < length (fdata w1 i)"
        have "ptr_at (fdata w1 j) (p div BL_S w) \<noteq> 0" if "n \<le> p" "p < sn_size m"
          using st Inr that by simp
        with a have "p < n" using BL size by force
        with a(3) show "p < length (resize_to (fdata w1 i) n) \<and> resize_to (fdata w1 i) n ! p = fdata w1 i ! p"
          by (intro truncated_keep)
      qed
      then show ?thesis using ret st cow_step_frame_trans [of i j k w w1 w2] by (simp add: cow_step_def)
    qed
  qed
qed

end
