(* ===== verification/Saving.thy ===== *)
theory Saving
  imports Cow
begin

text \<open>
  Saving a block returns: with a free lock, \<open>b_write\<close> and the handlers that call it end, whatever
  fails, and leave the lock table as it was. With the invariant of the theory \<open>Cow\<close> this gives the
  total correctness of copy on write on an open file.
\<close>

section \<open>Definitions\<close>

definition same_locks :: "world \<Rightarrow> world \<Rightarrow> bool" where
  "same_locks w w' \<longleftrightarrow> mflocks w' = mflocks w \<and> self w' = self w"

text \<open>How far a procedure is with its lock: none taken from \<open>T0\<close> yet, or one with index \<open>lock\<close>.\<close>

definition lock_at :: "tid \<Rightarrow> locklabel \<Rightarrow> mflock list \<Rightarrow> int \<Rightarrow> mflock list \<Rightarrow> bool" where
  "lock_at t lb T0 lock T \<longleftrightarrow> lock = -1 \<and> T = T0 \<or> (\<exists>i. lock = int i \<and> lock_table t lb T0 = Some (i, T))"

text \<open>
  An example: a file of ten bytes at inode 2, with its map file (3) and dat file (4) as they are
  when it has just been opened for writing after a snapshot. Blocks have four bytes.
\<close>

definition demo_header :: mapheader where
  "demo_header = \<lparr>mh_version = 12000, mh_exists = 1,
     mh_fstat = \<lparr>st_mode = 0x81A4, st_uid = 1000, st_gid = 1000, st_size = 10\<rparr>,
     mh_signature = ESFS_SIGNATURE\<rparr>"

definition demo_inode :: "byte list \<Rightarrow> inode" where
  "demo_inode bs = \<lparr>i_mode = 0x81A4, i_uid = 1000, i_gid = 1000, i_data = bs\<rparr>"

definition demo :: world where
  "demo = world0\<lparr>
     inodes := (inodes world0)(2 := demo_inode [1, 2, 3, 4, 5, 6, 7, 8, 9, 10],
       3 := demo_inode (mapheader_bytes demo_header), 4 := demo_inode []),
     next_ino := 5,
     fds := [Some \<lparr>of_ino = 2, of_flags = O_RDWR, of_pos = 0\<rparr>,
       Some \<lparr>of_ino = 3, of_flags = O_RDWR, of_pos = 0\<rparr>,
       Some \<lparr>of_ino = 4, of_flags = O_WRONLY OR O_APPEND, of_pos = 0\<rparr>],
     sn_is_any := True, sn_number := 1, sn_lat_dir := ''/r/snapshots/a'', sn_lat_dir_len := 14\<rparr>"

definition demo_mfd :: mfd where
  "demo_mfd = (mfd_garbage \<lparr>st_mode = 0, st_uid = 0, st_gid = 0, st_size = 0\<rparr>)\<lparr>
     mapheader := demo_header, mfd_locklabel := 5, mfd_sn_number := 1, mainfd := 0, mapfd := 1,
     datfd := 2, vpath := ''/f''\<rparr>"

section \<open>Locks during a save\<close>

lemma same_locks_refl [simp]: "same_locks w w"
  by (simp add: same_locks_def)

lemma same_locks_upd [simp]:
  "same_locks w (w'\<lparr>fates := x\<rparr>) = same_locks w w'" "same_locks w (set_data i bs w') = same_locks w w'"
  "same_locks w (set_pos fd n w') = same_locks w w'" "same_locks w (w'\<lparr>fds := y\<rparr>) = same_locks w w'"
  "same_locks w (w'\<lparr>block_buffer := b\<rparr>) = same_locks w w'"
  "same_locks w (w'\<lparr>heap_bufs := h\<rparr>) = same_locks w w'"
  by (simp_all add: same_locks_def)

lemma same_locks_trans: "same_locks w w' \<Longrightarrow> same_locks w' w'' \<Longrightarrow> same_locks w w''"
  by (simp add: same_locks_def)

lemma malloc_ok_locks: "malloc_ok w = (ok, w') \<Longrightarrow> same_locks w w'"
  by (auto dest: malloc_ok_eq)

lemma sys_pread_locks: "sys_pread fd n off w = (r, w') \<Longrightarrow> same_locks w w'"
  by (auto dest: sys_pread_state)

lemma sys_pwrite_locks: "sys_pwrite fd bs off w = (r, w') \<Longrightarrow> same_locks w w'"
  by (auto simp: sys_pwrite_def pop_fate_eq Let_def split: option.splits if_splits fate.splits)

lemma sys_write_locks:
  assumes "sys_write fd bs w = (r, w')"
  shows "same_locks w w'"
proof (cases "get_fd w fd")
  case None
  with assms show ?thesis by (auto simp: sys_write_def pop_fate_eq)
next
  case (Some f)
  obtain r1 w1 where p: "sys_pwrite fd bs (if has_flag (of_flags f) O_APPEND
    then length (fdata w (of_ino f)) else of_pos f) w = (r1, w1)" by fastforce
  from sys_pwrite_locks [OF p] assms Some p show ?thesis
    by (auto simp: sys_write_def Let_def split: sum.splits)
qed

lemma sys_lseek_end_locks: "sys_lseek_end fd w = (r, w') \<Longrightarrow> same_locks w w'"
  by (auto simp: sys_lseek_end_def pop_fate_eq Let_def split: option.splits fate.splits)

lemma block_read_pointer_locks: "block_read_pointer m off w = (r, w') \<Longrightarrow> same_locks w w'"
  by (auto dest: block_read_pointer_state)

lemma b_append_block_locks:
  "b_append_block m off blk w = (r, w') \<Longrightarrow> same_locks w w'"
  by (auto simp: b_append_block_def Let_def split: prod.splits sum.splits if_splits
      dest!: sys_lseek_end_locks sys_write_locks sys_pwrite_locks intro: same_locks_trans)

lemma b_alloc_buf_locks: "b_alloc_buf lock buf w = (r, w') \<Longrightarrow> same_locks w w'"
  by (auto simp: b_alloc_buf_def split: prod.splits if_splits dest!: malloc_ok_locks)

lemma buf_put_locks: "buf_put buf bs w = (buf', w') \<Longrightarrow> same_locks w w'"
  by (auto simp: buf_put_def split: bufsel.splits)

lemma b_save_block_locks:
  assumes "b_save_block m b lock buf w = ((r, m', lock', buf'), w')"
  shows "same_locks w w' \<and> lock' = lock \<and> same_handle m m'"
proof -
  obtain a w1 where a: "b_alloc_buf lock buf w = (a, w1)" by fastforce
  show ?thesis
  proof (cases a)
    case (Inl e)
    with a assms b_alloc_buf_locks [OF a] show ?thesis by (auto simp: b_save_block_def)
  next
    case (Inr buf1)
    obtain q w2 where q: "sys_pread (mainfd m) (BL_S w1) (push_bit (bl_slog w1) b) w1 = (q, w2)" by fastforce
    have l2: "same_locks w w2"
      using b_alloc_buf_locks [OF a] sys_pread_locks [OF q] by (rule same_locks_trans)
    show ?thesis
    proof (cases "\<exists>bs. q = Inr bs \<and> bs \<noteq> []")
      case False
      with assms a Inr q l2 show ?thesis by (cases q) (auto simp: b_save_block_def)
    next
      case True
      then obtain bs where bs: "q = Inr bs" "bs \<noteq> []" by auto
      obtain buf2 w3 where p: "buf_put buf1 bs w2 = (buf2, w3)" by fastforce
      obtain r4 w4 where r4: "b_append_block m (MAPHEADER_S + b * BLP_S) (buf_get buf2 w3) w3 = (r4, w4)"
        by fastforce
      have "same_locks w w4"
        using l2 buf_put_locks [OF p] b_append_block_locks [OF r4] by (blast intro: same_locks_trans)
      moreover have "b_save_block m b lock buf w =
        (case r4 of
           Inl e \<Rightarrow> ((Inl e, m, lock, buf2), w4)
         | Inr _ \<Rightarrow> ((Inr (), m\<lparr>latest_written_block_cache := b + 1\<rparr>, lock, buf2), w4))"
        using a Inr q bs p r4 by (simp add: b_save_block_def)
      ultimately show ?thesis using assms by (auto split: sum.splits)
    qed
  qed
qed

lemma b_write_block_total:
  assumes "lock_free (mfd_locklabel m) T0" and "lock_at (self w) (mfd_locklabel m) T0 lock (mflocks w)"
  shows "\<exists>r m' lock' buf' w'. b_write_block m b lock buf w = Some ((r, m', lock', buf'), w')
    \<and> lock_at (self w') (mfd_locklabel m') T0 lock' (mflocks w') \<and> same_handle m m'"
proof (cases "latest_written_block_cache m = b + 1")
  case True
  with assms show ?thesis by (simp add: b_write_block_def)
next
  case False
  obtain q w1 where q: "block_read_pointer m (MAPHEADER_S + b * BLP_S) w = (q, w1)" by fastforce
  have l1: "mflocks w1 = mflocks w" "self w1 = self w"
    using block_read_pointer_locks [OF q] by (simp_all add: same_locks_def)
  consider (err) e where "q = Inl e" | (saved) p where "q = Inr p" "p \<noteq> 0"
    | (unsaved) "q = Inr 0" "lock \<noteq> -1" | (lock) "q = Inr 0" "lock = -1"
    by (cases q) auto
  then show ?thesis
  proof cases
    case err
    with False q l1 assms show ?thesis by (simp add: b_write_block_def)
  next
    case saved
    with False q l1 assms show ?thesis by (simp add: b_write_block_def)
  next
    case unsaved
    obtain r m' lock' buf' w' where s: "b_save_block m b lock buf w1 = ((r, m', lock', buf'), w')"
      by (metis prod.collapse)
    from b_save_block_locks [OF s] False q unsaved s l1 assms show ?thesis
      by (auto simp: b_write_block_def same_locks_def same_handle_fields)
  next
    case lock
    then have T0: "mflocks w1 = T0" using assms(2) l1 by (simp add: lock_at_def)
    obtain i where i: "lock_table (self w1) (mfd_locklabel m) T0
      = Some (i, upd_slot i (\<lambda>x. x\<lparr>mutex := Some (self w1), label := mfd_locklabel m\<rparr>) T0)"
      by (rule lock_table_free [OF assms(1)])
    define w2 where "w2 = w1\<lparr>mflocks := upd_slot i (\<lambda>x. x\<lparr>mutex := Some (self w1), label := mfd_locklabel m\<rparr>) T0\<rparr>"
    have l: "mflock_lock (mfd_locklabel m) w1 = Some (Inr i, w2)"
      using i T0 by (simp add: mflock_lock_def w2_def)
    obtain q' w3 where q': "block_read_pointer m (MAPHEADER_S + b * BLP_S) w2 = (q', w3)" by fastforce
    have l3: "lock_at (self w3) (mfd_locklabel m) T0 (int i) (mflocks w3)"
      using block_read_pointer_locks [OF q'] i by (simp add: same_locks_def lock_at_def w2_def)
    have eq: "b_write_block m b lock buf w =
      (case q' of
         Inl e \<Rightarrow> Some ((Inl e, m, int i, buf), w3)
       | Inr p \<Rightarrow> if p \<noteq> 0 then Some ((Inr (), m, int i, buf), w3)
                  else Some (b_save_block m b (int i) buf w3))"
      using False q lock l q' by (simp add: b_write_block_def)
    obtain r m' lock' buf' w' where s: "b_save_block m b (int i) buf w3 = ((r, m', lock', buf'), w')"
      by (metis prod.collapse)
    have "lock_at (self w') (mfd_locklabel m') T0 lock' (mflocks w')" "same_handle m m'"
      using b_save_block_locks [OF s] l3 by (auto simp: same_locks_def same_handle_fields)
    with eq s l3 show ?thesis by (cases q') auto
  qed
qed

lemma b_write_blocks_total:
  assumes "lock_free (mfd_locklabel m) T0" and "lock_at (self w) (mfd_locklabel m) T0 lock (mflocks w)"
  shows "\<exists>r m' lock' buf' w'. b_write_blocks m n b lock buf w = Some ((r, m', lock', buf'), w')
    \<and> lock_at (self w') (mfd_locklabel m') T0 lock' (mflocks w') \<and> same_handle m m'"
  using assms
proof (induction n arbitrary: m b lock buf w)
  case 0
  then show ?case by simp
next
  case (Suc n)
  obtain r1 m1 lock1 buf1 w1 where one: "b_write_block m b lock buf w = Some ((r1, m1, lock1, buf1), w1)"
    "lock_at (self w1) (mfd_locklabel m1) T0 lock1 (mflocks w1)" "same_handle m m1"
    using b_write_block_total [OF Suc.prems] by blast
  show ?case
  proof (cases r1)
    case (Inl e)
    with one show ?thesis by simp
  next
    case (Inr u)
    have "lock_free (mfd_locklabel m1) T0" using Suc.prems(1) one(3) by (simp add: same_handle_fields)
    from Suc.IH [OF this one(2)] Inr one same_handle_trans show ?thesis by simp blast
  qed
qed

lemma b_write_end_total:
  assumes "lock_free (mfd_locklabel m) T0" and "lock_at (self w) (mfd_locklabel m) T0 lock (mflocks w)"
  shows "b_write_end r m lock buf w = Some ((r, m), w\<lparr>mflocks := T0\<rparr>)"
proof (cases "lock = -1")
  case True
  with assms(2) have "mflocks w = T0" by (simp add: lock_at_def)
  with True show ?thesis by (auto simp: b_write_end_def)
next
  case False
  then obtain i where i: "lock = int i" "lock_table (self w) (mfd_locklabel m) T0 = Some (i, mflocks w)"
    using assms(2) by (auto simp: lock_at_def)
  from unlock_table_free [OF assms(1) i(2)] i(1) show ?thesis
    by (simp add: b_write_end_def mflock_unlock_def)
qed

lemma b_write_total:
  assumes "lock_free (mfd_locklabel m) (mflocks w)"
  shows "\<exists>r m' w'. b_write m sz off False w = Some ((r, m'), w') \<and> mflocks w' = mflocks w
    \<and> same_handle m m'"
proof -
  have l: "lock_at (self w) (mfd_locklabel m) (mflocks w) (-1) (mflocks w)" by (simp add: lock_at_def)
  have "\<exists>r m' w'. Option.bind (b_write_blocks m n b (-1) No_buf w)
    (\<lambda>((r, m, lock, buf), w). b_write_end r m lock buf w) = Some ((r, m'), w')
    \<and> mflocks w' = mflocks w \<and> same_handle m m'" for n b
  proof -
    obtain r m1 lock buf w1 where
      b: "b_write_blocks m n b (-1) No_buf w = Some ((r, m1, lock, buf), w1)"
        "lock_at (self w1) (mfd_locklabel m1) (mflocks w) lock (mflocks w1)" "same_handle m m1"
      using b_write_blocks_total [OF assms l] by blast
    with assms have "b_write_end r m1 lock buf w1 = Some ((r, m1), w1\<lparr>mflocks := mflocks w\<rparr>)"
      by (intro b_write_end_total) (simp_all add: same_handle_fields)
    with b show ?thesis by simp
  qed
  then show ?thesis by (auto simp: b_write_def Let_def split: prod.splits)
qed

lemma b_truncate_total:
  assumes "lock_free (mfd_locklabel m) (mflocks w)"
  shows "\<exists>r m' w'. b_truncate m n False w = Some ((r, m'), w') \<and> mflocks w' = mflocks w
    \<and> same_handle m m'"
  using b_write_total [OF assms] by (auto simp: b_truncate_def)

lemma sys_ftruncate_locks: "sys_ftruncate fd n w = (r, w') \<Longrightarrow> same_locks w w'"
  by (auto simp: sys_ftruncate_def pop_fate_eq Let_def split: option.splits if_splits fate.splits)

lemma write_op_total:
  assumes "lock_free (mfd_locklabel m) (mflocks w)" and "mfd_sn_number m = sn_number w"
  shows "\<exists>r m' w'. write_op buf off m w = Some ((r, m'), w') \<and> mflocks w' = mflocks w"
proof -
  obtain r m' w1 where b: "b_write m (length buf) off False w = Some ((r, m'), w1)" "mflocks w1 = mflocks w"
    using b_write_total [OF assms(1)] by blast
  obtain q w2 where q: "sys_pwrite (mainfd m') buf off w1 = (q, w2)" by fastforce
  have "mflocks w2 = mflocks w1" using sys_pwrite_locks [OF q] by (simp add: same_locks_def)
  with b q assms(2) show ?thesis
    by (cases "is_main m = Mfd_main"; cases r) (auto simp: write_op_def mfd_validate_def)
qed

lemma ftruncate_op_total:
  assumes "lock_free (mfd_locklabel m) (mflocks w)" and "mfd_sn_number m = sn_number w"
  shows "\<exists>r m' w'. ftruncate_op n m w = Some ((r, m'), w') \<and> mflocks w' = mflocks w"
proof -
  obtain r m' w1 where b: "b_truncate m n False w = Some ((r, m'), w1)" "mflocks w1 = mflocks w"
    using b_truncate_total [OF assms(1)] by blast
  obtain q w2 where q: "sys_ftruncate (mainfd m') n w1 = (q, w2)" by fastforce
  have "mflocks w2 = mflocks w1" using sys_ftruncate_locks [OF q] by (simp add: same_locks_def)
  with b q assms(2) show ?thesis
    by (cases r) (auto simp: ftruncate_op_def mfd_validate_def)
qed

section \<open>Copy on write\<close>

lemma ptr_at_header: "ptr_at (mapheader_bytes h) b = 0"
  by (rule le_nat_Nil_or_0) simp

lemma demo_inv: "cow_ok demo_mfd 2 3 4 demo"
proof -
  have "mapheader_wf demo_header"
    by (simp add: mapheader_wf_def demo_header_def ESFS_SIGNATURE_def)
  then have hdr: "map_header (mapheader_bytes demo_header) = demo_header"
    using bytes_mapheader_bytes [of demo_header "[]"] by (simp add: map_header_def read_at_def)
  have d: "fdata demo 2 = [1, 2, 3, 4, 5, 6, 7, 8, 9, 10]" "fdata demo 3 = mapheader_bytes demo_header"
    "fdata demo 4 = []" "bl_slog demo = 2"
    by (simp_all add: fdata_def demo_def demo_inode_def world0_def)
  have "layer_wf 2 (mapheader_bytes demo_header, []) (Some [1, 2, 3, 4, 5, 6, 7, 8, 9, 10])"
    by (auto simp: layer_wf_def layer_ok_def ptr_at_header layer_size_def hdr covered_def
        MAPHEADER_S_def BLP_S_def)
      (simp add: demo_header_def)
  then have "layer_inv demo_mfd 2 3 4 demo"
    by (simp add: layer_inv_def d hdr demo_mfd_def mfd_garbage_def) (simp add: demo_header_def)
  moreover have "saving_fds demo_mfd 2 3 4 demo"
    by (simp add: saving_fds_def demo_mfd_def demo_def fd_view_def get_fd_def readable_def
        writable_def has_flag_def)
  ultimately show ?thesis
    by (simp add: cow_ok_def no_short_def BL_S_def demo_def world0_def)
qed

lemma demo_lock: "lock_free (mfd_locklabel demo_mfd) (mflocks demo)"
  using lock_free_idle [of 5] by (simp add: demo_mfd_def demo_def world0_def table0_def)

text \<open>
  C4: saving blocks before a write never changes the file as it is in the snapshot, or the main file.
  Whatever system call fails on the way, \<open>b_write\<close> returns, the lock table is as before, and the
  invariant of the handle holds; and if it returns no error, every byte of the snapshot's file in
  the range is in a saved block.
\<close>

theorem b_write_correct:
  assumes "cow_ok m i j k w" and "lock_free (mfd_locklabel m) (mflocks w)"
  shows "\<exists>r m' w'. b_write m sz off False w = Some ((r, m'), w')
    \<and> snap_file i j k w' = snap_file i j k w \<and> frame {j, k} w w' \<and> mflocks w' = mflocks w
    \<and> cow_ok m' i j k w'
    \<and> (r = Inr () \<longrightarrow> (\<forall>p. off \<le> p \<and> p < off + sz \<and> p < sn_size m
          \<longrightarrow> layer_get (bl_slog w) (fdata w' j, fdata w' k) (p div BL_S w) \<noteq> None))"
proof -
  obtain r m' w' where b: "b_write m sz off False w = Some ((r, m'), w')" "mflocks w' = mflocks w"
    using b_write_total [OF assms(2)] by blast
  from b_write_step [OF assms(1) b(1)] b show ?thesis
    by (auto simp: cow_step_def layer_get_def Let_def)
qed

theorem b_write_correct_witness:
  "cow_ok demo_mfd 2 3 4 demo \<and> lock_free (mfd_locklabel demo_mfd) (mflocks demo)
   \<and> (\<exists>r m' w'. b_write demo_mfd 3 2 False demo = Some ((r, m'), w')
        \<and> snap_file 2 3 4 w' = snap_file 2 3 4 demo)"
  using b_write_correct [OF demo_inv demo_lock, of 3 2] demo_inv demo_lock by blast

text \<open>
  C5: the handler of \<open>write\<close>, on a handle that is up to date, returns and keeps the file as it is in
  the snapshot, and the handle's invariant, whatever it returns itself.
\<close>

theorem write_keeps_snapshot:
  assumes "cow_ok m i j k w" and "lock_free (mfd_locklabel m) (mflocks w)"
    and "mfd_sn_number m = sn_number w"
  shows "\<exists>r m' w'. write_op buf off m w = Some ((r, m'), w')
    \<and> snap_file i j k w' = snap_file i j k w \<and> cow_ok m' i j k w'"
proof -
  obtain r m' w' where b: "write_op buf off m w = Some ((r, m'), w')"
    using write_op_total [OF assms(2,3)] by blast
  from write_op_step [OF assms(1,3) b] b show ?thesis by blast
qed

theorem write_keeps_snapshot_witness:
  "\<exists>r m' w'. write_op [9, 9, 9] 2 demo_mfd demo = Some ((r, m'), w')
    \<and> snap_file 2 3 4 w' = snap_file 2 3 4 demo \<and> cow_ok m' 2 3 4 w'"
proof -
  have "mfd_sn_number demo_mfd = sn_number demo" by (simp add: demo_mfd_def demo_def)
  from write_keeps_snapshot [OF demo_inv demo_lock this] show ?thesis .
qed

text \<open>
  C6: the handler of \<open>ftruncate\<close>, on a handle that is up to date, keeps the file as it is in the
  snapshot too, for every new size.
\<close>

theorem ftruncate_keeps_snapshot:
  assumes "cow_ok m i j k w" and "lock_free (mfd_locklabel m) (mflocks w)"
    and "mfd_sn_number m = sn_number w"
  shows "\<exists>r m' w'. ftruncate_op n m w = Some ((r, m'), w')
    \<and> snap_file i j k w' = snap_file i j k w \<and> cow_ok m' i j k w'"
proof -
  obtain r m' w' where b: "ftruncate_op n m w = Some ((r, m'), w')"
    using ftruncate_op_total [OF assms(2,3)] by blast
  from ftruncate_op_step [OF assms(1,3) b] b show ?thesis by blast
qed

theorem ftruncate_keeps_snapshot_witness:
  "\<exists>r m' w'. ftruncate_op 3 demo_mfd demo = Some ((r, m'), w')
    \<and> snap_file 2 3 4 w' = snap_file 2 3 4 demo \<and> cow_ok m' 2 3 4 w'"
proof -
  have "mfd_sn_number demo_mfd = sn_number demo" by (simp add: demo_mfd_def demo_def)
  from ftruncate_keeps_snapshot [OF demo_inv demo_lock this] show ?thesis .
qed

end
