(* ===== verification/Reading.thy ===== *)
theory Reading
  imports Saving
begin

text \<open>
  Reading a file in a snapshot: \<open>b_read\<close> returns the bytes of the view of the file through the steps
  of the handle, from the first step that knows the file to the main file.
\<close>

section \<open>The file a handle describes\<close>

definition fd_data :: "world \<Rightarrow> int \<Rightarrow> byte list" where
  "fd_data w fd = (case fd_view w fd of None \<Rightarrow> [] | Some (i, _) \<Rightarrow> if is_dir w i then [] else fdata w i)"

definition reads :: "world \<Rightarrow> int \<Rightarrow> bool" where
  "reads w fd \<longleftrightarrow>
     (case fd_view w fd of None \<Rightarrow> False | Some (i, fl) \<Rightarrow> readable fl \<and> \<not> is_dir w i)"

definition step_layer :: "world \<Rightarrow> sn_step \<Rightarrow> layer option" where
  "step_layer w s =
     (if step_mapfd s < 0 then None else Some (fd_data w (step_mapfd s), fd_data w (step_datfd s)))"

fun steps_view :: "world \<Rightarrow> mfd \<Rightarrow> nat \<Rightarrow> byte list option" where
  "steps_view w m 0 = Some (fd_data w (step_datfd (sn_steps m ! 0)))"
| "steps_view w m (Suc n) =
     layer_view (bl_slog w) (step_layer w (sn_steps m ! Suc n)) (steps_view w m n)"

text \<open>
  The map file can be read and, if it has blocks, the dat file; every block is found somewhere. There
  may be no main file, or a directory in its place.
\<close>

definition step_ok :: "world \<Rightarrow> sn_step \<Rightarrow> byte list option \<Rightarrow> bool" where
  "step_ok w s below \<longleftrightarrow>
     (case step_layer w s of
        None \<Rightarrow> True
      | Some l \<Rightarrow> reads w (step_mapfd s) \<and> (snd l = [] \<or> reads w (step_datfd s))
                  \<and> layer_wf (bl_slog w) l below)"

fun steps_ok :: "world \<Rightarrow> mfd \<Rightarrow> nat \<Rightarrow> bool" where
  "steps_ok w m 0 \<longleftrightarrow> fd_data w (step_datfd (sn_steps m ! 0)) = [] \<or> reads w (step_datfd (sn_steps m ! 0))"
| "steps_ok w m (Suc n) \<longleftrightarrow> step_ok w (sn_steps m ! Suc n) (steps_view w m n) \<and> steps_ok w m n"

text \<open>What a reading step leaves: no file changes, and without faults there are none later.\<close>

definition read_step :: "world \<Rightarrow> world \<Rightarrow> bool" where
  "read_step w w' \<longleftrightarrow> (\<exists>x T. w' = w\<lparr>fates := x, mflocks := T\<rparr> \<and> (fates w = [] \<longrightarrow> x = [])
     \<and> (no_short w \<longrightarrow> no_short w'))"

definition lock_opt :: "tid \<Rightarrow> locklabel \<Rightarrow> mflock list \<Rightarrow> nat option \<Rightarrow> mflock list \<Rightarrow> bool" where
  "lock_opt t lb T0 lock T \<longleftrightarrow>
     (case lock of None \<Rightarrow> T = T0 | Some i \<Rightarrow> lock_table t lb T0 = Some (i, T))"

text \<open>
  An example: the file of the example in the theory \<open>Saving\<close> after its first block has been saved
  and overwritten, and a handle that reads it in the snapshot.
\<close>

definition rdemo :: world where
  "rdemo = demo\<lparr>
     inodes := (inodes demo)(2 := demo_inode [91, 92, 93, 94, 5, 6, 7, 8, 9, 10],
       3 := demo_inode (mapheader_bytes demo_header @ le_bytes 8 1), 4 := demo_inode [1, 2, 3, 4]),
     fds := [Some \<lparr>of_ino = 2, of_flags = O_RDONLY, of_pos = 0\<rparr>,
       Some \<lparr>of_ino = 3, of_flags = O_RDONLY, of_pos = 0\<rparr>,
       Some \<lparr>of_ino = 4, of_flags = O_RDONLY, of_pos = 0\<rparr>]\<rparr>"

definition rdemo_mfd :: mfd where
  "rdemo_mfd = demo_mfd\<lparr>is_main := Mfd_sn_full, sn_current := 1, sn_first_file := 1,
     sn_steps := [\<lparr>step_path = ''/r/f'', step_mapfd = SN_STEPS_MAIN, step_datfd = 0, step_dirfd = None\<rparr>,
       \<lparr>step_path = ''/r/snapshots/a/f'', step_mapfd = 1, step_datfd = 2, step_dirfd = None\<rparr>]\<rparr>"

section \<open>Reading steps\<close>

lemma read_step_refl [simp]: "read_step w w"
  unfolding read_step_def by (intro exI [where x = "fates w"] exI [where x = "mflocks w"]) simp

lemma read_step_trans: "read_step w w' \<Longrightarrow> read_step w' w'' \<Longrightarrow> read_step w w''"
  unfolding read_step_def by (elim exE conjE) (auto simp: no_short_def)

lemma read_step_fates: "read_step w (w\<lparr>fates := tl (fates w)\<rparr>)"
  unfolding read_step_def
  by (intro exI [where x = "tl (fates w)"] exI [where x = "mflocks w"]) (auto simp: no_short_def)

lemma read_step_mflocks: "read_step w (w\<lparr>mflocks := T\<rparr>)"
  unfolding read_step_def
  by (intro exI [where x = "fates w"] exI [where x = T]) (auto simp: no_short_def)

lemma read_step_fields:
  assumes "read_step w w'"
  shows "fdata w' = fdata w" "fd_view w' = fd_view w" "bl_slog w' = bl_slog w" "self w' = self w"
    "is_dir w' = is_dir w" "sn_number w' = sn_number w"
  using assms by (auto simp: read_step_def is_dir_def fun_eq_iff)

lemma read_step_no_short: "read_step w w' \<Longrightarrow> no_short w \<Longrightarrow> no_short w'"
  by (auto simp: read_step_def)

lemma read_step_no_fates: "read_step w w' \<Longrightarrow> fates w = [] \<Longrightarrow> fates w' = []"
  by (auto simp: read_step_def)

lemma read_step_views:
  assumes "read_step w w'"
  shows "fd_data w' = fd_data w" "reads w' = reads w" "step_layer w' = step_layer w"
    "steps_view w' m n = steps_view w m n" "steps_ok w' m n = steps_ok w m n"
proof -
  note f = read_step_fields [OF assms]
  show 1: "fd_data w' = fd_data w" "reads w' = reads w"
    by (simp_all add: fd_data_def reads_def f fun_eq_iff split: option.splits)
  then show 2: "step_layer w' = step_layer w" by (simp add: step_layer_def fun_eq_iff)
  show 3: "steps_view w' m n = steps_view w m n" for n
    by (induction n) (simp_all add: 1 2 f)
  show "steps_ok w' m n = steps_ok w m n"
    by (induction n) (simp_all add: 1 2 3 f step_ok_def split: option.splits)
qed

lemma reads_pread:
  assumes "reads w fd" and "no_short w" and "sys_pread fd n off w = (r, w')"
  shows "read_step w w'" and "r = Inr (read_at (fd_data w fd) n off) \<or> (\<exists>e. r = Inl e)"
    and "fates w = [] \<Longrightarrow> r = Inr (read_at (fd_data w fd) n off)"
proof -
  obtain i fl where v: "fd_view w fd = Some (i, fl)" "readable fl" "\<not> is_dir w i"
    using assms(1) by (auto simp: reads_def split: option.splits)
  show "read_step w w'" using sys_pread_state [OF assms(3)] read_step_fates by simp
  show "r = Inr (read_at (fd_data w fd) n off) \<or> (\<exists>e. r = Inl e)"
  proof (cases r)
    case (Inr bs)
    with sys_pread_ok assms(2,3) v(1,3) show ?thesis by (auto simp: fd_data_def)
  qed simp
  show "r = Inr (read_at (fd_data w fd) n off)" if "fates w = []"
  proof -
    have "fd_data w fd = fdata w i" using v by (simp add: fd_data_def)
    then show ?thesis using that assms(3) v by (auto simp: sys_pread_def pop_fate_eq fd_view_Some)
  qed
qed

section \<open>One block\<close>

lemma b_read_from_step:
  assumes "reads w fd" and "no_short w" and "b_read_from fd cf cl w = (r, w')"
    and "cf + cl \<le> length (fd_data w fd)"
  shows "read_step w w'" and "r = Inr (Some (read_at (fd_data w fd) cl cf)) \<or> (\<exists>e. r = Inl e)"
    and "fates w = [] \<Longrightarrow> r = Inr (Some (read_at (fd_data w fd) cl cf))"
proof -
  obtain q w1 where q: "sys_pread fd cl cf w = (q, w1)" by fastforce
  note p = reads_pread [OF assms(1,2) q]
  have l: "length (read_at (fd_data w fd) cl cf) = cl" using assms(4) by simp
  have w: "w' = w1" using assms(3) q by (auto simp: b_read_from_def split: sum.splits)
  show "read_step w w'" using p(1) w by simp
  show "r = Inr (Some (read_at (fd_data w fd) cl cf)) \<or> (\<exists>e. r = Inl e)"
    using assms(3) q p(2) l by (auto simp: b_read_from_def split: sum.splits)
  show "r = Inr (Some (read_at (fd_data w fd) cl cf))" if "fates w = []"
    using assms(3) q p(3) [OF that] l by (auto simp: b_read_from_def)
qed

text \<open>A step that does not have the block, and one that has it.\<close>

lemma b_probe_snapshot:
  assumes "step_layer w (sn_steps m ! sni) = Some l" and "step_ok w (sn_steps m ! sni) below"
    and "0 < sni" and "no_short w" and "cf + cl \<le> 2 ^ bl_slog w"
    and "b_probe m sni b cf cl w = (r, w')"
  shows "read_step w w'"
    and "r = Inr (map_option (\<lambda>blk. read_at blk cl cf) (layer_get (bl_slog w) l b)) \<or> (\<exists>e. r = Inl e)"
    and "fates w = [] \<Longrightarrow> r = Inr (map_option (\<lambda>blk. read_at blk cl cf) (layer_get (bl_slog w) l b))"
proof -
  let ?s = "sn_steps m ! sni" and ?off = "MAPHEADER_S + b * BLP_S"
  have mapfd: "\<not> step_mapfd ?s < 0" and l: "l = (fd_data w (step_mapfd ?s), fd_data w (step_datfd ?s))"
    using assms(1) by (auto simp: step_layer_def split: if_splits)
  have rd: "reads w (step_mapfd ?s)" "snd l = [] \<or> reads w (step_datfd ?s)" and ok: "layer_ok (bl_slog w) l"
    using assms(1,2) by (auto simp: step_ok_def layer_wf_def)
  obtain q w1 where q: "sys_pread (step_mapfd ?s) BLP_S ?off w = (q, w1)" by fastforce
  note p = reads_pread [OF rd(1) assms(4) q]
  define bs where "bs = read_at (fst l) BLP_S ?off"
  have bs: "length bs = BLP_S \<or> bs = []"
    using map_slot_bound [OF ok, of b] by (cases "?off < length (fst l)") (auto simp: bs_def read_at_def)
  have ptr: "(if bs = [] then 0 else le_nat bs) = ptr_at (fst l) b"
    by (simp add: ptr_at_def bs_def)
  have q': "q = Inr bs \<or> (\<exists>e. q = Inl e)" "fates w = [] \<Longrightarrow> q = Inr bs"
    using p(2,3) by (simp_all add: l bs_def)
  have s1: "bl_slog w1 = bl_slog w" "fd_data w1 = fd_data w" "reads w1 = reads w" "no_short w1"
    using read_step_fields(3) [OF p(1)] read_step_views [OF p(1)] read_step_no_short [OF p(1) assms(4)]
    by auto
  have eq: "b_probe m sni b cf cl w =
    (case q of
       Inl e \<Rightarrow> (Inl e, w1)
     | Inr bs \<Rightarrow> if length bs \<noteq> BLP_S \<and> length bs \<noteq> 0 then (Inl ENXIO, w1)
        else if (if bs = [] then 0 else le_nat bs) = 0 then (Inr None, w1)
        else b_read_from (step_datfd ?s) (cf + ((if bs = [] then 0 else le_nat bs) - 1) * 2 ^ bl_slog w) cl w1)"
    using assms(3) mapfd q by (cases q) (simp_all add: b_probe_def Let_def push_bit_eq_mult s1(1))
  have "read_step w w' \<and>
    (r = Inr (map_option (\<lambda>blk. read_at blk cl cf) (layer_get (bl_slog w) l b)) \<or> (\<exists>e. r = Inl e)) \<and>
    (fates w = [] \<longrightarrow> r = Inr (map_option (\<lambda>blk. read_at blk cl cf) (layer_get (bl_slog w) l b)))"
  proof (cases "q = Inr bs")
    case False
    then obtain e where "q = Inl e" using q'(1) by blast
    with False q'(2) eq assms(6) p(1) show ?thesis by auto
  next
    case True
    show ?thesis
    proof (cases "ptr_at (fst l) b = 0")
      case z: True
      have "(r, w') = (Inr None, w1)"
        using eq assms(6) True bs ptr z by (auto split: if_splits)
      with p(1) z show ?thesis by (simp add: layer_get_def)
    next
      case False
      let ?pos = "(ptr_at (fst l) b - 1) * 2 ^ bl_slog w"
      have bf: "b_read_from (step_datfd ?s) (cf + ?pos) cl w1 = (r, w')"
        using eq assms(6) True bs ptr False by (auto split: if_splits)
      have "?pos + 2 ^ bl_slog w = ptr_at (fst l) b * 2 ^ bl_slog w"
        using False by (cases "ptr_at (fst l) b") auto
      also have "\<dots> \<le> length (snd l)" using ok by (simp add: layer_ok_def)
      finally have le: "?pos + 2 ^ bl_slog w \<le> length (snd l)" .
      then have "snd l \<noteq> []" by auto
      with rd(2) have rd': "reads w1 (step_datfd ?s)" by (simp add: s1)
      have len: "cf + ?pos + cl \<le> length (fd_data w1 (step_datfd ?s))"
        using le assms(5) by (simp add: s1 l)
      note bfs = b_read_from_step [OF rd' s1(4) bf len]
      have sl: "read_at (fd_data w1 (step_datfd ?s)) cl (cf + ?pos)
        = read_at (read_at (snd l) (2 ^ bl_slog w) ?pos) cl cf"
        using assms(5) by (simp add: s1 l read_at_def min_def take_drop add.commute)
      have get: "layer_get (bl_slog w) l b = Some (read_at (snd l) (2 ^ bl_slog w) ?pos)"
        using False by (simp add: layer_get_def)
      show ?thesis
        using read_step_trans [OF p(1) bfs(1)] bfs(2,3) sl get read_step_no_fates [OF p(1)] by auto
    qed
  qed
  then show "read_step w w'"
    and "r = Inr (map_option (\<lambda>blk. read_at blk cl cf) (layer_get (bl_slog w) l b)) \<or> (\<exists>e. r = Inl e)"
    and "fates w = [] \<Longrightarrow> r = Inr (map_option (\<lambda>blk. read_at blk cl cf) (layer_get (bl_slog w) l b))"
    by auto
qed


section \<open>Through the steps\<close>

lemma overlay_slice:
  assumes "cf + cl \<le> bs" and "b * bs + cf + cl \<le> n" and "i < cl" and "0 < bs"
  shows "read_at (overlay bs n get below) cl (b * bs + cf) ! i =
    (case get b of Some blk \<Rightarrow> blk ! (cf + i) | None \<Rightarrow> below ! (b * bs + cf + i))"
proof -
  have "(b * bs + cf + i) div bs = b" "(b * bs + cf + i) mod bs = cf + i"
    using assms(1,3) by (simp_all add: add.assoc)
  then show ?thesis using assms
    by (cases "get b") (simp_all add: nth_read_at overlay_def overlay_byte_def)
qed

lemma overlay_length [simp]: "length (overlay bs n get below) = n"
  by (simp add: overlay_def)

lemma layer_get_length:
  assumes "layer_ok s l" and "layer_get s l b = Some blk"
  shows "length blk = 2 ^ s"
proof -
  have p: "ptr_at (fst l) b \<noteq> 0" "blk = read_at (snd l) (2 ^ s) ((ptr_at (fst l) b - 1) * 2 ^ s)"
    using assms(2) by (auto simp: layer_get_def Let_def split: if_splits)
  then have "(ptr_at (fst l) b - 1) * 2 ^ s + 2 ^ s = ptr_at (fst l) b * 2 ^ s"
    by (cases "ptr_at (fst l) b") auto
  then have "(ptr_at (fst l) b - 1) * 2 ^ s + 2 ^ s \<le> length (snd l)"
    using assms(1) by (simp add: layer_ok_def)
  then show ?thesis using p(2) by simp
qed

lemma slice_saved:
  assumes "layer_ok s l" and "layer_get s l b = Some blk" and "cf + cl \<le> 2 ^ s"
    and "b * 2 ^ s + cf + cl \<le> n"
  shows "read_at (overlay (2 ^ s) n (layer_get s l) below) cl (b * 2 ^ s + cf) = read_at blk cl cf"
proof (rule nth_equalityI)
  have blk: "length blk = 2 ^ s" by (rule layer_get_length [OF assms(1,2)])
  show "length (read_at (overlay (2 ^ s) n (layer_get s l) below) cl (b * 2 ^ s + cf)) = length (read_at blk cl cf)"
    using assms(3,4) blk by simp
  fix i assume "i < length (read_at (overlay (2 ^ s) n (layer_get s l) below) cl (b * 2 ^ s + cf))"
  then have "i < cl" by simp
  then show "read_at (overlay (2 ^ s) n (layer_get s l) below) cl (b * 2 ^ s + cf) ! i = read_at blk cl cf ! i"
    using overlay_slice [OF assms(3,4)] assms(2,3) blk by (simp add: nth_read_at)
qed

lemma slice_below:
  assumes "layer_get s l b = None" and "cf + cl \<le> 2 ^ s" and "b * 2 ^ s + cf + cl \<le> n"
    and "b * 2 ^ s + cf + cl \<le> length below"
  shows "read_at (overlay (2 ^ s) n (layer_get s l) below) cl (b * 2 ^ s + cf)
    = read_at below cl (b * 2 ^ s + cf)"
proof (rule nth_equalityI)
  show "length (read_at (overlay (2 ^ s) n (layer_get s l) below) cl (b * 2 ^ s + cf))
    = length (read_at below cl (b * 2 ^ s + cf))"
    using assms(3,4) by simp
  fix i assume "i < length (read_at (overlay (2 ^ s) n (layer_get s l) below) cl (b * 2 ^ s + cf))"
  then have "i < cl" by simp
  then show "read_at (overlay (2 ^ s) n (layer_get s l) below) cl (b * 2 ^ s + cf) ! i
    = read_at below cl (b * 2 ^ s + cf) ! i"
    using overlay_slice [OF assms(2,3)] assms(1,4) by (simp add: nth_read_at)
qed

lemma covered_slice:
  assumes "covered (2 ^ s) n (layer_get s l) below" and "layer_get s l b = None"
    and "cf + cl \<le> 2 ^ s" and "b * 2 ^ s + cf + cl \<le> n" and "0 < cl"
  shows "b * 2 ^ s + cf + cl \<le> length below"
proof -
  define x where "x = cf + cl - 1"
  have x: "x < 2 ^ s" "cf + cl = Suc x" using assms(3,5) by (auto simp: x_def)
  then have "(b * 2 ^ s + x) div 2 ^ s = b" by simp
  moreover have "b * 2 ^ s + x < n" using assms(4) x(2) by linarith
  ultimately have "b * 2 ^ s + x < length below" using assms(1,2) by (auto simp: covered_def)
  then show ?thesis using x(2) by linarith
qed

section \<open>The lock\<close>

lemma lock_opt_acquire:
  assumes "lock_free lb T0" and "lock_opt (self w) lb T0 lock (mflocks w)"
  obtains lock' w' where
    "(if sni \<le> 1 \<and> lock = None then
        do { (l, w) \<leftarrow> mflock_lock lb w; Some (map_sum id Some l, w) }
      else Some (Inr lock, w)) = Some (Inr lock', w')"
    and "read_step w w'" and "lock_opt (self w') lb T0 lock' (mflocks w')"
    and "fates w' = fates w"
proof (cases "sni \<le> 1 \<and> lock = None")
  case False
  then show ?thesis using that [of lock w] assms(2) by auto
next
  case True
  then have T: "mflocks w = T0" using assms(2) by (simp add: lock_opt_def)
  obtain i where i: "lock_table (self w) lb T0 = Some (i, upd_slot i (\<lambda>x. x\<lparr>mutex := Some (self w), label := lb\<rparr>) T0)"
    by (rule lock_table_free [OF assms(1)])
  let ?w = "w\<lparr>mflocks := upd_slot i (\<lambda>x. x\<lparr>mutex := Some (self w), label := lb\<rparr>) T0\<rparr>"
  have "mflock_lock lb w = Some (Inr i, ?w)" using i T by (simp add: mflock_lock_def)
  then show ?thesis using that [of "Some i" ?w] True i read_step_mflocks by (simp add: lock_opt_def)
qed

lemma b_release_step:
  assumes "lock_free lb T0" and "lock_opt (self w) lb T0 lock (mflocks w)"
  shows "b_release lock r w = Some (r, w\<lparr>mflocks := T0\<rparr>)"
proof (cases lock)
  case None
  then show ?thesis using assms(2) by (auto simp: b_release_def lock_opt_def)
next
  case (Some i)
  then have "lock_table (self w) lb T0 = Some (i, mflocks w)" using assms(2) by (simp add: lock_opt_def)
  from unlock_table_free [OF assms(1) this] Some show ?thesis
    by (simp add: b_release_def mflock_unlock_def)
qed


section \<open>A block\<close>

lemma b_read_from_locks: "b_read_from fd cf cl w = (r, w') \<Longrightarrow> same_locks w w'"
  by (auto simp: b_read_from_def split: prod.splits sum.splits dest: sys_pread_locks)

lemma b_probe_locks: "b_probe m sni b cf cl w = (r, w') \<Longrightarrow> same_locks w w'"
  by (auto simp: b_probe_def Let_def split: prod.splits sum.splits if_splits
      dest!: sys_pread_locks b_read_from_locks intro: same_locks_trans)

lemma lock_opt_same:
  "lock_opt (self w) lb T0 lock (mflocks w) \<Longrightarrow> same_locks w w' \<Longrightarrow> lock_opt (self w') lb T0 lock (mflocks w')"
  by (simp add: same_locks_def)

text \<open>One turn of the loop over the steps.\<close>

lemma b_search_Suc:
  assumes "lock_free (mfd_locklabel m) T0" and "lock_opt (self w) (mfd_locklabel m) T0 lock (mflocks w)"
  obtains lock1 w1 r w2 where "read_step w w1" and "fates w1 = fates w"
    and "b_probe m sni b cf cl w1 = (r, w2)"
    and "lock_opt (self w2) (mfd_locklabel m) T0 lock1 (mflocks w2)"
    and "b_search m b cf cl (Suc sni) lock w =
      (case r of
         Inl e \<Rightarrow> Some (Inl (Inl e), w2\<lparr>mflocks := T0\<rparr>)
       | Inr None \<Rightarrow> b_search m b cf cl sni lock1 w2
       | Inr (Some bs) \<Rightarrow> Some (Inr (Some bs), w2\<lparr>mflocks := T0\<rparr>))"
proof -
  obtain lock1 w1 where l: "(if sni \<le> 1 \<and> lock = None then
        do { (l, w) \<leftarrow> mflock_lock (mfd_locklabel m) w; Some (map_sum id Some l, w) }
      else Some (Inr lock, w)) = Some (Inr lock1, w1)"
    "read_step w w1" "lock_opt (self w1) (mfd_locklabel m) T0 lock1 (mflocks w1)" "fates w1 = fates w"
    by (rule lock_opt_acquire [OF assms])
  obtain r w2 where p: "b_probe m sni b cf cl w1 = (r, w2)" by fastforce
  have lo: "lock_opt (self w2) (mfd_locklabel m) T0 lock1 (mflocks w2)"
    by (rule lock_opt_same [OF l(3) b_probe_locks [OF p]])
  have "b_search m b cf cl (Suc sni) lock w =
      (case r of
         Inl e \<Rightarrow> Some (Inl (Inl e), w2\<lparr>mflocks := T0\<rparr>)
       | Inr None \<Rightarrow> b_search m b cf cl sni lock1 w2
       | Inr (Some bs) \<Rightarrow> Some (Inr (Some bs), w2\<lparr>mflocks := T0\<rparr>))"
    unfolding b_search.simps l(1) bind.bind_lunit prod.case sum.case p Let_def
    by (simp add: b_release_step [OF assms(1) lo] split: sum.splits option.splits)
  then show thesis by (rule that [OF l(2,4) p lo])
qed

lemma b_search_step:
  assumes "steps_ok w m n" and "steps_view w m n = Some v" and "no_short w"
    and "lock_free (mfd_locklabel m) T0" and "lock_opt (self w) (mfd_locklabel m) T0 lock (mflocks w)"
    and "0 < cl" and "cf + cl \<le> 2 ^ bl_slog w" and "b * 2 ^ bl_slog w + cf + cl \<le> length v"
  shows "\<exists>r w'. b_search m b cf cl (Suc n) lock w = Some (r, w') \<and> read_step w w' \<and> mflocks w' = T0
    \<and> (r = Inr (Some (read_at v cl (b * 2 ^ bl_slog w + cf))) \<or> (\<exists>e. r = Inl (Inl e)))
    \<and> (fates w = [] \<longrightarrow> r = Inr (Some (read_at v cl (b * 2 ^ bl_slog w + cf))))"
  using assms
proof (induction n arbitrary: lock w v)
  case 0
  obtain lock1 w1 r w2 where l: "read_step w w1" "fates w1 = fates w"
    and p: "b_probe m 0 b cf cl w1 = (r, w2)"
    and eq: "b_search m b cf cl (Suc 0) lock w =
      (case r of
         Inl e \<Rightarrow> Some (Inl (Inl e), w2\<lparr>mflocks := T0\<rparr>)
       | Inr None \<Rightarrow> b_search m b cf cl 0 lock1 w2
       | Inr (Some bs) \<Rightarrow> Some (Inr (Some bs), w2\<lparr>mflocks := T0\<rparr>))"
    by (rule b_search_Suc [OF 0(4,5), where sni = 0 and b = b and cf = cf and cl = cl])
  note f1 = read_step_fields [OF l(1)] read_step_views [OF l(1)]
  have v: "v = fd_data w1 (step_datfd (sn_steps m ! 0))" using 0(2) by (simp add: f1)
  have len: "cf + b * 2 ^ bl_slog w + cl \<le> length (fd_data w1 (step_datfd (sn_steps m ! 0)))"
    using 0(8) v by simp
  then have rd: "reads w1 (step_datfd (sn_steps m ! 0))" "no_short w1"
    using 0(1,3,6) l(1) by (auto simp: f1 read_step_no_short)
  have p': "b_read_from (step_datfd (sn_steps m ! 0)) (cf + b * 2 ^ bl_slog w) cl w1 = (r, w2)"
    using p by (simp add: b_probe_def push_bit_eq_mult f1)
  note bf = b_read_from_step [OF rd p' len, folded v]
  have st: "read_step w (w2\<lparr>mflocks := T0\<rparr>)"
    using l(1) bf(1) read_step_mflocks by (blast intro: read_step_trans)
  from bf(2) show ?case
  proof (elim disjE exE)
    assume "r = Inr (Some (read_at v cl (cf + b * 2 ^ bl_slog w)))"
    with eq st show ?thesis by (simp add: add.commute)
  next
    fix e assume "r = Inl e"
    with eq st bf(3) l(2) show ?thesis by auto
  qed
next
  case (Suc n)
  let ?s = "sn_steps m ! Suc n" and ?BL = "2 ^ bl_slog w"
  obtain lock1 w1 r w2 where l: "read_step w w1" "fates w1 = fates w"
    and p: "b_probe m (Suc n) b cf cl w1 = (r, w2)"
    and lo: "lock_opt (self w2) (mfd_locklabel m) T0 lock1 (mflocks w2)"
    and eq: "b_search m b cf cl (Suc (Suc n)) lock w =
      (case r of
         Inl e \<Rightarrow> Some (Inl (Inl e), w2\<lparr>mflocks := T0\<rparr>)
       | Inr None \<Rightarrow> b_search m b cf cl (Suc n) lock1 w2
       | Inr (Some bs) \<Rightarrow> Some (Inr (Some bs), w2\<lparr>mflocks := T0\<rparr>))"
    by (rule b_search_Suc [OF Suc.prems(4,5), where sni = "Suc n" and b = b and cf = cf and cl = cl])
  note f1 = read_step_fields [OF l(1)] read_step_views [OF l(1)]
  have below: ?case
    if "r = Inr None" "read_step w1 w2" "steps_view w m n = Some v'"
      "b * ?BL + cf + cl \<le> length v'" "read_at v' cl (b * ?BL + cf) = read_at v cl (b * ?BL + cf)" for v'
  proof -
    have st: "read_step w w2" using l(1) that(2) by (rule read_step_trans)
    note f2 = read_step_fields [OF st] read_step_views [OF st]
    have "steps_ok w2 m n" "steps_view w2 m n = Some v'" "no_short w2"
      "cf + cl \<le> 2 ^ bl_slog w2" "b * 2 ^ bl_slog w2 + cf + cl \<le> length v'"
      using Suc.prems(1,3,7) that(3,4) st by (simp_all add: f2 read_step_no_short)
    from Suc.IH [OF this(1,2,3) Suc.prems(4) lo Suc.prems(6) this(4,5)] eq that(1,5) st
    show ?thesis using read_step_no_fates [OF st] by (auto simp: f2 intro: read_step_trans)
  qed
  show ?case
  proof (cases "step_layer w ?s")
    case None
    then have "(r, w2) = (Inr None, w1)"
      using p by (simp add: b_probe_def step_layer_def split: if_splits)
    moreover have "steps_view w m n = Some v" using Suc.prems(2) None by simp
    ultimately show ?thesis using below [of v] Suc.prems(8) by simp
  next
    case (Some lay)
    then have so: "step_ok w ?s (steps_view w m n)" using Suc.prems(1) by simp
    then have so1: "step_ok w1 ?s (steps_view w m n)" "step_layer w1 ?s = Some lay"
      using Some by (simp_all add: step_ok_def f1)
    have ns: "no_short w1" and cf1: "cf + cl \<le> 2 ^ bl_slog w1"
      using Suc.prems(3,7) l(1) by (simp_all add: f1 read_step_no_short)
    note pr = b_probe_snapshot [OF so1(2,1) zero_less_Suc ns cf1 p]
    let ?get = "layer_get (bl_slog w) lay"
    define bl where "bl = (case steps_view w m n of None \<Rightarrow> [] | Some bs \<Rightarrow> bs)"
    from Suc.prems(2) Some obtain N where N: "layer_size (fst lay) = Some N"
      "v = overlay ?BL N ?get bl" by (auto simp: bl_def)
    have ok: "layer_ok (bl_slog w) lay" and cov: "covered ?BL N ?get bl"
      using so Some N(1) by (simp_all add: step_ok_def layer_wf_def bl_def)
    have len: "b * ?BL + cf + cl \<le> N" using Suc.prems(8) N(2) by simp
    have st: "read_step w (w2\<lparr>mflocks := T0\<rparr>)"
      using l(1) pr(1) read_step_mflocks by (blast intro: read_step_trans)
    from pr(2) consider (err) e where "r = Inl e"
      | (ok) "r = Inr (map_option (\<lambda>blk. read_at blk cl cf) (?get b))"
      by (auto simp: f1)
    then show ?thesis
    proof cases
      case err
      with eq st pr(3) l(2) show ?thesis by auto
    next
      case ok': ok
      show ?thesis
      proof (cases "?get b")
        case (Some blk)
        with ok' eq st slice_saved [OF ok Some Suc.prems(7) len] N(2) show ?thesis by simp
      next
        case None
        have lb: "b * ?BL + cf + cl \<le> length bl"
          by (rule covered_slice [OF cov None Suc.prems(7) len Suc.prems(6)])
        then obtain v' where v': "steps_view w m n = Some v'" "bl = v'"
          using Suc.prems(6) by (cases "steps_view w m n") (auto simp: bl_def)
        show ?thesis
        proof (rule below [OF _ pr(1) v'(1)])
          show "r = Inr None" using ok' None by simp
          show "b * ?BL + cf + cl \<le> length v'" using lb v'(2) by simp
          show "read_at v' cl (b * ?BL + cf) = read_at v cl (b * ?BL + cf)"
            using slice_below [OF None Suc.prems(7) len lb] N(2) v'(2) by simp
        qed
      qed
    qed
  qed
qed


section \<open>All blocks\<close>

lemma read_at_add: "read_at v (a + b) p = read_at v a p @ read_at v b (p + a)"
  by (simp add: read_at_def take_add add.commute)

lemma write_at_append:
  "write_at (write_at buf xs c) ys (c + length xs) = write_at buf (xs @ ys) c"
proof (cases "xs = [] \<or> ys = []")
  case False
  have l: "length (write_at (write_at buf xs c) ys (c + length xs)) = length (write_at buf (xs @ ys) c)"
    using False by simp
  show ?thesis
  proof (rule nth_equalityI [OF l])
    fix i assume "i < length (write_at (write_at buf xs c) ys (c + length xs))"
    then show "write_at (write_at buf xs c) ys (c + length xs) ! i = write_at buf (xs @ ys) c ! i"
      using l False by (auto simp: nth_write_at nth_append)
  qed
qed auto

lemma b_read_blocks_step:
  assumes "steps_ok w m n" and "steps_view w m n = Some v" and "no_short w"
    and "lock_free (mfd_locklabel m) (mflocks w)" and "sn_first_file m = int n"
    and "off + sz \<le> length v" and "bl_slog w = s"
    and "k = 0 \<Longrightarrow> ct = sz"
    and "k > 0 \<Longrightarrow> bo + k = (off + sz - 1) div 2 ^ s + 1 \<and> bo * 2 ^ s \<le> off + ct
      \<and> off + ct < (bo + 1) * 2 ^ s \<and> ct < sz \<and> (0 < ct \<longrightarrow> off + ct = bo * 2 ^ s)"
  shows "\<exists>ret buf' w'. b_read_blocks m off sz k bo ct buf w = Some ((ret, buf'), w')
    \<and> read_step w w' \<and> mflocks w' = mflocks w
    \<and> (\<forall>q. ret = Inr q \<longrightarrow> q = sz \<and> buf' = write_at buf (read_at v (sz - ct) (off + ct)) ct)
    \<and> (fates w = [] \<longrightarrow> ret = Inr sz)"
  using assms
proof (induction k arbitrary: bo ct buf w)
  case 0
  then show ?case by (simp add: read_at_def)
next
  case (Suc k)
  let ?BL = "2 ^ s :: nat"
  from Suc.prems(9) have e: "bo + Suc k = (off + sz - 1) div ?BL + 1" and lo: "bo * ?BL \<le> off + ct"
    and hi: "off + ct < (bo + 1) * ?BL" and ct: "ct < sz" and c0: "0 < ct \<Longrightarrow> off + ct = bo * ?BL"
    by auto
  define cf where "cf = copy_from s off bo ct"
  define cl where "cl = copy_length s off sz (Suc k) bo ct"
  have cf: "bo * ?BL + cf = off + ct"
    using lo c0 by (cases "ct = 0") (auto simp: cf_def copy_from_def push_bit_eq_mult)
  have last: "k = 0 \<Longrightarrow> off + sz \<le> (bo + 1) * ?BL" and more: "k > 0 \<Longrightarrow> (bo + 1) * ?BL < off + sz"
  proof -
    show "off + sz \<le> (bo + 1) * ?BL" if "k = 0"
    proof -
      have "(off + sz - 1) div ?BL < bo + 1" using e that by simp
      then have "off + sz - 1 < (bo + 1) * ?BL" by (simp add: div_less_iff_less_mult)
      then show ?thesis by linarith
    qed
    show "(bo + 1) * ?BL < off + sz" if "k > 0"
    proof -
      have "bo + 1 \<le> (off + sz - 1) div ?BL" using e that by simp
      then have "(bo + 1) * ?BL \<le> off + sz - 1" by (simp add: less_eq_div_iff_mult_less_eq)
      then show ?thesis using ct by linarith
    qed
  qed
  have cl: "off + ct + cl = (if k = 0 then off + sz else (bo + 1) * ?BL)"
  proof (cases "k = 0")
    case True
    then have "cl = ?BL - cf - ((bo + 1) * ?BL - off - sz)"
      by (simp add: cl_def copy_length_def cf_def push_bit_eq_mult Let_def)
    then show ?thesis using True cf last hi ct by simp
  next
    case False
    then have "cl = ?BL - cf" by (simp add: cl_def copy_length_def cf_def)
    then show ?thesis using False cf hi by simp
  qed
  have bounds: "0 < cl" "cf + cl \<le> ?BL" "bo * ?BL + cf + cl \<le> length v" "cl \<le> sz - ct"
    using cl cf hi ct last more Suc.prems(6) by (auto split: if_splits) 
  have lk: "lock_opt (self w) (mfd_locklabel m) (mflocks w) None (mflocks w)"
    by (simp add: lock_opt_def)
  have b2: "cf + cl \<le> 2 ^ bl_slog w" "bo * 2 ^ bl_slog w + cf + cl \<le> length v"
    and pos: "bo * 2 ^ bl_slog w + cf = off + ct"
    using bounds(2,3) cf Suc.prems(7) by simp_all
  obtain r w1 where r: "b_search m bo cf cl (Suc n) None w = Some (r, w1)" "read_step w w1"
    "mflocks w1 = mflocks w" "r = Inr (Some (read_at v cl (off + ct))) \<or> (\<exists>e. r = Inl (Inl e))"
    "fates w = [] \<longrightarrow> r = Inr (Some (read_at v cl (off + ct)))"
    using b_search_step [OF Suc.prems(1,2,3,4) lk bounds(1) b2, unfolded pos] by blast
  have n: "nat (sn_first_file m + 1) = Suc n" using Suc.prems(5) by simp
  have eq: "b_read_blocks m off sz (Suc k) bo ct buf w =
    (case r of
       Inl ret \<Rightarrow> Some ((ret, buf), w1)
     | Inr found \<Rightarrow> b_read_blocks m off sz k (bo + 1) (ct + cl)
         (case found of None \<Rightarrow> buf | Some bs \<Rightarrow> write_at buf bs ct) w1)"
    using r(1)
    by (simp add: Let_def Suc.prems(7) n cf_def [symmetric] cl_def [symmetric] del: b_search.simps)
  from r(4) show ?case
  proof (elim disjE exE)
    fix e assume "r = Inl (Inl e)"
    with eq r(2,3,5) show ?thesis by auto
  next
    assume r1: "r = Inr (Some (read_at v cl (off + ct)))"
    let ?bs = "read_at v cl (off + ct)"
    note f1 = read_step_fields [OF r(2)] read_step_views [OF r(2)]
    have "\<exists>ret buf' w'. b_read_blocks m off sz k (bo + 1) (ct + cl) (write_at buf ?bs ct) w1 = Some ((ret, buf'), w')
      \<and> read_step w1 w' \<and> mflocks w' = mflocks w1
      \<and> (\<forall>q. ret = Inr q \<longrightarrow> q = sz \<and>
            buf' = write_at (write_at buf ?bs ct) (read_at v (sz - (ct + cl)) (off + (ct + cl))) (ct + cl))
      \<and> (fates w1 = [] \<longrightarrow> ret = Inr sz)"
    proof (rule Suc.IH)
      show "k = 0 \<Longrightarrow> ct + cl = sz" using cl by simp
      show "(bo + 1) + k = (off + sz - 1) div ?BL + 1 \<and> (bo + 1) * ?BL \<le> off + (ct + cl)
        \<and> off + (ct + cl) < (bo + 1 + 1) * ?BL \<and> ct + cl < sz
        \<and> (0 < ct + cl \<longrightarrow> off + (ct + cl) = (bo + 1) * ?BL)" if "k > 0"
        using e cl more that by (simp add: add.assoc [symmetric])
    qed (use Suc.prems r in \<open>simp_all add: f1 read_step_no_short\<close>)
    then obtain ret buf' w' where
      rest: "b_read_blocks m off sz k (bo + 1) (ct + cl) (write_at buf ?bs ct) w1 = Some ((ret, buf'), w')"
      "read_step w1 w'" "mflocks w' = mflocks w1" "fates w1 = [] \<longrightarrow> ret = Inr sz"
      "\<And>q. ret = Inr q \<Longrightarrow> q = sz \<and>
            buf' = write_at (write_at buf ?bs ct) (read_at v (sz - (ct + cl)) (off + (ct + cl))) (ct + cl)"
      by blast
    have len: "length ?bs = cl" using bounds(3) cf by simp
    have "read_at v (sz - ct) (off + ct) = ?bs @ read_at v (sz - (ct + cl)) (off + (ct + cl))"
      using read_at_add [of v cl "sz - (ct + cl)" "off + ct"] bounds(4) ct by (simp add: add.assoc)
    then have "write_at (write_at buf ?bs ct) (read_at v (sz - (ct + cl)) (off + (ct + cl))) (ct + cl)
      = write_at buf (read_at v (sz - ct) (off + ct)) ct"
      using write_at_append [of buf ?bs ct] len by simp
    then have buf: "\<forall>q. ret = Inr q \<longrightarrow> q = sz \<and> buf' = write_at buf (read_at v (sz - ct) (off + ct)) ct"
      using rest(5) by metis
    have "b_read_blocks m off sz (Suc k) bo ct buf w = Some ((ret, buf'), w')"
      unfolding eq using r1 rest(1) by simp
    moreover have "fates w = [] \<longrightarrow> ret = Inr sz" using rest(4) read_step_no_fates [OF r(2)] by blast
    moreover have "mflocks w' = mflocks w" using rest(3) r(3) by simp
    ultimately show ?thesis using buf read_step_trans [OF r(2) rest(2)] by blast
  qed
qed

lemma b_read_step:
  assumes "steps_ok w m n" and "steps_view w m n = Some v" and "no_short w"
    and "lock_free (mfd_locklabel m) (mflocks w)" and "sn_first_file m = int n"
    and "sn_size m = length v"
  shows "\<exists>ret buf' w'. b_read buf m sz off w = Some ((ret, buf'), w')
    \<and> read_step w w' \<and> mflocks w' = mflocks w
    \<and> (\<forall>q. ret = Inr q \<longrightarrow> q = length (read_at v sz off) \<and> buf' = write_at buf (read_at v sz off) 0)
    \<and> (fates w = [] \<longrightarrow> ret = Inr (length (read_at v sz off)))"
proof (cases "sz = 0 \<or> off \<ge> length v")
  case True
  then have "b_read buf m sz off w = Some ((Inr 0, buf), w)"
    using assms(6) by (cases "sz = 0") (auto simp: b_read_def Let_def)
  with True show ?thesis by (auto simp: read_at_def)
next
  case False
  define sz' where "sz' = (if off + sz > length v then length v - off else sz)"
  have sz': "0 < sz'" "off + sz' \<le> length v" "read_at v sz off = read_at v sz' off"
    using False by (auto simp: sz'_def read_at_def)
  obtain b k where bk: "b_calc_blocks (bl_slog w) off sz' = (b, k)" by fastforce
  then have b: "b = off div 2 ^ bl_slog w" and k: "k = (sz' + off mod 2 ^ bl_slog w - 1) div 2 ^ bl_slog w + 1"
    by (simp_all add: b_calc_blocks_eq)
  have eq: "b_read buf m sz off w = b_read_blocks m off sz' k b 0 buf w"
    using False assms(6) bk by (auto simp: b_read_def Let_def sz'_def [symmetric])
  have "b + k = (off + sz' - 1) div 2 ^ bl_slog w + 1"
  proof -
    have "off + sz' - 1 = (sz' + off mod 2 ^ bl_slog w - 1) + b * 2 ^ bl_slog w"
      using sz'(1) div_mult_mod_eq [of off "2 ^ bl_slog w", folded b] by linarith
    then show ?thesis using k by simp
  qed
  moreover have "b * 2 ^ bl_slog w \<le> off" "off < (b + 1) * 2 ^ bl_slog w"
    using b div_mult_mod_eq [of off "2 ^ bl_slog w"] by (simp_all add: dividend_less_div_times)
  ultimately have "\<exists>ret buf' w'. b_read_blocks m off sz' k b 0 buf w = Some ((ret, buf'), w')
    \<and> read_step w w' \<and> mflocks w' = mflocks w
    \<and> (\<forall>q. ret = Inr q \<longrightarrow> q = sz' \<and> buf' = write_at buf (read_at v (sz' - 0) (off + 0)) 0)
    \<and> (fates w = [] \<longrightarrow> ret = Inr sz')"
    using sz' k by (intro b_read_blocks_step [OF assms(1,2,3,4,5)]) auto
  then show ?thesis using eq sz' by simp
qed


section \<open>The read handler\<close>

lemma read_step_frame: "read_step w w' \<Longrightarrow> frame {} w w'"
  by (auto simp: read_step_def)

lemma map_header_append: "mapheader_wf h \<Longrightarrow> map_header (mapheader_bytes h @ rest) = h"
  using bytes_mapheader_bytes [of h "[]"] by (simp add: map_header_def read_at_def)

lemma ptr_at_one: "ptr_at (mapheader_bytes h @ le_bytes 8 q) b = (if b = 0 then q mod 256 ^ 8 else 0)"
proof (cases "b = 0")
  case True
  then show ?thesis by (simp add: ptr_at_def read_at_def BLP_S_def)
next
  case False
  then have "length (mapheader_bytes h @ le_bytes 8 q) \<le> MAPHEADER_S + b * BLP_S"
    by (simp add: BLP_S_def)
  from le_nat_Nil_or_0 [OF this] False show ?thesis by simp
qed

lemma rdemo_facts:
  "steps_ok rdemo rdemo_mfd 1" "steps_view rdemo rdemo_mfd 1 = Some [1, 2, 3, 4, 5, 6, 7, 8, 9, 10]"
proof -
  have wf: "mapheader_wf demo_header"
    by (simp add: mapheader_wf_def demo_header_def ESFS_SIGNATURE_def)
  let ?mb = "mapheader_bytes demo_header @ le_bytes 8 1"
  have d: "fd_data rdemo 0 = [91, 92, 93, 94, 5, 6, 7, 8, 9, 10]" "fd_data rdemo 1 = ?mb"
    "fd_data rdemo 2 = [1, 2, 3, 4]" "bl_slog rdemo = 2"
    "reads rdemo 0" "reads rdemo 1" "reads rdemo 2"
    by (simp_all add: fd_data_def reads_def fd_view_def get_fd_def fdata_def rdemo_def demo_inode_def
        readable_def is_dir_def S_ISDIR_def demo_def world0_def)
  have sz: "layer_size ?mb = Some 10"
    by (simp add: layer_size_def map_header_append [OF wf]) (simp add: demo_header_def)
  have ly: "step_layer rdemo (sn_steps rdemo_mfd ! 1) = Some (?mb, [1, 2, 3, 4])"
    by (simp add: step_layer_def rdemo_mfd_def d)
  have get: "layer_get 2 (?mb, [1, 2, 3, 4]) b = (if b = 0 then Some [1, 2, 3, 4] else None)" for b
    by (simp add: layer_get_def ptr_at_one read_at_def)
  have ok: "layer_ok 2 (?mb, [1, 2, 3, 4])"
    by (simp add: layer_ok_def ptr_at_one MAPHEADER_S_def BLP_S_def)
  have v0: "steps_view rdemo rdemo_mfd 0 = Some [91, 92, 93, 94, 5, 6, 7, 8, 9, 10]"
    by (simp add: d rdemo_mfd_def)
  have "layer_wf 2 (?mb, [1, 2, 3, 4]) (steps_view rdemo rdemo_mfd 0)"
    unfolding v0 using ok sz by (simp add: layer_wf_def covered_def)
  moreover have "reads rdemo (step_mapfd (sn_steps rdemo_mfd ! 1))"
    "reads rdemo (step_datfd (sn_steps rdemo_mfd ! 1))" "reads rdemo (step_datfd (sn_steps rdemo_mfd ! 0))"
    by (simp_all add: rdemo_mfd_def d)
  ultimately show "steps_ok rdemo rdemo_mfd 1" using ly by (simp add: step_ok_def d)
  show "steps_view rdemo rdemo_mfd 1 = Some [1, 2, 3, 4, 5, 6, 7, 8, 9, 10]"
    unfolding One_nat_def steps_view.simps(2) ly [unfolded One_nat_def] v0 d(4) layer_view.simps
      fst_conv sz [unfolded One_nat_def]
    by (simp add: overlay_def overlay_byte_def get [unfolded One_nat_def] upt_rec)
qed

lemma read_op_snap:
  assumes "steps_ok w m n" and "steps_view w m n = Some v" and "no_short w"
    and "lock_free (mfd_locklabel m) (mflocks w)" and "sn_first_file m = int n"
    and "sn_size m = length v" and "is_main m = Mfd_sn_full" and "mfd_sn_number m = sn_number w"
  shows "\<exists>ret buf' w'. read_op buf sz off m w = Some ((ret, buf'), w')
    \<and> frame {} w w' \<and> mflocks w' = mflocks w
    \<and> (\<forall>q. ret = Inr q \<longrightarrow> q = length (read_at v sz off) \<and> buf' = write_at buf (read_at v sz off) 0)
    \<and> (fates w = [] \<longrightarrow> ret = Inr (length (read_at v sz off)))"
proof -
  have "read_op buf sz off m w = b_read buf m sz off w"
    using assms(7,8) by (simp add: read_op_def mfd_in_sn_validate_def)
  with b_read_step [OF assms(1-6), of buf sz off] obtain ret buf' w' where
    r: "read_op buf sz off m w = Some ((ret, buf'), w')" "read_step w w'" "mflocks w' = mflocks w"
    "\<forall>q. ret = Inr q \<longrightarrow> q = length (read_at v sz off) \<and> buf' = write_at buf (read_at v sz off) 0"
    "fates w = [] \<longrightarrow> ret = Inr (length (read_at v sz off))"
    by auto
  show ?thesis using r read_step_frame [OF r(2)] by blast
qed

text \<open>
  C2: reading a file in a snapshot. When the steps of the handle describe the file with contents \<open>v\<close>,
  the handler of \<open>read\<close> returns and changes no file; if it does not fail, the buffer has the bytes of
  \<open>v\<close> in the range and their number is returned; and without faults it does not fail.
\<close>

theorem read_in_snapshot:
  assumes "steps_ok w m n" and "steps_view w m n = Some v" and "no_short w"
    and "lock_free (mfd_locklabel m) (mflocks w)" and "sn_first_file m = int n"
    and "sn_size m = length v" and "is_main m = Mfd_sn_full" and "mfd_sn_number m = sn_number w"
  shows "\<exists>ret buf' w'. read_op buf sz off m w = Some ((ret, buf'), w')
    \<and> frame {} w w' \<and> mflocks w' = mflocks w
    \<and> (\<forall>q. ret = Inr q \<longrightarrow> q = length (read_at v sz off) \<and> buf' = write_at buf (read_at v sz off) 0)
    \<and> (fates w = [] \<longrightarrow> ret = Inr (length (read_at v sz off)))"
  using assms by (rule read_op_snap)

theorem read_in_snapshot_witness:
  "\<exists>w'. read_op (replicate 6 0) 6 2 rdemo_mfd rdemo = Some ((Inr 6, [3, 4, 5, 6, 7, 8]), w')"
proof -
  let ?v = "[1, 2, 3, 4, 5, 6, 7, 8, 9, 10] :: byte list"
  have "no_short rdemo" "fates rdemo = []" "sn_first_file rdemo_mfd = int 1"
    "sn_size rdemo_mfd = length ?v" "is_main rdemo_mfd = Mfd_sn_full"
    "mfd_sn_number rdemo_mfd = sn_number rdemo"
    by (simp_all add: no_short_def rdemo_def demo_def world0_def rdemo_mfd_def demo_mfd_def demo_header_def)
  moreover have "lock_free (mfd_locklabel rdemo_mfd) (mflocks rdemo)"
    using demo_lock by (simp add: rdemo_mfd_def rdemo_def)
  ultimately obtain ret buf' w' where
    "read_op (replicate 6 0) 6 2 rdemo_mfd rdemo = Some ((ret, buf'), w')"
    "ret = Inr 6" "buf' = write_at (replicate 6 0) (read_at ?v 6 2) 0"
    using read_in_snapshot [OF rdemo_facts, of "replicate 6 0" 6 2] by auto
  then show ?thesis by (simp add: write_at_def read_at_def)
qed

end
