(* ===== verification/Isolation.thy ===== *)
theory Isolation
  imports Reading
begin

text \<open>
  Snapshots are isolated from the main space: a handle that reads the file in any snapshot, the
  latest or an earlier one, and that has the map and dat files of the latest snapshot open, finds the
  same contents before and after any sequence of writes and truncations through a handle on the main
  file. A handle opened before those files were made is not isolated; see the theory \<open>Writing\<close>.
\<close>

section \<open>Sequences of operations\<close>

datatype file_op = Write "byte list" nat | Truncate nat

definition run_op :: "file_op \<Rightarrow> mfd \<Rightarrow> world \<Rightarrow> (mfd \<times> world) option" where
  "run_op x m w =
     (case x of
        Write buf off \<Rightarrow> map_option (\<lambda>((r, m), w). (m, w)) (write_op buf off m w)
      | Truncate n \<Rightarrow> map_option (\<lambda>((r, m), w). (m, w)) (ftruncate_op n m w))"

fun run_ops :: "file_op list \<Rightarrow> mfd \<Rightarrow> world \<Rightarrow> (mfd \<times> world) option" where
  "run_ops [] m w = Some (m, w)"
| "run_ops (x # xs) m w = do { (m, w) \<leftarrow> run_op x m w; run_ops xs m w }"

text \<open>
  A handle that reads the file with main file \<open>i\<close>, map \<open>j\<close> and dat \<open>k\<close> in the latest snapshot, and has
  all three open: it has been opened after the map and dat files were made, when the file was first
  opened for writing since the snapshot. Its steps in earlier snapshots are other files.
\<close>

definition reads_file :: "world \<Rightarrow> mfd \<Rightarrow> nat \<Rightarrow> nat \<Rightarrow> nat \<Rightarrow> nat \<Rightarrow> bool" where
  "reads_file w rm n i j k \<longleftrightarrow>
     (\<exists>fl. fd_view w (step_datfd (sn_steps rm ! 0)) = Some (i, fl)) \<and>
     (\<exists>fl. fd_view w (step_mapfd (sn_steps rm ! 1)) = Some (j, fl)) \<and>
     (\<exists>fl. fd_view w (step_datfd (sn_steps rm ! 1)) = Some (k, fl)) \<and>
     \<not> is_dir w i \<and> \<not> is_dir w j \<and> \<not> is_dir w k \<and>
     (\<forall>x\<in>{2..n}. \<forall>y fl. fd_view w (step_mapfd (sn_steps rm ! x)) = Some (y, fl)
        \<or> fd_view w (step_datfd (sn_steps rm ! x)) = Some (y, fl) \<longrightarrow> y \<noteq> i \<and> y \<noteq> j \<and> y \<noteq> k)"

section \<open>Readers and writers\<close>

lemma fd_data_frame:
  assumes "frame A w w'" and "\<And>y fl. fd_view w fd = Some (y, fl) \<Longrightarrow> y \<notin> A"
  shows "fd_data w' fd = fd_data w fd"
  using assms frame_fdata [OF assms(1)]
  by (auto simp: fd_data_def frame_fd_view [OF assms(1)] frame_is_dir [OF assms(1)] split: option.splits)

lemma reader_first_view:
  assumes "reads_file w rm n i j k"
  shows "steps_view w rm 1 = snap_file i j k w"
proof -
  obtain a b c where v: "fd_view w (step_datfd (sn_steps rm ! 0)) = Some (i, a)"
    "fd_view w (step_mapfd (sn_steps rm ! 1)) = Some (j, b)"
    "fd_view w (step_datfd (sn_steps rm ! 1)) = Some (k, c)"
    and d: "\<not> is_dir w i" "\<not> is_dir w j" "\<not> is_dir w k"
    using assms by (auto simp: reads_file_def)
  then have "\<not> step_mapfd (sn_steps rm ! 1) < 0" using fd_view_nonneg by force
  with v d show ?thesis by (simp add: snap_file_def step_layer_def fd_data_def)
qed

lemma reads_file_frame: "frame A w w' \<Longrightarrow> reads_file w' rm n i j k = reads_file w rm n i j k"
  by (simp add: reads_file_def frame_fd_view frame_is_dir)

lemma reader_view:
  assumes "reads_file w rm n i j k" and "frame {i, j, k} w w'"
    and "snap_file i j k w' = snap_file i j k w" and "1 \<le> n"
  shows "steps_view w' rm n = steps_view w rm n"
  using assms(4,1)
proof (induction n rule: dec_induct)
  case base
  then show ?case
    using reader_first_view [OF base] reader_first_view [of w' rm 1 i j k] assms(2,3)
    by (simp add: reads_file_frame [OF assms(2)])
next
  case (step n)
  have "{2..n} \<subseteq> {2..Suc n}" by auto
  with step.prems have r: "reads_file w rm n i j k" unfolding reads_file_def by blast
  have "fd_data w' fd = fd_data w fd"
    if "fd = step_mapfd (sn_steps rm ! Suc n) \<or> fd = step_datfd (sn_steps rm ! Suc n)" for fd
  proof (rule fd_data_frame [OF assms(2)])
    fix y fl assume "fd_view w fd = Some (y, fl)"
    moreover have "Suc n \<in> {2..Suc n}" using step.hyps by simp
    ultimately show "y \<notin> {i, j, k}" using step.prems that unfolding reads_file_def by blast
  qed
  then have "step_layer w' (sn_steps rm ! Suc n) = step_layer w (sn_steps rm ! Suc n)"
    by (simp add: step_layer_def)
  with step.IH [OF r] show ?case by (simp add: frame_bl_slog [OF assms(2)])
qed

lemma run_op_step:
  assumes "cow_ok m i j k w" and "lock_free (mfd_locklabel m) (mflocks w)"
    and "mfd_sn_number m = sn_number w"
  shows "\<exists>m' w'. run_op x m w = Some (m', w') \<and> cow_ok m' i j k w'
    \<and> lock_free (mfd_locklabel m') (mflocks w') \<and> mfd_sn_number m' = sn_number w'
    \<and> frame {i, j, k} w w' \<and> snap_file i j k w' = snap_file i j k w \<and> mflocks w' = mflocks w \<and> same_handle m m'"
proof -
  have sn: "sn_number w' = sn_number w" if "frame {i, j, k} w w'" for w'
    using that by (simp add: frame_def)
  have handle: "mfd_locklabel m' = mfd_locklabel m \<and> mfd_sn_number m' = mfd_sn_number m"
    if "same_handle m m'" for m'
    using same_handle_fields [OF that] by simp
  show ?thesis
  proof (cases x)
    case (Write buf off)
    obtain r m' w' where o: "write_op buf off m w = Some ((r, m'), w')" "mflocks w' = mflocks w"
      using write_op_total [OF assms(2,3)] by blast
    note st = write_op_step [OF assms(1,3) o(1)]
    then have sh: "same_handle m m'" and fr: "frame {i, j, k} w w'" by blast+
    have "run_op x m w = Some (m', w')" using o(1) Write by (simp add: run_op_def)
    moreover have "lock_free (mfd_locklabel m') (mflocks w')" "mfd_sn_number m' = sn_number w'"
      using handle [OF sh] sn [OF fr] assms(2,3) o(2) by simp_all
    ultimately show ?thesis using st o(2) by blast
  next
    case (Truncate n)
    obtain r m' w' where o: "ftruncate_op n m w = Some ((r, m'), w')" "mflocks w' = mflocks w"
      using ftruncate_op_total [OF assms(2,3)] by blast
    note st = ftruncate_op_step [OF assms(1,3) o(1)]
    then have sh: "same_handle m m'" and fr: "frame {i, j, k} w w'" by blast+
    have "run_op x m w = Some (m', w')" using o(1) Truncate by (simp add: run_op_def)
    moreover have "lock_free (mfd_locklabel m') (mflocks w')" "mfd_sn_number m' = sn_number w'"
      using handle [OF sh] sn [OF fr] assms(2,3) o(2) by simp_all
    ultimately show ?thesis using st o(2) by blast
  qed
qed

lemma run_ops_step:
  assumes "cow_ok m i j k w" and "lock_free (mfd_locklabel m) (mflocks w)"
    and "mfd_sn_number m = sn_number w"
  shows "\<exists>m' w'. run_ops xs m w = Some (m', w') \<and> cow_ok m' i j k w'
    \<and> frame {i, j, k} w w' \<and> snap_file i j k w' = snap_file i j k w \<and> mflocks w' = mflocks w \<and> same_handle m m'"
  using assms
proof (induction xs arbitrary: m w)
  case Nil
  then show ?case by simp
next
  case (Cons x xs)
  obtain m1 w1 where one: "run_op x m w = Some (m1, w1)" "cow_ok m1 i j k w1"
    "lock_free (mfd_locklabel m1) (mflocks w1)" "mfd_sn_number m1 = sn_number w1"
    "frame {i, j, k} w w1" "snap_file i j k w1 = snap_file i j k w" "mflocks w1 = mflocks w" "same_handle m m1"
    using run_op_step [OF Cons.prems] by blast
  from Cons.IH [OF one(2,3,4)] one(1,5-8) show ?case by (auto intro: frame_trans same_handle_trans)
qed

text \<open>
  C1: isolation. For a file that was not empty when the latest snapshot was made: any sequence of
  writes and truncations through an up-to-date handle on the main file returns, keeps the invariant of
  the handle, and leaves exactly as it was what a reader of the file sees, in the latest or an earlier
  snapshot, if the reader has the map and dat files of the latest snapshot open (\<open>reads_file\<close>). System
  calls may fail, but none that succeeds transfers fewer bytes than there are (\<open>no_short\<close> in
  \<open>cow_ok\<close>). For a reader that was there before the map and dat files it does not hold.
\<close>

theorem snapshots_isolated:
  assumes "cow_ok m i j k w" and "lock_free (mfd_locklabel m) (mflocks w)"
    and "mfd_sn_number m = sn_number w" and "reads_file w rm n i j k" and "1 \<le> n"
  shows "\<exists>m' w'. run_ops xs m w = Some (m', w') \<and> cow_ok m' i j k w'
    \<and> steps_view w' rm n = steps_view w rm n"
  using run_ops_step [OF assms(1-3)] reader_view [OF assms(4) _ _ assms(5)] by blast


theorem snapshots_isolated_witness:
  "\<exists>m' w'. run_ops [Write [9, 9, 9] 2, Truncate 1, Write [8] 7] demo_mfd demo = Some (m', w')
    \<and> cow_ok m' 2 3 4 w' \<and> steps_view w' rdemo_mfd 1 = steps_view demo rdemo_mfd 1"
proof -
  have "mfd_sn_number demo_mfd = sn_number demo" by (simp add: demo_mfd_def demo_def)
  moreover have "reads_file demo rdemo_mfd 1 2 3 4"
    by (simp add: reads_file_def rdemo_mfd_def demo_def fd_view_def get_fd_def is_dir_def S_ISDIR_def demo_inode_def)
  ultimately show ?thesis
    using snapshots_isolated [OF demo_inv demo_lock] by blast
qed

end
