(* ===== verification/BlockNumbers.thy ===== *)
theory BlockNumbers
  imports Cow
begin

text \<open>
  The macro \<open>B_CALC_BLOCKS\<close> computes on 64-bit values with shifts and masks. It agrees with the
  computation on natural numbers, and the blocks it gives are exactly those that the range touches.
\<close>

lemma max_block_div:
  fixes off b B :: nat
  assumes "off div B \<le> b" and "0 < B"
  shows "max off (b * B) div B = b"
proof (cases "off div B = b")
  case True
  then show ?thesis by (auto simp: max_def)
next
  case False
  then have "off div B < b" using assms by simp
  then have "off < b * B" using assms(2) by (simp add: div_less_iff_less_mult)
  then show ?thesis using assms(2) by (simp add: max_def)
qed

lemma calc_blocks_range_iff:
  fixes off sz b s :: nat
  assumes "0 < sz"
  shows "(\<exists>p. off \<le> p \<and> p < off + sz \<and> p div 2 ^ s = b) \<longleftrightarrow>
    off div 2 ^ s \<le> b \<and> b < off div 2 ^ s + ((sz + off mod 2 ^ s - 1) div 2 ^ s + 1)"
proof -
  let ?B = "2 ^ s :: nat"
  have B: "0 < ?B" by simp
  have "off = off div ?B * ?B + off mod ?B" by (rule div_mult_mod_eq [symmetric])
  then have "off + sz - 1 = off div ?B * ?B + (sz + off mod ?B - 1)" using assms by linarith
  then have last: "(off + sz - 1) div ?B = off div ?B + (sz + off mod ?B - 1) div ?B" by simp
  show ?thesis
  proof
    assume "\<exists>p. off \<le> p \<and> p < off + sz \<and> p div ?B = b"
    then obtain p where p: "off \<le> p" "p < off + sz" "p div ?B = b" by blast
    then have "p \<le> off + sz - 1" by simp
    then show "off div ?B \<le> b \<and> b < off div ?B + ((sz + off mod ?B - 1) div ?B + 1)"
      using div_le_mono [OF p(1), of ?B] div_le_mono [of p "off + sz - 1" ?B] last p(3) by simp
  next
    assume b: "off div ?B \<le> b \<and> b < off div ?B + ((sz + off mod ?B - 1) div ?B + 1)"
    then have "b \<le> (off + sz - 1) div ?B" using last by simp
    then have "b * ?B \<le> off + sz - 1" using B by (simp add: less_eq_div_iff_mult_less_eq)
    then have "max off (b * ?B) < off + sz" using assms by auto
    with max_block_div [of off ?B b] b B
    show "\<exists>p. off \<le> p \<and> p < off + sz \<and> p div ?B = b" by (intro exI [of _ "max off (b * ?B)"]) simp
  qed
qed

lemma unat_and_mask: "s < 64 \<Longrightarrow> unat (x AND (2 ^ s - 1) :: 64 word) = unat x mod 2 ^ s"
  by (metis mask_eq_decr_exp take_bit_eq_mask take_bit_eq_mod unsigned_take_bit_eq)

text \<open>
  C20: as long as the range ends within 64 bits, the macro \<open>B_CALC_BLOCKS\<close> computed with 64-bit
  shifts and masks gives the first block and the number of blocks as they are computed with natural
  numbers, and these are exactly the blocks with a byte of the range.
\<close>

theorem calc_blocks64_exact:
  assumes "s < 64" and "0 < unat sz" and "unat off + unat sz < 2 ^ 64"
  shows "map_prod unat unat (calc_blocks64 s off sz) = b_calc_blocks s (unat off) (unat sz)
    \<and> (case b_calc_blocks s (unat off) (unat sz) of (b, n) \<Rightarrow>
         \<forall>c. (\<exists>p. unat off \<le> p \<and> p < unat off + unat sz \<and> p div 2 ^ s = c) \<longleftrightarrow> b \<le> c \<and> c < b + n)"
proof -
  let ?r = "unat off mod 2 ^ s"
  have r: "?r \<le> unat off" by simp
  have "unat sz + ?r < 2 ^ 64" using assms(3) r by linarith
  then have a: "unat (sz + (off AND (2 ^ s - 1))) = unat sz + ?r"
    using unat_and_mask [OF assms(1), of off] by (simp add: unat_word_ariths)
  then have "1 \<le> sz + (off AND (2 ^ s - 1))" using assms(2) by (simp add: word_le_nat_alt)
  then have m: "unat (sz + (off AND (2 ^ s - 1)) - 1) = unat sz + ?r - 1"
    using a by (simp add: unat_sub)
  have "(unat sz + ?r - 1) div 2 ^ s + 1 \<le> unat sz + ?r - 1 + 1" by simp
  then have "(unat sz + ?r - 1) div 2 ^ s + 1 < 2 ^ 64" using assms(2,3) r by linarith
  then have d: "unat (drop_bit s (sz + (off AND (2 ^ s - 1)) - 1) + 1) = (unat sz + ?r - 1) div 2 ^ s + 1"
    using m by (simp add: unat_word_ariths unat_drop_bit_eq drop_bit_eq_div [where 'a = nat])
  then have "map_prod unat unat (calc_blocks64 s off sz) = b_calc_blocks s (unat off) (unat sz)"
    by (simp add: calc_blocks64_def b_calc_blocks_eq unat_drop_bit_eq drop_bit_eq_div [where 'a = nat])
  then show ?thesis
    using calc_blocks_range_iff [OF assms(2), of "unat off" s] by (simp add: b_calc_blocks_eq)
qed

theorem calc_blocks64_exact_witness:
  "map_prod unat unat (calc_blocks64 17 200000 131072) = b_calc_blocks 17 200000 131072
   \<and> b_calc_blocks 17 200000 131072 = (1, 2)"
  using calc_blocks64_exact [of 17 131072 200000] by (simp add: b_calc_blocks_eq)

end
