(* ===== verification/FusePath.thy ===== *)
theory FusePath
  imports FuseFd
begin

text \<open>
  The handlers on paths: \<open>fuse_path_open.c\<close>, \<open>fuse_path_read.c\<close> and \<open>fuse_path_write.c\<close>. The handles
  that C allocates without setting all the fields have an arbitrary stat in their header, the
  parameter \<open>garbage\<close>. A handler that opens something returns the handle it puts in \<open>fi->fh\<close>.
\<close>

section \<open>Opening files\<close>

text \<open>Opens a file, saves the part that is about to be cut off, and closes it.\<close>

definition open_truncate_close ::
  "stat \<Rightarrow> string \<Rightarrow> string \<Rightarrow> nat \<Rightarrow> world \<Rightarrow> (unit res \<times> world) option" where
  "open_truncate_close garbage p fpath newsize w =
     do {
       ((ret, m), w) \<leftarrow> mfd_open_sn (mfd_garbage garbage) p (Some fpath) w;
       case ret of
         Inl e \<Rightarrow> Some (Inl e, w)
       | Inr _ \<Rightarrow>
           do {
             ((waserror, m), w) \<leftarrow>
               (if mapfd m = MFD_FD_NOSN \<or> mh_exists (mapheader m) = 0 then Some ((Inr (), m), w)
                else
                  (let (fd, w) = sys_open fpath O_RDONLY 0 w in
                   case fd of
                     Inl e \<Rightarrow> Some ((if e = ENOENT then Inr () else Inl e, m), w)
                   | Inr fd \<Rightarrow>
                       do {
                         ((r, m), w) \<leftarrow> b_truncate (m\<lparr>mainfd := fd\<rparr>) newsize False w;
                         let (_, w) = sys_close (mainfd m) w;
                         Some ((r, m), w)
                       }));
             let (c, w) = mfd_close_sn m w;
             Some (case c of Inl e \<Rightarrow> Inl e | Inr _ \<Rightarrow> waserror, w)
           }
     }"

definition open_sn :: "stat \<Rightarrow> snpath \<Rightarrow> oflags \<Rightarrow> world \<Rightarrow> (unit res \<times> mfd option) \<times> world" where
  "open_sn garbage sp flags w =
     (if flags AND O_ACCMODE \<noteq> O_RDONLY then ((Inl EACCES, None), w)
      else if is_there sp \<noteq> Snpath_full then ((Inl EACCES, None), w)
      else
        (let (ok, w) = malloc_ok w in
         if \<not> ok then ((Inl ENOMEM, None), w)
         else
           (let ((ret, m), w) = mfd_get_sn_steps (mfd_garbage garbage) sp SN_STEPS_F_FILE w in
            case ret of
              Inl e \<Rightarrow> ((Inl e, None), w)
            | Inr _ \<Rightarrow> ((Inr (), Some (m\<lparr>is_main := Mfd_sn_full\<rparr>)), w))))"

text \<open>Files are opened for reading too when they are opened for writing.\<close>

definition rdwr_flags :: "oflags \<Rightarrow> oflags" where
  "rdwr_flags flags =
     (if flags AND O_ACCMODE = O_WRONLY
      then ((flags OR O_ACCMODE) XOR O_ACCMODE) OR O_RDWR
      else flags)"

definition open_main ::
  "stat \<Rightarrow> string \<Rightarrow> string \<Rightarrow> oflags \<Rightarrow> world \<Rightarrow> ((unit res \<times> mfd option) \<times> world) option" where
  "open_main garbage p fpath flags w =
     (let (ok, w) = malloc_ok w in
      if \<not> ok then Some ((Inl ENOMEM, None), w)
      else
        do {
          ((ret, m), w) \<leftarrow>
            (if flags AND O_ACCMODE = O_RDONLY
             then Some ((Inr (), mfd_open_sn_rdonly (mfd_garbage garbage)), w)
             else mfd_open_sn (mfd_garbage garbage) p (Some fpath) w);
          case ret of
            Inl e \<Rightarrow> Some ((Inl e, None), w)
          | Inr _ \<Rightarrow>
              (let (fd, w) = sys_open fpath (rdwr_flags flags) 0 w in
               case fd of
                 Inl e \<Rightarrow> (let (_, w) = mfd_close_sn m w in Some ((Inl e, None), w))
               | Inr fd \<Rightarrow> Some ((Inr (), Some (m\<lparr>mainfd := fd, is_main := Mfd_main\<rparr>)), w))
        })"

definition open_op ::
  "stat \<Rightarrow> string \<Rightarrow> oflags \<Rightarrow> world \<Rightarrow> ((unit res \<times> mfd option) \<times> world) option" where
  "open_op garbage p flags w =
     (let (rt, w) = if_path_sn p w in
      case rt of
        Inl e \<Rightarrow> Some ((Inl e, None), w)
      | Inr (Sn_space fpath sp) \<Rightarrow> Some (open_sn garbage sp flags w)
      | Inr (Main_space fpath) \<Rightarrow> open_main garbage p fpath flags w)"

definition create_main ::
  "stat \<Rightarrow> string \<Rightarrow> string \<Rightarrow> oflags \<Rightarrow> mode \<Rightarrow> mfd \<Rightarrow> world
    \<Rightarrow> ((unit res \<times> mfd option) \<times> world) option" where
  "create_main garbage p fpath flags md m w =
     do {
       (ret, w) \<leftarrow>
         (if mapfd m \<ge> 0 \<and> mh_exists (mapheader m) = 1
          then open_truncate_close garbage p fpath 0 w
          else Some (Inr (), w));
       let (r, w) = (case ret of
                       Inl e \<Rightarrow> (Inl e, w)
                     | Inr _ \<Rightarrow> sys_open fpath (flags OR O_CREAT OR O_TRUNC) md w);
       case r of
         Inl e \<Rightarrow> (let (_, w) = mfd_close_sn m w in Some ((Inl e, None), w))
       | Inr fd \<Rightarrow> Some ((Inr (), Some (m\<lparr>mainfd := fd, is_main := Mfd_main\<rparr>)), w)
     }"

definition create_op ::
  "stat \<Rightarrow> string \<Rightarrow> mode \<Rightarrow> oflags \<Rightarrow> world \<Rightarrow> ((unit res \<times> mfd option) \<times> world) option" where
  "create_op garbage p md flags w =
     (case if_path_main_only p w of
        Inl e \<Rightarrow> Some ((Inl e, None), w)
      | Inr fpath \<Rightarrow>
          (let (ok, w) = malloc_ok w in
           if \<not> ok then Some ((Inl ENOMEM, None), w)
           else
             do {
               ((ret, m), w) \<leftarrow> mfd_open_sn (mfd_garbage garbage) p (Some fpath) w;
               case ret of
                 Inl e \<Rightarrow> Some ((Inl e, None), w)
               | Inr _ \<Rightarrow> create_main garbage p fpath flags md m w
             }))"

section \<open>Opening directories\<close>

definition opendir_sn ::
  "stat \<Rightarrow> string \<Rightarrow> snpath \<Rightarrow> world \<Rightarrow> (unit res \<times> mfd option) \<times> world" where
  "opendir_sn garbage fpath sp w =
     (let (ok, w) = malloc_ok w; m = mfd_garbage garbage in
      if \<not> ok then ((Inl ENOMEM, None), w)
      else if is_there sp = Snpath_root then
        (let (d, w) = sys_opendir fpath w in
         case d of
           Inl e \<Rightarrow> ((Inl ENOMEM, None), w)
         | Inr d \<Rightarrow> ((Inr (), Some (m\<lparr>maindir := d, is_main := Mfd_sn_root\<rparr>)), w))
      else
        (let ((ret, m), w) = mfd_get_sn_steps m sp SN_STEPS_F_DIR w in
         case ret of
           Inl e \<Rightarrow> ((Inl e, None), w)
         | Inr _ \<Rightarrow>
             if sn_first_file m = -1 then
               (let (r, w) = mfd_destroy_sn_steps m w
                in ((case r of Inl e \<Rightarrow> Inl e | Inr _ \<Rightarrow> Inl ENOENT, None), w))
             else
               ((Inr (), Some (m\<lparr>is_main := (if is_there sp = Snpath_full then Mfd_sn_full
                                            else Mfd_sn_id)\<rparr>)), w)))"

definition opendir_op :: "stat \<Rightarrow> string \<Rightarrow> world \<Rightarrow> (unit res \<times> mfd option) \<times> world" where
  "opendir_op garbage p w =
     (let (rt, w) = if_path_sn p w in
      case rt of
        Inl e \<Rightarrow> ((Inl e, None), w)
      | Inr (Sn_space fpath sp) \<Rightarrow> opendir_sn garbage fpath sp w
      | Inr (Main_space fpath) \<Rightarrow>
          (let (ok, w) = malloc_ok w in
           if \<not> ok then ((Inl ENOMEM, None), w)
           else
             (let (d, w) = sys_opendir fpath w in
              case d of
                Inl e \<Rightarrow> ((Inl e, None), w)
              | Inr d \<Rightarrow>
                  ((Inr (), Some ((mfd_garbage garbage)\<lparr>maindir := d, is_main := Mfd_main\<rparr>)), w))))"

section \<open>Attributes and permissions\<close>

abbreviation (input) "GETATTR_FLAGS \<equiv> SN_STEPS_F_TYPE_UNKNOWN OR SN_STEPS_F_FIRSTONLY
  OR SN_STEPS_F_SKIPOPENDAT OR SN_STEPS_F_SKIPOPENDIR"

definition not_found :: "mfd \<Rightarrow> bool" where
  "not_found m \<longleftrightarrow> sn_first_file m = -1 \<or> (sn_first_file m > 0 \<and> mh_exists (mapheader m) = 0)"

definition getattr_op :: "stat \<Rightarrow> string \<Rightarrow> world \<Rightarrow> stat res \<times> world" where
  "getattr_op garbage p w =
     (let (rt, w) = if_path_sn p w in
      case rt of
        Inl e \<Rightarrow> (Inl e, w)
      | Inr (Main_space fpath) \<Rightarrow> sys_lstat fpath w
      | Inr (Sn_space fpath sp) \<Rightarrow>
          if is_there sp \<noteq> Snpath_full then sys_lstat fpath w
          else
            (let ((ret, m), w) = mfd_get_sn_steps (mfd_garbage garbage) sp GETATTR_FLAGS w in
             case ret of
               Inl e \<Rightarrow> (Inl e, w)
             | Inr _ \<Rightarrow>
                 (let snret = (if not_found m then Inl ENOENT else Inr (mh_fstat (mapheader m)));
                      (c, w) = mfd_destroy_sn_steps m w
                  in (case snret of
                        Inl e \<Rightarrow> Inl e
                      | Inr st \<Rightarrow> (case c of Inl e \<Rightarrow> Inl e | Inr _ \<Rightarrow> Inr st), w))))"

abbreviation (input) "F_OK \<equiv> 0 :: 32 word"
abbreviation (input) "X_OK \<equiv> 1 :: 32 word"
abbreviation (input) "W_OK \<equiv> 2 :: 32 word"
abbreviation (input) "R_OK \<equiv> 4 :: 32 word"

text \<open>The process is not set-user-ID: \<open>getuid\<close> and \<open>geteuid\<close> agree.\<close>

definition access_check :: "mfd \<Rightarrow> 32 word \<Rightarrow> 32 word \<Rightarrow> unit res" where
  "access_check m amask uid =
     (let md = st_mode (mh_fstat (mapheader m));
          denied = (\<lambda>r x. amask AND R_OK \<noteq> 0 \<and> r AND md = 0 \<or> amask AND X_OK \<noteq> 0 \<and> x AND md = 0) in
      if not_found m then Inl ENOENT
      else if amask = F_OK then Inr ()
      else if amask AND W_OK \<noteq> 0 then Inl EACCES
      else if uid \<noteq> 0 \<and> (if uid = st_uid (mh_fstat (mapheader m)) then denied S_IRUSR S_IXUSR
                         else denied S_IROTH S_IXOTH)
      then Inl EACCES
      else Inr ())"

definition access_op :: "stat \<Rightarrow> string \<Rightarrow> 32 word \<Rightarrow> world \<Rightarrow> unit res \<times> world" where
  "access_op garbage p amask w =
     (let (rt, w) = if_path_sn p w in
      case rt of
        Inl e \<Rightarrow> (Inl e, w)
      | Inr (Main_space fpath) \<Rightarrow> sys_lookup fpath w
      | Inr (Sn_space fpath sp) \<Rightarrow>
          if is_there sp \<noteq> Snpath_full then sys_lookup fpath w
          else
            (let ((ret, m), w) = mfd_get_sn_steps (mfd_garbage garbage) sp GETATTR_FLAGS w in
             case ret of
               Inl e \<Rightarrow> (Inl e, w)
             | Inr _ \<Rightarrow>
                 (let snret = access_check m amask (euid w); (c, w) = mfd_destroy_sn_steps m w
                  in (case snret of Inl e \<Rightarrow> Inl e | Inr _ \<Rightarrow> c, w))))"

section \<open>Changing the tree\<close>

definition mkdir_op :: "stat \<Rightarrow> string \<Rightarrow> mode \<Rightarrow> world \<Rightarrow> (unit res \<times> world) option" where
  "mkdir_op garbage p md w =
     (let (rt, w) = if_path_sn p w in
      case rt of
        Inl e \<Rightarrow> Some (Inl e, w)
      | Inr (Sn_space fpath sp) \<Rightarrow>
          if is_there sp \<noteq> Snpath_id then Some (Inl EFAULT, w)
          else (let (r, w) = sn_create fpath w
                in Some (case r of Inl e \<Rightarrow> Inl EIO | Inr _ \<Rightarrow> Inr (), w))
      | Inr (Main_space fpath) \<Rightarrow>
          do {
            (r, w) \<leftarrow> mfd_init_sn garbage p fpath w;
            case r of
              Inl e \<Rightarrow> Some (Inl e, w)
            | Inr _ \<Rightarrow> Some (sys_mkdir fpath md w)
          })"

definition rmdir_op :: "string \<Rightarrow> world \<Rightarrow> (unit res \<times> world) option" where
  "rmdir_op p w =
     (let (rt, w) = if_path_sn p w in
      case rt of
        Inl e \<Rightarrow> Some (Inl e, w)
      | Inr (Sn_space fpath sp) \<Rightarrow>
          if is_there sp \<noteq> Snpath_root then Some (Inl EFAULT, w) else sn_destroy w
      | Inr (Main_space fpath) \<Rightarrow> Some (sys_rmdir fpath w))"

definition chmod_op :: "stat \<Rightarrow> string \<Rightarrow> mode \<Rightarrow> world \<Rightarrow> (unit res \<times> world) option" where
  "chmod_op garbage p md w =
     (case if_path_main_only p w of
        Inl e \<Rightarrow> Some (Inl e, w)
      | Inr fpath \<Rightarrow>
          do {
            (r, w) \<leftarrow> mfd_init_sn garbage p fpath w;
            case r of Inl e \<Rightarrow> Some (Inl e, w) | Inr _ \<Rightarrow> Some (sys_chmod fpath md w)
          })"

definition chown_op :: "stat \<Rightarrow> string \<Rightarrow> 32 word \<Rightarrow> 32 word \<Rightarrow> world \<Rightarrow> (unit res \<times> world) option"
where
  "chown_op garbage p uid gid w =
     (case if_path_main_only p w of
        Inl e \<Rightarrow> Some (Inl e, w)
      | Inr fpath \<Rightarrow>
          do {
            (r, w) \<leftarrow> mfd_init_sn garbage p fpath w;
            case r of Inl e \<Rightarrow> Some (Inl e, w) | Inr _ \<Rightarrow> Some (sys_chown fpath uid gid w)
          })"

definition unlink_op :: "stat \<Rightarrow> string \<Rightarrow> world \<Rightarrow> (unit res \<times> world) option" where
  "unlink_op garbage p w =
     (case if_path_main_only p w of
        Inl e \<Rightarrow> Some (Inl e, w)
      | Inr fpath \<Rightarrow>
          do {
            (r, w) \<leftarrow> open_truncate_close garbage p fpath 0 w;
            case r of Inl e \<Rightarrow> Some (Inl e, w) | Inr _ \<Rightarrow> Some (sys_unlink fpath w)
          })"

definition truncate_op :: "stat \<Rightarrow> string \<Rightarrow> nat \<Rightarrow> world \<Rightarrow> (unit res \<times> world) option" where
  "truncate_op garbage p newsize w =
     (case if_path_main_only p w of
        Inl e \<Rightarrow> Some (Inl e, w)
      | Inr fpath \<Rightarrow>
          do {
            (r, w) \<leftarrow> open_truncate_close garbage p fpath newsize w;
            case r of Inl e \<Rightarrow> Some (Inl e, w) | Inr _ \<Rightarrow> Some (sys_truncate fpath newsize w)
          })"

text \<open>\<open>save\<close> is the compile-time parameter \<open>SAVE_ON_UTIMENSAT\<close>.\<close>

definition utimens_op :: "bool \<Rightarrow> stat \<Rightarrow> string \<Rightarrow> world \<Rightarrow> (unit res \<times> world) option" where
  "utimens_op save garbage p w =
     (case if_path_main_only p w of
        Inl e \<Rightarrow> Some (Inl e, w)
      | Inr fpath \<Rightarrow>
          do {
            (r, w) \<leftarrow> (if save then mfd_init_sn garbage p fpath w else Some (Inr (), w));
            case r of Inl e \<Rightarrow> Some (Inl e, w) | Inr _ \<Rightarrow> Some (sys_lookup fpath w)
          })"

section \<open>Operations that are not supported\<close>

definition rename_op :: "string \<Rightarrow> string \<Rightarrow> unit res" where "rename_op p newpath = Inl ENOTSUP"
definition symlink_op :: "string \<Rightarrow> string \<Rightarrow> unit res" where "symlink_op dest p = Inl ENOTSUP"
definition link_op :: "string \<Rightarrow> string \<Rightarrow> unit res" where "link_op p newpath = Inl ENOTSUP"
definition mknod_op :: "string \<Rightarrow> mode \<Rightarrow> unit res" where "mknod_op p md = Inl ENOTSUP"
definition setxattr_op :: "string \<Rightarrow> string \<Rightarrow> unit res" where "setxattr_op p name = Inl ENOTSUP"
definition removexattr_op :: "string \<Rightarrow> string \<Rightarrow> unit res" where "removexattr_op p name = Inl ENOTSUP"
definition readlink_op :: "string \<Rightarrow> string res" where "readlink_op p = Inl ENOTSUP"
definition getxattr_op :: "string \<Rightarrow> string \<Rightarrow> nat res" where "getxattr_op p name = Inl ENOTSUP"
definition listxattr_op :: "string \<Rightarrow> nat res" where "listxattr_op p = Inl ENOTSUP"

end
