(* ===== verification/Esfs.thy ===== *)
theory Esfs
  imports FusePath
begin

text \<open>
  \<open>esfs.c\<close>: the start of the program, and the handlers on the whole file system. Parsing the path of
  the root (\<open>realpath\<close>) and opening the log file are parameters; what \<open>main\<close> does up to the call of
  \<open>fuse_main\<close> is \<open>esfs_main\<close>.
\<close>

definition statfs_op :: "string \<Rightarrow> world \<Rightarrow> unit res \<times> world" where
  "statfs_op p w =
     (case if_path_main_only p w of
        Inl e \<Rightarrow> (Inl e, w)
      | Inr fpath \<Rightarrow> sys_lookup fpath w)"

definition init_op :: "world \<Rightarrow> world" where
  "init_op w = w"

definition destroy_op :: "world \<Rightarrow> world" where
  "destroy_op w = (let (_, w) = b_destroy_block_buffer (mflock_destroy w) in w)"

text \<open>
  The arguments without the program name: root and mount point are the last two. The result is the
  list of arguments that is left for FUSE with the root taken out.
\<close>

definition parse_args :: "string list \<Rightarrow> (string \<times> bool \<times> string list) option" where
  "parse_args args =
     (if length args < 2 \<or> take 1 (args ! (length args - 2)) = ''-''
         \<or> take 1 (last args) = ''-'' then None
      else
        (let root = args ! (length args - 2);
             args = take (length args - 2) args @ [last args] in
         if length args \<ge> 2 \<and> args ! (length args - 2) = ''--local-log''
         then Some (root, True, take (length args - 2) args @ [last args])
         else Some (root, False, args)))"

definition esfs_setup :: "string \<Rightarrow> world \<Rightarrow> bool \<times> world" where
  "esfs_setup root w =
     (let w = w\<lparr>rootdir := root, rootdir_len := length root, sn_number := 0\<rparr> in
      case map_path SNDIR w of
        Inl e \<Rightarrow> (False, w)
      | Inr d \<Rightarrow>
          (let (r, w) = sn_check_dir (w\<lparr>sn_dir := d\<rparr>) in
           if r \<noteq> Inr 0 then (False, w)
           else
             (let (r, w) = sn_get_latest w in
              case r of
                Inl e \<Rightarrow> (False, w)
              | Inr _ \<Rightarrow>
                  (let (r, w) = b_init_block_buffer w in
                   case r of
                     Inl e \<Rightarrow> (False, w)
                   | Inr _ \<Rightarrow>
                       (let (r, w) = mflock_init w in
                        case r of Inl e \<Rightarrow> (False, w) | Inr _ \<Rightarrow> (True, w))))))"

text \<open>\<open>Inl c\<close>: the program ends with the exit code; \<open>Inr args\<close>: FUSE takes over.\<close>

definition esfs_main ::
  "(string \<Rightarrow> string option) \<Rightarrow> (bool \<Rightarrow> bool) \<Rightarrow> string list \<Rightarrow> world
    \<Rightarrow> (nat + string list) \<times> world" where
  "esfs_main realpath log_open args w =
     (if euid w = 0 then (Inl 1, w)
      else if check_params esfs_params \<noteq> 0 then (Inl 1, w)
      else if args \<noteq> [] \<and> hd args = ''-h'' then (Inl 1, w)
      else
        (case parse_args args of
           None \<Rightarrow> (Inl 1, w)
         | Some (root, local_log, args) \<Rightarrow>
             (let (ok, w) = malloc_ok w in
              if \<not> ok then (Inl 1, w)
              else
                (case realpath root of
                   None \<Rightarrow> (Inl 1, w)
                 | Some root \<Rightarrow>
                     if \<not> log_open local_log then (Inl 1, w)
                     else
                       (let (ok, w) = esfs_setup root (w\<lparr>bl_slog := BL_SLOG\<rparr>)
                        in (if ok then Inr args else Inl 1, w))))))"

end
