(* ===== verification/Tree.thy ===== *)
theory Tree
  imports Frames
begin

text \<open>
  The tree of the operating system: \<open>os_wf\<close> is its shape (no path twice, no inode under two paths,
  every parent a directory, new inodes unused), and what the system calls on paths find and do in a
  state of this shape.
\<close>

section \<open>Well-formed states\<close>

text \<open>The name of a node: one component of a path.\<close>

definition good_name :: "string \<Rightarrow> bool" where
  "good_name c \<longleftrightarrow> c \<noteq> [] \<and> CHR ''/'' \<notin> set c \<and> c \<noteq> ''.'' \<and> c \<noteq> ''..''"

definition os_wf :: "'z os_scheme \<Rightarrow> bool" where
  "os_wf w \<longleftrightarrow>
     distinct (map fst (dents w)) \<and> distinct (map snd (dents w)) \<and>
     list_all (\<lambda>e. snd e < next_ino w \<and> list_all good_name (fst e)) (dents w) \<and>
     (\<exists>r. lookup w [] = Some r \<and> is_dir w r) \<and>
     (\<forall>k i. lookup w k = Some i \<longrightarrow> k \<noteq> [] \<longrightarrow> (\<exists>d. lookup w (butlast k) = Some d \<and> is_dir w d)) \<and>
     (\<forall>fd f. get_fd w fd = Some f \<longrightarrow> of_ino f < next_ino w)"

text \<open>The contents of the file at a path; \<open>None\<close> if there is no file or it is a directory.\<close>

definition file_at :: "'z os_scheme \<Rightarrow> string list \<Rightarrow> byte list option" where
  "file_at w k =
     (case lookup w k of Some i \<Rightarrow> if is_dir w i then None else Some (fdata w i) | None \<Rightarrow> None)"

section \<open>Names and components\<close>

lemma split_slash_name: "CHR ''/'' \<notin> set c \<Longrightarrow> split_slash c = [c]"
  by (induction c) auto

lemma split_slash_good: "x \<in> set (split_slash p) \<Longrightarrow> CHR ''/'' \<notin> set x"
proof (induction p arbitrary: x)
  case (Cons c cs)
  then show ?case by (cases "split_slash cs") (auto split: if_splits)
qed simp

lemma comps_good: "list_all good_name (comps p)"
proof -
  have "list_all good_name (foldl dot_step acc xs)"
    if "list_all good_name acc" "\<forall>x\<in>set xs. CHR ''/'' \<notin> set x" for acc xs
    using that
  proof (induction xs arbitrary: acc)
    case (Cons x xs)
    have "list_all good_name (dot_step acc x)"
      using Cons.prems by (auto simp: dot_step_def good_name_def list_all_iff dest: in_set_butlastD)
    with Cons show ?case by simp
  qed simp
  then show ?thesis using split_slash_good [of _ p] by (simp add: comps_def)
qed

lemma comps_snoc: "good_name c \<Longrightarrow> comps (p @ CHR ''/'' # c) = comps p @ [c]"
  by (simp add: comps_append split_slash_name good_name_def dot_step_def)

section \<open>Looking up and walking\<close>

lemma lookup_upd [simp]:
  "lookup (w\<lparr>fates := x\<rparr>) = lookup w" "lookup (w\<lparr>inodes := ii\<rparr>) = lookup w"
  "lookup (w\<lparr>fds := y\<rparr>) = lookup w" "lookup (w\<lparr>dirs := d\<rparr>) = lookup w"
  "lookup (set_data i bs w) = lookup w" "lookup (set_pos fd n w) = lookup w"
  by (simp_all add: lookup_def fun_eq_iff)

lemma lookup_add_node: "lookup (add_node k m w) = (lookup w)(k \<mapsto> next_ino w)"
  by (auto simp: lookup_def add_node_def)

lemma map_of_filter_neq: "map_of (filter (\<lambda>e. fst e \<noteq> k) xs) = (map_of xs)(k := None)"
  by (induction xs) auto

lemma lookup_del_node: "lookup (del_node k w) = (lookup w)(k := None)"
  by (simp add: lookup_def del_node_def map_of_filter_neq fun_eq_iff)

lemma walk_Inr:
  "walk w d cs = Inr i \<longleftrightarrow> lookup w (d @ cs) = Some i
     \<and> (\<forall>j<length cs. \<exists>n. lookup w (d @ take j cs) = Some n \<and> is_dir w n)"
proof (induction cs arbitrary: d)
  case Nil
  then show ?case by (auto split: option.splits)
next
  case (Cons c cs)
  have "(\<forall>j<length (c # cs). \<exists>n. lookup w (d @ take j (c # cs)) = Some n \<and> is_dir w n)
    \<longleftrightarrow> (\<exists>n. lookup w d = Some n \<and> is_dir w n)
      \<and> (\<forall>j<length cs. \<exists>n. lookup w ((d @ [c]) @ take j cs) = Some n \<and> is_dir w n)"
    by (auto simp: less_Suc_eq_0_disj)
  with Cons.IH [of "d @ [c]"] show ?case by (auto split: option.splits)
qed

lemma walk_Inl: "walk w d cs = Inl e \<Longrightarrow> e = ENOENT \<or> e = ENOTDIR"
  by (induction cs arbitrary: d) (auto split: option.splits if_splits)

lemma walk_ENOTDIR:
  "walk w d cs = Inl ENOTDIR \<Longrightarrow> \<exists>j<length cs. \<exists>n. lookup w (d @ take j cs) = Some n \<and> \<not> is_dir w n"
proof (induction cs arbitrary: d)
  case (Cons c cs)
  show ?case
  proof (cases "\<exists>n. lookup w d = Some n \<and> \<not> is_dir w n")
    case True
    then show ?thesis by (intro exI [of _ 0]) auto
  next
    case False
    with Cons.prems have "walk w (d @ [c]) cs = Inl ENOTDIR" by (auto split: option.splits if_splits)
    from Cons.IH [OF this] obtain j n where "j < length cs" "lookup w (d @ take (Suc j) (c # cs)) = Some n"
      "\<not> is_dir w n" by auto
    then show ?thesis by (intro exI [of _ "Suc j"]) auto
  qed
qed (auto split: option.splits)

lemma os_wf_prefix:
  assumes "os_wf w" and "lookup w k = Some i" and "j < length k"
  shows "\<exists>n. lookup w (take j k) = Some n \<and> is_dir w n"
  using assms(2,3)
proof (induction k arbitrary: i rule: rev_induct)
  case (snoc x k)
  obtain d where d: "lookup w k = Some d" "is_dir w d"
    using assms(1) snoc.prems(1) by (force simp: os_wf_def)
  show ?case
  proof (cases "j = length k")
    case True
    then show ?thesis using d by simp
  next
    case False
    then show ?thesis using snoc.IH [OF d(1)] snoc.prems(2) by simp
  qed
qed simp

lemma resolve_Inr: "os_wf w \<Longrightarrow> resolve w k = Inr i \<longleftrightarrow> lookup w k = Some i"
  using os_wf_prefix [of w k i] by (auto simp: resolve_def walk_Inr)

lemma resolve_Inl: "os_wf w \<Longrightarrow> resolve w k = Inl e \<Longrightarrow> lookup w k = None \<and> (e = ENOENT \<or> e = ENOTDIR)"
  by (metis Inl_Inr_False not_None_eq resolve_Inr resolve_def walk_Inl)

lemma resolve_missing:
  assumes "os_wf w" and "lookup w k = None"
  obtains e where "resolve w k = Inl e" and "e = ENOENT \<or> e = ENOTDIR"
proof (cases "resolve w k")
  case (Inl e)
  with resolve_Inl [OF assms(1) Inl] that show ?thesis by blast
next
  case (Inr i)
  with assms show ?thesis by (simp add: resolve_Inr)
qed

lemma parent_dir_Inr:
  "os_wf w \<Longrightarrow> parent_dir w k = Inr u \<longleftrightarrow> (\<exists>d. lookup w (butlast k) = Some d \<and> is_dir w d)"
  by (auto simp: parent_dir_def resolve_Inr [symmetric] split: sum.splits if_splits)

lemma resolve_ENOENT:
  assumes "os_wf w" and "lookup w k = None" and "lookup w (butlast k) = Some d" and "is_dir w d"
  shows "resolve w k = Inl ENOENT"
proof (rule ccontr)
  assume "resolve w k \<noteq> Inl ENOENT"
  with assms(1,2) have "walk w [] k = Inl ENOTDIR"
    by (metis resolve_def resolve_missing)
  then obtain j n where j: "j < length k" "lookup w (take j k) = Some n" "\<not> is_dir w n"
    by (auto dest: walk_ENOTDIR)
  show False
  proof (cases "Suc j = length k")
    case True
    then have "j = length k - 1" by simp
    then have "take j k = butlast k" by (simp add: butlast_conv_take)
    with j(2,3) assms(3,4) show ?thesis by simp
  next
    case False
    with j(1) have "j < length (butlast k)" by simp
    from os_wf_prefix [OF assms(1,3) this] j False show ?thesis by (simp add: take_butlast)
  qed
qed

lemma lookup_inj:
  assumes "os_wf w" and "lookup w k = Some i" and "lookup w k' = Some i"
  shows "k = k'"
proof -
  have "(k, i) \<in> set (dents w)" "(k', i) \<in> set (dents w)"
    using assms(2,3) by (simp_all add: lookup_def map_of_SomeD)
  moreover have "inj_on snd (set (dents w))" using assms(1) by (simp add: os_wf_def distinct_map)
  ultimately have "(k, i) = (k', i)" by (intro inj_onD [of snd "set (dents w)"]) simp_all
  then show ?thesis by simp
qed

lemma lookup_entry:
  assumes "os_wf w" and "lookup w k = Some i"
  shows "i < next_ino w \<and> list_all good_name k"
proof -
  have "(k, i) \<in> set (dents w)" using assms(2) by (simp add: lookup_def map_of_SomeD)
  moreover have "list_all (\<lambda>e. snd e < next_ino w \<and> list_all good_name (fst e)) (dents w)"
    using assms(1) by (simp add: os_wf_def)
  ultimately show ?thesis by (auto simp: list_all_iff)
qed

lemma lookup_less: "os_wf w \<Longrightarrow> lookup w k = Some i \<Longrightarrow> i < next_ino w"
  using lookup_entry by blast

end
