(* ===== verification/Effects.thy ===== *)
theory Effects
  imports Esfs Tree
begin

text \<open>
  What the program can do to the state. A property of the state that the elementary changes keep
  (taking a fault from the schedule, changing the contents of a file, adding or removing a node of the
  tree, opening and closing descriptors, setting a field of the global data) is kept by every
  operation of the program. The locale \<open>quiet_inv\<close> shows this for the operations that take no lock,
  for properties that may speak about the lock table; \<open>state_inv\<close> for all of them.

  The shape of the tree, the constants of the running program and the lock table are instances.
\<close>

named_theorems kept \<open>operations keep the property of the locale\<close>

lemmas res_splits = prod.splits sum.splits option.splits list.splits if_splits fate.splits

section \<open>Operations that take no lock\<close>

lemma resolve_lookup: "resolve w k = Inr i \<Longrightarrow> lookup w k = Some i"
  by (simp add: resolve_def walk_Inr)

locale quiet_inv =
  fixes P :: "world \<Rightarrow> bool"
  assumes fate: "P w \<Longrightarrow> P (w\<lparr>fates := tl (fates w)\<rparr>)"
    and data: "P w \<Longrightarrow> length bs \<le> MAX_OFF \<or> length bs \<le> length (fdata w i) \<Longrightarrow> P (set_data i bs w)"
    and pos: "P w \<Longrightarrow> P (set_pos fd n w)"
    and mknod: "P w \<Longrightarrow> resolve w (comps p) = Inl ENOENT \<Longrightarrow> parent_dir w (comps p) = Inr () \<Longrightarrow>
      P (add_node (comps p) md w)"
    and rmnod: "P w \<Longrightarrow> resolve w k = Inr i \<Longrightarrow> k \<noteq> [] \<or> \<not> is_dir w i \<Longrightarrow>
      is_dir w i \<longrightarrow> children w k = [] \<Longrightarrow> P (del_node k w)"
    and open_fd: "P w \<Longrightarrow> lookup w k = Some i \<Longrightarrow> P (snd (alloc_fd i fl w))"
    and close_fd: "P w \<Longrightarrow> P (w\<lparr>fds := (fds w)[n := None]\<rparr>)"
    and stream: "P w \<Longrightarrow> P (w\<lparr>dirs := ds\<rparr>)"
    and mode: "P w \<Longrightarrow> P (w\<lparr>inodes := (inodes w)(i := (inodes w i)\<lparr>i_mode :=
      (i_mode (inodes w i) AND S_IFMT) OR (md AND NOT S_IFMT)\<rparr>)\<rparr>)"
    and owner: "P w \<Longrightarrow> P (w\<lparr>inodes := (inodes w)(i := (inodes w i)\<lparr>i_uid := u, i_gid := g\<rparr>)\<rparr>)"
    and buffer: "P w \<Longrightarrow> P (w\<lparr>block_buffer := b\<rparr>)"
    and heap: "P w \<Longrightarrow> P (w\<lparr>heap_bufs := h\<rparr>)"
    and latest: "P w \<Longrightarrow> P (w\<lparr>sn_lat_dir := p\<rparr>)"
    and latest_len: "P w \<Longrightarrow> P (w\<lparr>sn_lat_dir_len := n\<rparr>)"
    and any_sn: "P w \<Longrightarrow> P (w\<lparr>sn_is_any := a\<rparr>)"
    and count: "P w \<Longrightarrow> P (w\<lparr>sn_number := Suc (sn_number w)\<rparr>)"
begin

lemmas upd = data pos close_fd stream mode mode [simplified] owner buffer heap latest latest_len any_sn

lemma set_latest:
  "P w \<Longrightarrow> P (w\<lparr>sn_lat_dir := p, sn_lat_dir_len := n, sn_is_any := True,
     sn_number := Suc (sn_number w)\<rparr>)"
  using count [OF any_sn [OF latest_len [OF latest]], of w True n p] by simp

lemma alloc: "alloc_fd i fl w = (r, w') \<Longrightarrow> P w \<Longrightarrow> lookup w k = Some i \<Longrightarrow> P w'"
  using open_fd [of w k i fl] by simp

lemma pop_fate_kept [kept]: "pop_fate w = (ft, w') \<Longrightarrow> P w \<Longrightarrow> P w'"
  by (auto simp: pop_fate_eq intro: fate)

lemma sys_open_kept [kept]:
  assumes "sys_open p fl md w = (r, w')" and "P w"
  shows "P w'"
proof -
  obtain ft u where u: "pop_fate w = (ft, u)" by fastforce
  let ?k = "comps p"
  have f: "P u" using u assms(2) by (rule pop_fate_kept)
  show ?thesis
  proof (cases "resolve u ?k")
    case (Inr i)
    have "P (set_data i [] u)" using f by (rule data) simp
    with assms(1) Inr f u resolve_lookup [OF Inr] show ?thesis
      by (auto simp: sys_open_def Let_def split: fate.splits if_splits elim!: alloc [where k = ?k])
  next
    case (Inl e)
    then have "P w'" if "alloc_fd (next_ino u) fl (add_node ?k m u) = (r, w')"
      "e = ENOENT" "parent_dir u ?k = Inr ()" for m
      using that f by (intro alloc [OF that(1), where k = ?k] mknod) (auto simp: lookup_add_node)
    with assms(1) Inl f u show ?thesis
      by (auto simp: sys_open_def Let_def split: fate.splits if_splits sum.splits)
  qed
qed

lemma sys_lstat_kept [kept]: "sys_lstat p w = (r, w') \<Longrightarrow> P w \<Longrightarrow> P w'"
  by (auto simp: sys_lstat_def Let_def split: res_splits
      dest!: kept intro: upd mknod rmnod)

lemma sys_mkdir_kept [kept]: "sys_mkdir p md w = (r, w') \<Longrightarrow> P w \<Longrightarrow> P w'"
  by (auto simp: sys_mkdir_def Let_def split: res_splits
      dest!: kept intro: upd mknod rmnod)

lemma sys_rmdir_kept [kept]: "sys_rmdir p w = (r, w') \<Longrightarrow> P w \<Longrightarrow> P w'"
  by (auto simp: sys_rmdir_def Let_def split: res_splits
      dest!: kept intro: upd mknod rmnod)

lemma sys_unlink_kept [kept]: "sys_unlink p w = (r, w') \<Longrightarrow> P w \<Longrightarrow> P w'"
  by (auto simp: sys_unlink_def Let_def split: res_splits
      dest!: kept intro: upd mknod rmnod)

lemma sys_truncate_kept [kept]: "sys_truncate p n w = (r, w') \<Longrightarrow> P w \<Longrightarrow> P w'"
  by (auto simp: sys_truncate_def Let_def split: res_splits
      dest!: kept intro: upd mknod rmnod)

lemma sys_chmod_kept [kept]: "sys_chmod p md w = (r, w') \<Longrightarrow> P w \<Longrightarrow> P w'"
  by (auto simp: sys_chmod_def Let_def split: res_splits
      dest!: kept intro: upd mknod rmnod)

lemma sys_lookup_kept [kept]: "sys_lookup p w = (r, w') \<Longrightarrow> P w \<Longrightarrow> P w'"
  by (auto simp: sys_lookup_def Let_def split: res_splits
      dest!: kept intro: upd mknod rmnod)

lemma sys_close_kept [kept]: "sys_close fd w = (r, w') \<Longrightarrow> P w \<Longrightarrow> P w'"
  by (auto simp: sys_close_def Let_def split: res_splits
      dest!: kept intro: upd mknod rmnod)

lemma sys_pread_kept [kept]: "sys_pread fd n off w = (r, w') \<Longrightarrow> P w \<Longrightarrow> P w'"
  by (auto simp: sys_pread_def Let_def split: res_splits
      dest!: kept intro: upd mknod rmnod)

lemma write_kept:
  assumes "P w" and "pos + length bs \<le> MAX_OFF"
  shows "P (set_data i (write_at (fdata w i) (take n bs) pos) w)"
proof (rule data [OF assms(1)])
  have "length (write_at (fdata w i) (take n bs) pos) \<le> max (length (fdata w i)) (pos + length bs)"
    by (cases "take n bs = []") auto
  then show "length (write_at (fdata w i) (take n bs) pos) \<le> MAX_OFF
    \<or> length (write_at (fdata w i) (take n bs) pos) \<le> length (fdata w i)"
    using assms(2) by linarith
qed

lemma write_all_kept:
  "P w \<Longrightarrow> pos + length bs \<le> MAX_OFF \<Longrightarrow> P (set_data i (write_at (fdata w i) bs pos) w)"
  using write_kept [of w pos bs i "length bs"] by simp

lemma sys_pwrite_kept [kept]:
  assumes "sys_pwrite fd bs off w = (r, w')" and "P w"
  shows "P w'"
proof -
  obtain ft u where u: "pop_fate w = (ft, u)" by fastforce
  have "P u" using u assms(2) by (rule pop_fate_kept)
  with assms(1) u write_kept [of u] write_all_kept [of u] show ?thesis
    by (cases "get_fd u fd") (auto simp: sys_pwrite_def Let_def split: fate.splits if_splits)
qed

lemma sys_lseek_end_kept [kept]: "sys_lseek_end fd w = (r, w') \<Longrightarrow> P w \<Longrightarrow> P w'"
  by (auto simp: sys_lseek_end_def Let_def split: res_splits
      dest!: kept intro: upd mknod rmnod)

lemma sys_ftruncate_kept [kept]: "sys_ftruncate fd n w = (r, w') \<Longrightarrow> P w \<Longrightarrow> P w'"
  by (auto simp: sys_ftruncate_def Let_def split: res_splits
      dest!: kept intro: upd mknod rmnod)

lemma sys_fstat_kept [kept]: "sys_fstat fd w = (r, w') \<Longrightarrow> P w \<Longrightarrow> P w'"
  by (auto simp: sys_fstat_def Let_def split: res_splits
      dest!: kept intro: upd mknod rmnod)

lemma sys_fsync_kept [kept]: "sys_fsync fd w = (r, w') \<Longrightarrow> P w \<Longrightarrow> P w'"
  by (auto simp: sys_fsync_def Let_def split: res_splits
      dest!: kept intro: upd mknod rmnod)

lemma sys_opendir_kept [kept]: "sys_opendir p w = (r, w') \<Longrightarrow> P w \<Longrightarrow> P w'"
  by (auto simp: sys_opendir_def Let_def split: res_splits
      dest!: kept intro: upd mknod rmnod)

lemma sys_readdir_kept [kept]: "sys_readdir d w = (r, w') \<Longrightarrow> P w \<Longrightarrow> P w'"
  by (auto simp: sys_readdir_def Let_def split: res_splits
      dest!: kept intro: upd mknod rmnod)

lemma sys_closedir_kept [kept]: "sys_closedir d w = (r, w') \<Longrightarrow> P w \<Longrightarrow> P w'"
  by (auto simp: sys_closedir_def Let_def split: res_splits
      dest!: kept intro: upd mknod rmnod)

lemma malloc_ok_kept [kept]: "malloc_ok w = (r, w') \<Longrightarrow> P w \<Longrightarrow> P w'"
  by (auto simp: malloc_ok_def Let_def split: res_splits
      dest!: kept intro: upd mknod rmnod)

lemma sys_chown_kept [kept]: "sys_chown p u g w = (r, w') \<Longrightarrow> P w \<Longrightarrow> P w'"
  by (auto simp: sys_chown_def split: prod.splits fate.splits sum.splits dest!: kept intro: owner)

lemma sys_write_kept [kept]: "sys_write fd bs w = (r, w') \<Longrightarrow> P w \<Longrightarrow> P w'"
  by (auto simp: sys_write_def Let_def split: option.splits if_splits prod.splits sum.splits
      dest!: kept intro: upd)
    (metis pop_fate_kept prod.collapse)

lemma univ_rm_kept [kept]: "univ_rm p isdir w = (r, w') \<Longrightarrow> P w \<Longrightarrow> P w'"
  by (auto simp: univ_rm_def Let_def split: res_splits
      dest!: kept)

lemma remove_nodes_kept [kept]: "remove_nodes p rels w = (r, w') \<Longrightarrow> P w \<Longrightarrow> P w'"
  by (induction rels arbitrary: w) (auto simp: Let_def split: prod.splits sum.splits dest!: kept)

lemma nftw_rm_kept [kept]: "nftw_rm p w = (r, w') \<Longrightarrow> P w \<Longrightarrow> P w'"
  by (auto simp: nftw_rm_def Let_def split: res_splits
      dest!: kept)

lemma mkpath_kept [kept]: "mkpath p fc md w = (r, w') \<Longrightarrow> P w \<Longrightarrow> P w'"
proof (induction "length p" arbitrary: p fc w r w' rule: less_induct)
  case less
  have IH: "P w'" if "strrchr p DIRSEPCH = Some n" "mkpath (take n p) fc md w = (r, w')"
    "P w" for n fc w r w'
    using that less.hyps [of "take n p"] strrchr_less [OF that(1)] by auto
  from less.prems show ?case
    by (subst (asm) mkpath.simps)
      (auto simp: Let_def split: option.splits if_splits prod.splits sum.splits
        dest!: sys_lstat_kept IH sys_mkdir_kept)
qed

lemma read_sndir_from_file_kept [kept]: "read_sndir_from_file buf p w = (r, w') \<Longrightarrow> P w \<Longrightarrow> P w'"
  by (auto simp: read_sndir_from_file_def Let_def split: res_splits
      dest!: kept)

lemma if_path_sn_kept [kept]: "if_path_sn p w = (r, w') \<Longrightarrow> P w \<Longrightarrow> P w'"
  by (auto simp: if_path_sn_def Let_def split: res_splits
      dest!: kept)

lemma sn_check_dir_kept [kept]: "sn_check_dir w = (r, w') \<Longrightarrow> P w \<Longrightarrow> P w'"
  by (auto simp: sn_check_dir_def Let_def split: res_splits
      dest!: kept)

lemma earliest_loop_kept [kept]: "earliest_loop n snp pp w = (r, w') \<Longrightarrow> P w \<Longrightarrow> P w'"
proof (induction "MAX_SNAPSHOTS - n" arbitrary: n snp pp w r w' rule: less_induct)
  case less
  define k where "k = Suc n"
  have IH: "P w'" if "earliest_loop k snp pp w = (r, w')" "n < MAX_SNAPSHOTS" "P w"
    for snp pp w r w'
    using that less.hyps [of "Suc n"] by (auto simp: k_def)
  from less.prems show ?case
    by (subst (asm) earliest_loop.simps, unfold k_def [symmetric])
      (auto simp: Let_def split: if_splits prod.splits sum.splits dest!: read_sndir_from_file_kept IH)
qed

lemma sn_get_earliest_kept [kept]: "sn_get_earliest w = (r, w') \<Longrightarrow> P w \<Longrightarrow> P w'"
  by (auto simp: sn_get_earliest_def Let_def split: res_splits
      dest!: kept)

lemma paths_loop_kept [kept]: "paths_loop root al n paths w = (r, w') \<Longrightarrow> P w \<Longrightarrow> P w'"
proof (induction "MAX_SNAPSHOTS - n" arbitrary: n al paths w r w' rule: less_induct)
  case less
  have IH: "P w'" if "paths_loop root al (Suc n) paths w = (r, w')" "\<not> Suc n \<ge> MAX_SNAPSHOTS"
    "P w" for al paths w r w'
    using that less.hyps [of "Suc n"] by auto
  from less.prems show ?case
    by (subst (asm) paths_loop.simps)
      (auto simp: Let_def split: if_splits prod.splits sum.splits
        dest!: kept IH)
qed

lemma sn_get_paths_to_kept [kept]: "sn_get_paths_to m sp w = (r, w') \<Longrightarrow> P w \<Longrightarrow> P w'"
  by (auto simp: sn_get_paths_to_def Let_def split: res_splits
      dest!: kept)

lemma sn_get_latest_kept [kept]: "sn_get_latest w = (r, w') \<Longrightarrow> P w \<Longrightarrow> P w'"
  by (auto simp: sn_get_latest_def Let_def split: res_splits
      dest!: kept intro: upd)

lemma sn_set_latest_kept [kept]: "sn_set_latest p w = (r, w') \<Longrightarrow> P w \<Longrightarrow> P w'"
  by (auto simp: sn_set_latest_def Let_def split: res_splits
      dest!: kept intro: upd set_latest)

lemma write_pointer_kept [kept]: "write_pointer fd p w = (r, w') \<Longrightarrow> P w \<Longrightarrow> P w'"
  by (auto simp: write_pointer_def Let_def split: res_splits
      dest!: kept)

lemma sn_create_body_kept [kept]: "sn_create_body p w = (r, w') \<Longrightarrow> P w \<Longrightarrow> P w'"
  by (auto simp: sn_create_body_def Let_def split: res_splits
      dest!: kept)

lemma sn_create_kept [kept]: "sn_create p w = (r, w') \<Longrightarrow> P w \<Longrightarrow> P w'"
  by (auto simp: sn_create_def Let_def split: res_splits
      dest!: kept)

lemma mfd_save_mapheader_kept [kept]: "mfd_save_mapheader m w = (r, w') \<Longrightarrow> P w \<Longrightarrow> P w'"
  by (auto simp: mfd_save_mapheader_def Let_def split: res_splits
      dest!: kept)

lemma mfd_load_mapheader_kept [kept]: "mfd_load_mapheader h fd w = (r, w') \<Longrightarrow> P w \<Longrightarrow> P w'"
  by (auto simp: mfd_load_mapheader_def Let_def split: res_splits
      dest!: kept)

lemma mfd_open_dat_file_kept [kept]: "mfd_open_dat_file m vp w = (r, w') \<Longrightarrow> P w \<Longrightarrow> P w'"
  by (auto simp: mfd_open_dat_file_def Let_def split: res_splits
      dest!: kept)

lemma mfd_new_header_kept [kept]: "mfd_new_header m p w = (r, w') \<Longrightarrow> P w \<Longrightarrow> P w'"
  by (auto simp: mfd_new_header_def Let_def split: res_splits
      dest!: kept)

lemma close_if_kept [kept]: "close_if fd e w = (r, w') \<Longrightarrow> P w \<Longrightarrow> P w'"
  by (auto simp: close_if_def Let_def split: res_splits
      dest!: kept)

lemma mfd_close_sn_kept [kept]: "mfd_close_sn m w = (r, w') \<Longrightarrow> P w \<Longrightarrow> P w'"
  by (auto simp: mfd_close_sn_def Let_def split: res_splits
      dest!: kept)

lemma close_step_kept [kept]: "close_step s e w = (r, w') \<Longrightarrow> P w \<Longrightarrow> P w'"
  by (auto simp: close_step_def Let_def split: res_splits
      dest!: kept)

lemma close_steps_kept [kept]: "close_steps ss e w = (r, w') \<Longrightarrow> P w \<Longrightarrow> P w'"
  by (induction ss arbitrary: e w) (auto simp: Let_def split: prod.splits dest!: kept)

lemma mfd_destroy_sn_steps_kept [kept]: "mfd_destroy_sn_steps m w = (r, w') \<Longrightarrow> P w \<Longrightarrow> P w'"
  by (auto simp: mfd_destroy_sn_steps_def Let_def split: res_splits
      dest!: kept)

lemma sn_known_type_kept [kept]: "sn_known_type fl p w = (r, w') \<Longrightarrow> P w \<Longrightarrow> P w'"
  by (auto simp: sn_known_type_def Let_def split: res_splits
      dest!: kept)

lemma sn_step_dir_first_kept [kept]: "sn_step_dir_first fl n kt e m w = (r, w') \<Longrightarrow> P w \<Longrightarrow> P w'"
  by (auto simp: sn_step_dir_first_def Let_def split: res_splits knowntype.splits
      dest!: kept)

lemma sn_step_dir_kept [kept]: "sn_step_dir fl n kt e m w = (r, w') \<Longrightarrow> P w \<Longrightarrow> P w'"
  by (auto simp: sn_step_dir_def Let_def split: res_splits
      dest!: kept)

lemma sn_step_dat_kept [kept]: "sn_step_dat fl n e m w = (r, w') \<Longrightarrow> P w \<Longrightarrow> P w'"
  by (auto simp: sn_step_dat_def Let_def split: res_splits
      dest!: kept)

lemma sn_step_map_kept [kept]: "sn_step_map fl n e m w = (r, w') \<Longrightarrow> P w \<Longrightarrow> P w'"
  by (auto simp: sn_step_map_def Let_def split: res_splits
      dest!: kept)

lemma sn_step_main_kept [kept]: "sn_step_main fl e m w = (r, w') \<Longrightarrow> P w \<Longrightarrow> P w'"
  by (auto simp: sn_step_main_def Let_def split: res_splits
      dest!: kept)

lemma sn_step_first_kept [kept]: "sn_step_first fl n h e m w = (r, w') \<Longrightarrow> P w \<Longrightarrow> P w'"
  by (auto simp: sn_step_first_def Let_def split: res_splits
      dest!: kept)

lemma sn_step_file_kept [kept]: "sn_step_file fl n e m w = (r, w') \<Longrightarrow> P w \<Longrightarrow> P w'"
  by (auto simp: sn_step_file_def Let_def split: res_splits
      dest!: kept)

lemma sn_step_body_kept [kept]: "sn_step_body fl p n e m w = (r, w') \<Longrightarrow> P w \<Longrightarrow> P w'"
  by (auto simp: sn_step_body_def Let_def split: res_splits knowntype.splits
      dest!: kept)

lemma sn_steps_loop_kept [kept]: "sn_steps_loop fl p n e m w = (r, w') \<Longrightarrow> P w \<Longrightarrow> P w'"
  by (induction n arbitrary: e m w) (auto simp: Let_def split: prod.splits if_splits dest!: kept)

lemma mfd_get_sn_steps_kept [kept]: "mfd_get_sn_steps m sp fl w = (r, w') \<Longrightarrow> P w \<Longrightarrow> P w'"
  by (auto simp: mfd_get_sn_steps_def Let_def simp del: sn_steps_loop.simps split: res_splits
      dest!: kept)

lemma b_read_from_kept [kept]: "b_read_from fd a n w = (r, w') \<Longrightarrow> P w \<Longrightarrow> P w'"
  by (auto simp: b_read_from_def Let_def split: res_splits
      dest!: kept)

lemma b_probe_kept [kept]: "b_probe m n b a c w = (r, w') \<Longrightarrow> P w \<Longrightarrow> P w'"
  by (auto simp: b_probe_def Let_def split: res_splits
      dest!: kept)

lemma block_read_pointer_kept [kept]: "block_read_pointer m off w = (r, w') \<Longrightarrow> P w \<Longrightarrow> P w'"
  by (auto simp: block_read_pointer_def Let_def split: res_splits
      dest!: kept)

lemma buf_put_kept [kept]: "buf_put buf bs w = (r, w') \<Longrightarrow> P w \<Longrightarrow> P w'"
  by (auto simp: buf_put_def Let_def split: res_splits bufsel.splits
      intro: upd)

lemma b_alloc_buf_kept [kept]: "b_alloc_buf l buf w = (r, w') \<Longrightarrow> P w \<Longrightarrow> P w'"
  by (auto simp: b_alloc_buf_def Let_def split: res_splits
      dest!: kept intro: upd)

lemma b_append_block_kept [kept]: "b_append_block m off blk w = (r, w') \<Longrightarrow> P w \<Longrightarrow> P w'"
  by (auto simp: b_append_block_def Let_def split: res_splits
      dest!: kept)

lemma b_save_block_kept [kept]: "b_save_block m b l buf w = (r, w') \<Longrightarrow> P w \<Longrightarrow> P w'"
  by (auto simp: b_save_block_def Let_def split: res_splits
      dest!: kept)

lemma fgetattr_op_kept [kept]: "fgetattr_op m w = (r, w') \<Longrightarrow> P w \<Longrightarrow> P w'"
  by (auto simp: fgetattr_op_def Let_def split: res_splits
      dest!: kept)

lemma sn_entry_map_kept [kept]: "sn_entry_map p name ns h w = (r, w') \<Longrightarrow> P w \<Longrightarrow> P w'"
  by (auto simp: sn_entry_map_def Let_def split: res_splits
      dest!: kept)

lemma sn_entry_kept [kept]: "sn_entry n d name ns h w = (r, w') \<Longrightarrow> P w \<Longrightarrow> P w'"
  by (auto simp: sn_entry_def Let_def split: res_splits
      dest!: kept)

lemma sn_readdir_stream_kept [kept]: "sn_readdir_stream n fil k s h ls w = (r, w') \<Longrightarrow> P w \<Longrightarrow> P w'"
proof (induction n arbitrary: ls w)
  case (Suc n)
  then show ?case
    by (auto simp: Let_def split: prod.splits sum.splits option.splits if_splits
        dest!: kept)
qed simp

lemma sn_readdir_steps_kept [kept]: "sn_readdir_steps n fil m ls w = (r, w') \<Longrightarrow> P w \<Longrightarrow> P w'"
  by (induction n arbitrary: ls w)
    (auto simp: Let_def split: prod.splits sum.splits if_splits dest!: kept)

lemma sn_readdir_kept [kept]: "sn_readdir fil m sk w = (r, w') \<Longrightarrow> P w \<Longrightarrow> P w'"
  by (auto simp: sn_readdir_def Let_def simp del: sn_readdir_steps.simps split: res_splits
      dest!: kept)

lemma main_readdir_kept [kept]: "main_readdir n fil vis d es w = (r, w') \<Longrightarrow> P w \<Longrightarrow> P w'"
  by (induction n arbitrary: es w)
    (auto simp: Let_def split: prod.splits sum.splits option.splits if_splits dest!: kept)

lemma readdir_op_kept [kept]: "readdir_op fil m w = (r, w') \<Longrightarrow> P w \<Longrightarrow> P w'"
  by (auto simp: readdir_op_def Let_def split: res_splits mfd_types.splits
      dest!: kept)

lemma release_op_kept [kept]: "release_op m w = (r, w') \<Longrightarrow> P w \<Longrightarrow> P w'"
  by (auto simp: release_op_def Let_def split: res_splits mfd_types.splits
      dest!: kept)

lemma sync_fd_kept [kept]: "sync_fd fd e w = (r, w') \<Longrightarrow> P w \<Longrightarrow> P w'"
  by (auto simp: sync_fd_def Let_def split: res_splits
      dest!: kept)

lemma fsync_op_kept [kept]: "fsync_op m w = (r, w') \<Longrightarrow> P w \<Longrightarrow> P w'"
  by (auto simp: fsync_op_def Let_def split: res_splits
      dest!: kept)

lemma releasedir_op_kept [kept]: "releasedir_op m w = (r, w') \<Longrightarrow> P w \<Longrightarrow> P w'"
  by (auto simp: releasedir_op_def Let_def split: res_splits mfd_types.splits
      dest!: kept)

lemma open_sn_kept [kept]: "open_sn g sp fl w = (r, w') \<Longrightarrow> P w \<Longrightarrow> P w'"
  by (auto simp: open_sn_def Let_def split: res_splits
      dest!: kept)

lemma opendir_sn_kept [kept]: "opendir_sn g fp sp w = (r, w') \<Longrightarrow> P w \<Longrightarrow> P w'"
  by (auto simp: opendir_sn_def Let_def split: res_splits
      dest!: kept)

lemma opendir_op_kept [kept]: "opendir_op g p w = (r, w') \<Longrightarrow> P w \<Longrightarrow> P w'"
  by (auto simp: opendir_op_def Let_def split: res_splits route.splits
      dest!: kept)

lemma getattr_op_kept [kept]: "getattr_op g p w = (r, w') \<Longrightarrow> P w \<Longrightarrow> P w'"
  by (auto simp: getattr_op_def Let_def split: res_splits route.splits
      dest!: kept)

lemma access_op_kept [kept]: "access_op g p am w = (r, w') \<Longrightarrow> P w \<Longrightarrow> P w'"
  by (auto simp: access_op_def Let_def split: res_splits route.splits
      dest!: kept)

lemma statfs_op_kept [kept]: "statfs_op p w = (r, w') \<Longrightarrow> P w \<Longrightarrow> P w'"
  by (auto simp: statfs_op_def Let_def split: res_splits
      dest!: kept)

end

section \<open>All operations\<close>

locale state_inv = quiet_inv +
  assumes locks: "P w \<Longrightarrow> length T = length (mflocks w) \<Longrightarrow> P (w\<lparr>mflocks := T\<rparr>)"
begin

lemma mflock_lock_kept [kept]: "mflock_lock lb w = Some (r, w') \<Longrightarrow> P w \<Longrightarrow> P w'"
  by (auto simp: mflock_lock_def lock_table_def upd_slot_def bind_eq_Some_conv split: option.splits if_splits
      intro!: locks)

lemma mflock_unlock_kept [kept]: "mflock_unlock i w = Some (r, w') \<Longrightarrow> P w \<Longrightarrow> P w'"
  by (auto simp: mflock_unlock_def unlock_table_def upd_slot_def bind_eq_Some_conv split: if_splits
      intro!: locks)

lemma recursive_remove_kept [kept]: "recursive_remove p w = Some (r, w') \<Longrightarrow> P w \<Longrightarrow> P w'"
  by (auto simp: recursive_remove_def Let_def split: res_splits Option.bind_splits
      dest!: kept)

lemma sn_destroy_kept [kept]: "sn_destroy w = Some (r, w') \<Longrightarrow> P w \<Longrightarrow> P w'"
  by (auto simp: sn_destroy_def Let_def split: res_splits Option.bind_splits
      dest!: kept intro: upd)

lemma mfd_open_end_kept [kept]: "mfd_open_end e m l w = Some (r, w') \<Longrightarrow> P w \<Longrightarrow> P w'"
  by (auto simp: mfd_open_end_def Let_def split: res_splits Option.bind_splits
      dest!: kept)

lemma mfd_open_old_kept [kept]: "mfd_open_old m vp fmap l w = Some (r, w') \<Longrightarrow> P w \<Longrightarrow> P w'"
  by (auto simp: mfd_open_old_def Let_def split: res_splits Option.bind_splits
      dest!: kept)

lemma mfd_open_new_kept [kept]: "mfd_open_new m vp p fmap fd l w = Some (r, w') \<Longrightarrow> P w \<Longrightarrow> P w'"
  by (auto simp: mfd_open_new_def Let_def split: res_splits Option.bind_splits
      dest!: kept)

lemma mfd_open_locked_kept [kept]: "mfd_open_locked m vp p fmap l w = Some (r, w') \<Longrightarrow> P w \<Longrightarrow> P w'"
  by (auto simp: mfd_open_locked_def Let_def split: res_splits Option.bind_splits
      dest!: kept)

lemma mfd_open_sn_kept [kept]: "mfd_open_sn m vp p w = Some (r, w') \<Longrightarrow> P w \<Longrightarrow> P w'"
  by (auto simp: mfd_open_sn_def Let_def split: res_splits Option.bind_splits
      dest!: kept)

lemma mfd_init_sn_kept [kept]: "mfd_init_sn g vp p w = Some (r, w') \<Longrightarrow> P w \<Longrightarrow> P w'"
  by (auto simp: mfd_init_sn_def Let_def split: res_splits Option.bind_splits
      dest!: kept)

lemma mfd_validate_kept [kept]: "mfd_validate m w = Some (r, w') \<Longrightarrow> P w \<Longrightarrow> P w'"
  by (auto simp: mfd_validate_def Let_def split: res_splits Option.bind_splits
      dest!: kept)

lemma b_release_kept [kept]: "b_release l e w = Some (r, w') \<Longrightarrow> P w \<Longrightarrow> P w'"
  by (auto simp: b_release_def Let_def split: res_splits Option.bind_splits
      dest!: kept)

lemma b_search_kept [kept]: "b_search m b a c n l w = Some (r, w') \<Longrightarrow> P w \<Longrightarrow> P w'"
  by (induction n arbitrary: l w)
    (auto simp: Let_def split: Option.bind_splits prod.splits if_splits sum.splits option.splits
      dest!: kept)

lemma b_read_blocks_kept [kept]: "b_read_blocks m off sz n b c buf w = Some (r, w') \<Longrightarrow> P w \<Longrightarrow> P w'"
  by (induction n arbitrary: b c buf w)
    (auto simp: Let_def split: Option.bind_splits prod.splits sum.splits dest!: kept)

lemma b_read_kept [kept]: "b_read buf m sz off w = Some (r, w') \<Longrightarrow> P w \<Longrightarrow> P w'"
  by (auto simp: b_read_def Let_def split: res_splits Option.bind_splits
      dest!: kept)

lemma b_write_block_kept [kept]: "b_write_block m b l buf w = Some (r, w') \<Longrightarrow> P w \<Longrightarrow> P w'"
  by (auto simp: b_write_block_def Let_def split: res_splits Option.bind_splits
      dest!: kept)

lemma b_write_blocks_kept [kept]: "b_write_blocks m n b l buf w = Some (r, w') \<Longrightarrow> P w \<Longrightarrow> P w'"
  by (induction n arbitrary: m b l buf w)
    (auto split: Option.bind_splits prod.splits sum.splits dest!: kept)

lemma b_write_end_kept [kept]: "b_write_end e m l buf w = Some (r, w') \<Longrightarrow> P w \<Longrightarrow> P w'"
  by (auto simp: b_write_end_def Let_def split: res_splits bufsel.splits Option.bind_splits
      dest!: kept intro: upd)

lemma b_write_kept [kept]: "b_write m sz off hl w = Some (r, w') \<Longrightarrow> P w \<Longrightarrow> P w'"
  by (auto simp: b_write_def Let_def split: res_splits Option.bind_splits
      dest!: kept)

lemma b_truncate_kept [kept]: "b_truncate m n hl w = Some (r, w') \<Longrightarrow> P w \<Longrightarrow> P w'"
  by (auto simp: b_truncate_def Let_def split: res_splits Option.bind_splits
      dest!: kept)

lemma read_op_kept [kept]: "read_op buf sz off m w = Some (r, w') \<Longrightarrow> P w \<Longrightarrow> P w'"
  by (auto simp: read_op_def Let_def split: res_splits mfd_types.splits Option.bind_splits
      dest!: kept)

lemma write_op_kept [kept]: "write_op buf off m w = Some (r, w') \<Longrightarrow> P w \<Longrightarrow> P w'"
  by (auto simp: write_op_def Let_def split: res_splits Option.bind_splits
      dest!: kept)

lemma ftruncate_op_kept [kept]: "ftruncate_op n m w = Some (r, w') \<Longrightarrow> P w \<Longrightarrow> P w'"
  by (auto simp: ftruncate_op_def Let_def split: res_splits Option.bind_splits
      dest!: kept)

lemma open_truncate_close_kept [kept]: "open_truncate_close g p fp n w = Some (r, w') \<Longrightarrow> P w \<Longrightarrow> P w'"
  by (auto simp: open_truncate_close_def Let_def split: res_splits Option.bind_splits
      dest!: kept)

lemma open_main_kept [kept]: "open_main g p fp fl w = Some (r, w') \<Longrightarrow> P w \<Longrightarrow> P w'"
  by (auto simp: open_main_def Let_def split: res_splits Option.bind_splits
      dest!: kept)

lemma open_op_kept [kept]: "open_op g p fl w = Some (r, w') \<Longrightarrow> P w \<Longrightarrow> P w'"
  by (auto simp: open_op_def Let_def split: res_splits route.splits Option.bind_splits
      dest!: kept)

lemma create_main_kept [kept]: "create_main g p fp fl md m w = Some (r, w') \<Longrightarrow> P w \<Longrightarrow> P w'"
  by (auto simp: create_main_def Let_def split: res_splits Option.bind_splits
      dest!: kept)

lemma create_op_kept [kept]: "create_op g p md fl w = Some (r, w') \<Longrightarrow> P w \<Longrightarrow> P w'"
  by (auto simp: create_op_def Let_def split: res_splits Option.bind_splits
      dest!: kept)

lemma mkdir_op_kept [kept]: "mkdir_op g p md w = Some (r, w') \<Longrightarrow> P w \<Longrightarrow> P w'"
  by (auto simp: mkdir_op_def Let_def split: res_splits route.splits Option.bind_splits
      dest!: kept)

lemma rmdir_op_kept [kept]: "rmdir_op p w = Some (r, w') \<Longrightarrow> P w \<Longrightarrow> P w'"
  by (auto simp: rmdir_op_def Let_def split: res_splits route.splits Option.bind_splits
      dest!: kept)

lemma chmod_op_kept [kept]: "chmod_op g p md w = Some (r, w') \<Longrightarrow> P w \<Longrightarrow> P w'"
  by (auto simp: chmod_op_def Let_def split: res_splits Option.bind_splits
      dest!: kept)

lemma chown_op_kept [kept]: "chown_op g p u gi w = Some (r, w') \<Longrightarrow> P w \<Longrightarrow> P w'"
  by (auto simp: chown_op_def Let_def split: res_splits Option.bind_splits
      dest!: kept)

lemma unlink_op_kept [kept]: "unlink_op g p w = Some (r, w') \<Longrightarrow> P w \<Longrightarrow> P w'"
  by (auto simp: unlink_op_def Let_def split: res_splits Option.bind_splits
      dest!: kept)

lemma truncate_op_kept [kept]: "truncate_op g p n w = Some (r, w') \<Longrightarrow> P w \<Longrightarrow> P w'"
  by (auto simp: truncate_op_def Let_def split: res_splits Option.bind_splits
      dest!: kept)

lemma utimens_op_kept [kept]: "utimens_op sv g p w = Some (r, w') \<Longrightarrow> P w \<Longrightarrow> P w'"
  by (auto simp: utimens_op_def Let_def split: res_splits Option.bind_splits
      dest!: kept)

end

end
