(* ===== verification/Invariants.thy ===== *)
theory Invariants
  imports Effects
begin

text \<open>
  Properties that every operation keeps: the shape of the tree of the operating system, the bound of
  the file sizes, the fields of the global data that are set once at the start, and, for the
  operations that take no lock, the lock table.
\<close>

section \<open>Constants of the running program\<close>

definition constants :: "world \<Rightarrow> string \<times> nat \<times> string \<times> nat \<times> tid \<times> 32 word \<times> byte list" where
  "constants w = (rootdir w, rootdir_len w, sn_dir w, bl_slog w, self w, euid w, junk w)"

text \<open>The lock table is \<open>T\<close>, and the thread \<open>t\<close> is running.\<close>

definition at_locks :: "mflock list \<Rightarrow> tid \<Rightarrow> world \<Rightarrow> bool" where
  "at_locks T t w \<longleftrightarrow> mflocks w = T \<and> self w = t"

text \<open>No file is longer than an offset can say.\<close>

definition sizes_ok :: "'z os_scheme \<Rightarrow> bool" where
  "sizes_ok w \<longleftrightarrow> (\<forall>i. length (fdata w i) \<le> MAX_OFF)"

section \<open>The shape of the tree\<close>

lemma first_free_le: "first_free xs \<le> length xs"
  by (induction xs rule: first_free.induct) auto

lemma get_fd_alloc:
  "get_fd (snd (alloc_fd i fl w)) fd =
     (if fd = int (first_free (fds w)) then Some \<lparr>of_ino = i, of_flags = fl, of_pos = 0\<rparr> else get_fd w fd)"
  using first_free_le [of "fds w"]
  by (auto simp: alloc_fd_def put_slot_def get_fd_def Let_def nth_list_update nth_append)

lemma get_fd_close: "get_fd (w\<lparr>fds := (fds w)[n := None]\<rparr>) fd = (if fd = int n then None else get_fd w fd)"
  by (auto simp: get_fd_def nth_list_update)

lemma node_fds [simp]: "get_fd (add_node k md w) = get_fd w" "get_fd (del_node k w) = get_fd w"
  by (simp_all add: add_node_def del_node_def get_fd_def fun_eq_iff)

lemma get_fd_other [simp]:
  "get_fd (set_data i bs w) = get_fd w" "get_fd (w\<lparr>dirs := ds\<rparr>) = get_fd w"
  by (simp_all add: get_fd_def fun_eq_iff)

lemma get_fd_sn [simp]:
  "get_fd (w\<lparr>sn_lat_dir := p\<rparr>) = get_fd w" "get_fd (w\<lparr>sn_lat_dir_len := n\<rparr>) = get_fd w"
  "get_fd (w\<lparr>sn_is_any := a\<rparr>) = get_fd w" "get_fd (w\<lparr>sn_number := n\<rparr>) = get_fd w"
  for w :: world
  by (simp_all add: get_fd_def fun_eq_iff)

lemma is_dir_cong: "i_mode (inodes w' x) AND S_IFMT = i_mode (inodes w x) AND S_IFMT \<Longrightarrow> is_dir w' x = is_dir w x"
  by (simp add: is_dir_def S_ISDIR_def)

lemma mode_type: "((m AND F) OR (md AND NOT F)) AND F = m AND F" for m :: mode
  by (rule bit_word_eqI) (auto simp: bit_simps)

text \<open>Changes that leave the entries alone.\<close>

lemma os_wf_same:
  assumes "os_wf w" and "dents w' = dents w" and "next_ino w' = next_ino w"
    and "\<And>x. is_dir w' x = is_dir w x"
    and "\<And>fd f. get_fd w' fd = Some f \<Longrightarrow> of_ino f < next_ino w"
  shows "os_wf w'"
proof -
  have "lookup w' = lookup w" using assms(2) by (simp add: lookup_def fun_eq_iff)
  with assms show ?thesis by (simp add: os_wf_def)
qed

lemma os_wf_fd: "os_wf w \<Longrightarrow> get_fd w fd = Some f \<Longrightarrow> of_ino f < next_ino w"
  by (simp add: os_wf_def)

lemma os_wf_parent:
  assumes "os_wf w" and "lookup w k = Some i" and "k \<noteq> []"
  obtains d where "lookup w (butlast k) = Some d" and "is_dir w d"
  using assms unfolding os_wf_def by blast

lemma os_wf_add_node:
  assumes wf: "os_wf w" and "resolve w k = Inl ENOENT" and "parent_dir w k = Inr ()"
    and "list_all good_name k"
  shows "os_wf (add_node k md w)"
proof -
  let ?w = "add_node k md w"
  have none: "lookup w k = None" using resolve_Inl [OF assms(1,2)] by simp
  then have new: "k \<notin> fst ` set (dents w)" by (simp add: lookup_def map_of_eq_None_iff)
  obtain r where r: "lookup w [] = Some r" "is_dir w r" using wf by (auto simp: os_wf_def)
  obtain d where d: "lookup w (butlast k) = Some d" "is_dir w d"
    using assms(3) by (auto simp: parent_dir_Inr [OF wf])
  have k: "k \<noteq> []" using none r by auto
  have bk: "butlast k \<noteq> k" using k by (metis append_butlast_last_id append_self_conv not_Cons_self2)
  have dir: "is_dir ?w x = is_dir w x" if "x < next_ino w" for x
    using that by (simp add: is_dir_def add_node_def)
  note less = lookup_less [OF wf]
  have inos: "list_all (\<lambda>e. snd e < next_ino w \<and> list_all good_name (fst e)) (dents w)"
    using wf by (simp add: os_wf_def)
  have "\<exists>r. lookup ?w [] = Some r \<and> is_dir ?w r"
    using r k dir [OF less [OF r(1)]] by (simp add: lookup_add_node)
  moreover have "\<exists>d. lookup ?w (butlast k') = Some d \<and> is_dir ?w d"
    if l: "lookup ?w k' = Some i" and ne: "k' \<noteq> []" for k' i
  proof (cases "k' = k")
    case True
    then show ?thesis using d bk dir [OF less [OF d(1)]] by (simp add: lookup_add_node)
  next
    case False
    then have "lookup w k' = Some i" using l by (simp add: lookup_add_node)
    then obtain e where e: "lookup w (butlast k') = Some e" "is_dir w e"
      by (rule os_wf_parent [OF wf _ ne])
    then have "butlast k' \<noteq> k" using none by auto
    then show ?thesis using e dir [OF less [OF e(1)]] by (simp add: lookup_add_node)
  qed
  moreover have "of_ino f < next_ino ?w" if "get_fd ?w fd = Some f" for fd f
    using os_wf_fd [OF wf, of fd f] that unfolding node_fds by (simp add: add_node_def)
  moreover have "distinct (map fst (dents ?w))" "distinct (map snd (dents ?w))"
    using wf new inos by (auto simp: os_wf_def add_node_def list_all_iff)
  moreover have "list_all (\<lambda>e. snd e < next_ino ?w \<and> list_all good_name (fst e)) (dents ?w)"
    using inos assms(4) by (auto simp: add_node_def list_all_iff)
  ultimately show ?thesis unfolding os_wf_def by blast
qed

lemma os_wf_del_node:
  assumes wf: "os_wf w" and "lookup w k = Some i" and "k \<noteq> [] \<or> \<not> is_dir w i"
    and "is_dir w i \<longrightarrow> children w k = []"
  shows "os_wf (del_node k w)"
proof -
  let ?w = "del_node k w"
  have dir: "is_dir ?w x = is_dir w x" for x by (simp add: is_dir_def del_node_def)
  obtain r where r: "lookup w [] = Some r" "is_dir w r" using wf by (auto simp: os_wf_def)
  have k: "k \<noteq> []" using assms(2,3) r by auto
  have "\<exists>d. lookup ?w (butlast k') = Some d \<and> is_dir ?w d" if lk: "lookup ?w k' = Some j" and ne: "k' \<noteq> []" for k' j
  proof -
    have l: "lookup w k' = Some j" using lk by (simp add: lookup_del_node split: if_splits)
    then obtain d where d: "lookup w (butlast k') = Some d" "is_dir w d"
      by (rule os_wf_parent [OF wf _ ne])
    have "butlast k' \<noteq> k"
    proof
      assume b: "butlast k' = k"
      then have "last k' \<in> set (children w k)"
        using l ne by (force simp: children_def lookup_def dest: map_of_SomeD)
      then show False using assms(2,4) d b by auto
    qed
    then show ?thesis using d by (simp add: lookup_del_node dir)
  qed
  moreover have "\<exists>r. lookup ?w [] = Some r \<and> is_dir ?w r" using r k by (simp add: lookup_del_node dir)
  moreover have "of_ino f < next_ino ?w" if "get_fd ?w fd = Some f" for fd f
    using os_wf_fd [OF wf, of fd f] that unfolding node_fds by (simp add: del_node_def)
  moreover have "distinct (map fst (dents ?w))" "distinct (map snd (dents ?w))"
    using wf by (auto simp: os_wf_def del_node_def distinct_map_filter)
  moreover have "list_all (\<lambda>e. snd e < next_ino ?w \<and> list_all good_name (fst e)) (dents ?w)"
    using wf by (auto simp: os_wf_def del_node_def list_all_iff)
  ultimately show ?thesis unfolding os_wf_def by blast
qed

lemma sizes_ok_data:
  "sizes_ok w \<Longrightarrow> length bs \<le> MAX_OFF \<or> length bs \<le> length (fdata w i) \<Longrightarrow> sizes_ok (set_data i bs w)"
  by (auto simp: sizes_ok_def fdata_set_data intro: order_trans)

interpretation wf: state_inv os_wf
proof
  fix w :: world and k i fl
  assume wf: "os_wf w"
  note fd = os_wf_fd [OF wf] and same = os_wf_same [OF wf]
  show "os_wf (add_node (comps p) md w)"
    if "resolve w (comps p) = Inl ENOENT" "parent_dir w (comps p) = Inr ()" for p md
    by (rule os_wf_add_node [OF wf that comps_good])
  show "os_wf (del_node k w)" if "resolve w k = Inr i" "k \<noteq> [] \<or> \<not> is_dir w i" "is_dir w i \<longrightarrow> children w k = []"
    using that by (intro os_wf_del_node [OF wf]) (simp_all add: resolve_Inr [OF wf])
  show "os_wf (snd (alloc_fd i fl w))" if "lookup w k = Some i"
  proof (rule same)
    show "of_ino f < next_ino w" if "get_fd (snd (alloc_fd i fl w)) g = Some f" for g f
      using that lookup_less [OF wf \<open>lookup w k = Some i\<close>] fd by (auto simp: get_fd_alloc split: if_splits)
  qed (simp_all add: alloc_fd_def Let_def is_dir_def)
  show "os_wf (set_pos g n w)" for g n
  proof (rule same)
    show "of_ino f < next_ino w" if "get_fd (set_pos g n w) h = Some f" for h f
      using that fd by (auto simp: get_fd_set_pos split: if_splits)
  qed (simp_all add: is_dir_def)
  show "os_wf (w\<lparr>fds := (fds w)[n := None]\<rparr>)" for n
  proof (rule same)
    show "of_ino f < next_ino w" if "get_fd (w\<lparr>fds := (fds w)[n := None]\<rparr>) h = Some f" for h f
      using that fd by (auto simp: get_fd_close split: if_splits)
  qed simp_all
  show "os_wf (w\<lparr>inodes := (inodes w)(i := (inodes w i)\<lparr>i_mode :=
      (i_mode (inodes w i) AND S_IFMT) OR (md AND NOT S_IFMT)\<rparr>)\<rparr>)" for md
    by (rule same) (use fd mode_type [of _ S_IFMT] in \<open>auto simp: is_dir_def S_ISDIR_def\<close>)
  show "os_wf (w\<lparr>inodes := (inodes w)(i := (inodes w i)\<lparr>i_uid := u, i_gid := g\<rparr>)\<rparr>)" for u g
    by (rule same) (use fd in \<open>auto simp: is_dir_def\<close>)
  show "os_wf (set_data i bs w)" for bs :: "byte list"
    by (rule same) (use fd in \<open>auto simp: is_dir_def\<close>)
qed (rule os_wf_same; use os_wf_fd in \<open>force simp: is_dir_def\<close>)+

interpretation cst: state_inv "\<lambda>w. constants w = c" for c
  by unfold_locales
    (auto simp: constants_def set_data_def add_node_def del_node_def alloc_fd_def Let_def)

interpretation szs: state_inv sizes_ok
  by (unfold_locales; (blast intro: sizes_ok_data)?)
    (auto simp: sizes_ok_def fdata_def set_data_def set_pos_def add_node_def del_node_def alloc_fd_def Let_def
      split: option.splits)

interpretation lks: quiet_inv "at_locks T t" for T t
  by unfold_locales
    (auto simp: at_locks_def set_data_def add_node_def del_node_def alloc_fd_def Let_def)

end
