(* ===== verification/Disk.thy ===== *)
theory Disk
  imports Invariants
begin

text \<open>
  The disk as a tree of directories and files. \<open>tree w\<close> forgets inodes; in a state without faults each
  system call on paths acts on it as a function of the tree. \<open>rest\<close> is what such a call leaves
  alone: the open descriptors, the schedule of faults and the data of the program.
\<close>

section \<open>Trees\<close>

datatype node = Dir | File "byte list"

definition tree :: "'z os_scheme \<Rightarrow> string list \<Rightarrow> node option" where
  "tree w k = map_option (\<lambda>i. if is_dir w i then Dir else File (fdata w i)) (lookup w k)"

definition calm :: "'z os_scheme \<Rightarrow> bool" where
  "calm w \<longleftrightarrow> os_wf w \<and> sizes_ok w \<and> fates w = []"

definition rest :: "'z os_scheme \<Rightarrow> (int \<Rightarrow> ofile option) \<times> 'z" where
  "rest w = (get_fd w, os.more w)"

interpretation clm: state_inv calm
  by (unfold_locales; unfold calm_def; elim conjE; intro conjI;
      (rule wf.fate wf.data wf.pos wf.mknod wf.rmnod wf.open_fd wf.close_fd wf.stream wf.mode wf.owner
        wf.buffer wf.heap wf.latest wf.latest_len wf.any_sn wf.count wf.locks
        szs.fate szs.data szs.pos szs.mknod szs.rmnod szs.open_fd szs.close_fd szs.stream szs.mode szs.owner
        szs.buffer szs.heap szs.latest szs.latest_len szs.any_sn szs.count szs.locks; assumption
       | simp add: add_node_def del_node_def alloc_fd_def Let_def))

section \<open>Changes of the tree\<close>

lemma tree_upd [simp]:
  "tree (w\<lparr>fates := x\<rparr>) = tree w" "tree (w\<lparr>fds := y\<rparr>) = tree w" "tree (set_pos fd n w) = tree w"
  by (rule ext, simp add: tree_def is_dir_def fdata_def lookup_def set_pos_def split: option.split cong: if_cong)+

lemma tree_world [simp]:
  "tree (w\<lparr>mflocks := T\<rparr>) = tree w" "tree (w\<lparr>block_buffer := b\<rparr>) = tree w"
  "tree (w\<lparr>heap_bufs := h\<rparr>) = tree w" "tree (w\<lparr>sn_lat_dir := p\<rparr>) = tree w"
  "tree (w\<lparr>sn_lat_dir_len := n\<rparr>) = tree w" "tree (w\<lparr>sn_is_any := a\<rparr>) = tree w"
  "tree (w\<lparr>sn_number := n\<rparr>) = tree w"
  for w :: world
  by (rule ext, simp add: tree_def is_dir_def fdata_def lookup_def cong: if_cong)+

lemma tree_None: "tree w k = None \<longleftrightarrow> lookup w k = None"
  by (simp add: tree_def)

lemma tree_Dir: "tree w k = Some Dir \<longleftrightarrow> (\<exists>i. lookup w k = Some i \<and> is_dir w i)"
  by (auto simp: tree_def)

lemma tree_File: "tree w k = Some (File bs) \<longleftrightarrow> (\<exists>i. lookup w k = Some i \<and> \<not> is_dir w i \<and> fdata w i = bs)"
  by (auto simp: tree_def)

lemma tree_set_data:
  assumes "os_wf w" and "lookup w k = Some i" and "\<not> is_dir w i"
  shows "tree (set_data i bs w) = (tree w)(k \<mapsto> File bs)"
proof
  fix k'
  have d: "is_dir (set_data i bs w) x = is_dir w x" for x by (simp add: is_dir_def)
  show "tree (set_data i bs w) k' = ((tree w)(k \<mapsto> File bs)) k'"
    using assms lookup_inj [OF assms(1,2), of k']
    by (cases "lookup w k'") (auto simp: tree_def d fdata_set_data)
qed

lemma tree_add_node:
  assumes "os_wf w" and "lookup w k = None"
  shows "tree (add_node k md w) = (tree w)(k \<mapsto> if S_ISDIR md then Dir else File [])"
proof
  fix k'
  have "is_dir (add_node k md w) x = is_dir w x" "fdata (add_node k md w) x = fdata w x"
    if "x < next_ino w" for x
    using that by (simp_all add: is_dir_def fdata_def add_node_def)
  moreover have "is_dir (add_node k md w) (next_ino w) = S_ISDIR md" "fdata (add_node k md w) (next_ino w) = []"
    by (simp_all add: is_dir_def fdata_def add_node_def)
  ultimately show "tree (add_node k md w) k' = ((tree w)(k \<mapsto> if S_ISDIR md then Dir else File [])) k'"
    using lookup_less [OF assms(1), of k']
    by (cases "lookup w k'") (auto simp: tree_def lookup_add_node)
qed

lemma tree_del_node: "tree (del_node k w) = (tree w)(k := None)"
proof -
  have "is_dir (del_node k w) = is_dir w" "fdata (del_node k w) = fdata w"
    by (simp_all add: is_dir_def fdata_def del_node_def fun_eq_iff)
  then show ?thesis by (simp add: tree_def lookup_del_node fun_eq_iff cong: if_cong)
qed

lemma rest_upd [simp]:
  "rest (set_data i bs w) = rest w" "rest (add_node k md w) = rest w" "rest (del_node k w) = rest w"
  by (simp_all add: rest_def) (simp_all add: add_node_def del_node_def)

lemma tree_parent:
  assumes "os_wf w" and "tree w k = Some n" and "k \<noteq> []"
  shows "tree w (butlast k) = Some Dir"
  using assms by (auto simp: tree_def elim: os_wf_parent)

lemma tree_good: "os_wf w \<Longrightarrow> tree w k = Some n \<Longrightarrow> list_all good_name k"
  by (auto simp: tree_def dest: lookup_entry)

lemma resolve_tree:
  assumes "os_wf w" and "tree w k = None" and "tree w (butlast k) = Some Dir"
  shows "resolve w k = Inl ENOENT" and "parent_dir w k = Inr ()"
  using assms by (auto simp: tree_None tree_Dir parent_dir_Inr intro: resolve_ENOENT)

section \<open>System calls without faults\<close>

lemma pop_calm: "calm w \<Longrightarrow> pop_fate w = (Normal, w)"
  by (simp add: calm_def pop_fate_def)

lemma malloc_calm [simp]: "calm w \<Longrightarrow> malloc_ok w = (True, w)"
  by (simp add: malloc_ok_def pop_calm)

lemma mode_isdir [simp]:
  "S_ISDIR (S_IFDIR OR (md AND NOT S_IFMT))" "\<not> S_ISDIR (S_IFREG OR (md AND NOT S_IFMT))"
proof -
  have m: "(a OR (md AND NOT F)) AND F = a AND F" for a F :: mode
    by (rule bit_word_eqI) (auto simp: bit_simps)
  show "S_ISDIR (S_IFDIR OR (md AND NOT S_IFMT))" "\<not> S_ISDIR (S_IFREG OR (md AND NOT S_IFMT))"
    unfolding S_ISDIR_def m by simp_all
qed

lemma lstat_missing:
  "calm w \<Longrightarrow> tree w (comps p) = None \<Longrightarrow> tree w (butlast (comps p)) = Some Dir \<Longrightarrow>
    sys_lstat p w = (Inl ENOENT, w)"
  by (simp add: sys_lstat_def pop_calm resolve_tree calm_def)

lemma lstat_found:
  assumes "calm w" and "tree w (comps p) = Some n"
  obtains st where "sys_lstat p w = (Inr st, w)" and "S_ISDIR (st_mode st) \<longleftrightarrow> n = Dir"
    and "\<And>bs. n = File bs \<Longrightarrow> st_size st = length bs"
proof -
  obtain i where i: "lookup w (comps p) = Some i" "n = (if is_dir w i then Dir else File (fdata w i))"
    using assms(2) by (auto simp: tree_def)
  have "sys_lstat p w = (Inr (stat_of (inodes w i)), w)"
    using assms(1) i(1) by (simp add: sys_lstat_def pop_calm resolve_Inr [symmetric] calm_def)
  with i(2) that show ?thesis by (auto simp: stat_of_def is_dir_def fdata_def split: if_splits)
qed

lemma mkdir_new:
  fixes w :: world
  assumes "calm w" and "tree w (comps p) = None" and "tree w (butlast (comps p)) = Some Dir"
  obtains w' where "sys_mkdir p md w = (Inr (), w')" and "calm w'" and "tree w' = (tree w)(comps p \<mapsto> Dir)"
    and "rest w' = rest w" and "\<forall>k. k \<noteq> comps p \<longrightarrow> lookup w' k = lookup w k"
proof -
  have wf: "os_wf w" using assms(1) by (simp add: calm_def)
  let ?w = "add_node (comps p) (S_IFDIR OR (md AND NOT S_IFMT)) w"
  have "sys_mkdir p md w = (Inr (), ?w)"
    using assms resolve_tree [OF wf assms(2,3)] by (simp add: sys_mkdir_def pop_calm)
  moreover have "tree ?w = (tree w)(comps p \<mapsto> Dir)"
    using tree_add_node [OF wf, of "comps p"] assms(2) mode_isdir(1) [of md] by (simp add: tree_None)
  ultimately show ?thesis
    using that clm.mknod [OF assms(1) resolve_tree [OF wf assms(2,3)]] by (simp add: lookup_add_node)
qed

lemma mkdir_exists:
  "calm w \<Longrightarrow> tree w (comps p) = Some n \<Longrightarrow> sys_mkdir p md w = (Inl EEXIST, w)"
  by (auto simp: sys_mkdir_def pop_calm tree_def calm_def resolve_Inr [symmetric] Let_def)

lemma children_Nil:
  assumes "os_wf w"
  shows "children w k = [] \<longleftrightarrow> (\<forall>c. tree w (k @ [c]) = None)"
proof
  assume e: "children w k = []"
  show "\<forall>c. tree w (k @ [c]) = None"
  proof (rule ccontr)
    assume "\<not> (\<forall>c. tree w (k @ [c]) = None)"
    then obtain c i where "lookup w (k @ [c]) = Some i" by (auto simp: tree_None)
    then have "c \<in> set (children w k)" by (force simp: children_def lookup_def dest: map_of_SomeD)
    with e show False by simp
  qed
next
  assume n: "\<forall>c. tree w (k @ [c]) = None"
  have "\<not> (fst e \<noteq> [] \<and> butlast (fst e) = k)" if "e \<in> set (dents w)" for e
  proof
    assume k: "fst e \<noteq> [] \<and> butlast (fst e) = k"
    then have "fst e = k @ [last (fst e)]" by (metis append_butlast_last_id)
    with n have "lookup w (fst e) = None" by (metis tree_None)
    then show False using that by (force simp: lookup_def map_of_eq_None_iff)
  qed
  then show "children w k = []" by (simp add: children_def filter_empty_conv)
qed

lemma rmdir_empty:
  fixes w :: world
  assumes "calm w" and "tree w (comps p) = Some Dir" and "comps p \<noteq> []" and "\<And>c. tree w (comps p @ [c]) = None"
  obtains w' where "sys_rmdir p w = (Inr (), w')" and "calm w'" and "tree w' = (tree w)(comps p := None)"
    and "rest w' = rest w"
proof -
  obtain i where i: "lookup w (comps p) = Some i" "is_dir w i" using assms(2) by (auto simp: tree_Dir)
  have wf: "os_wf w" using assms(1) by (simp add: calm_def)
  then have r: "resolve w (comps p) = Inr i" using i by (simp add: resolve_Inr)
  have c: "children w (comps p) = []" using assms(4) by (simp add: children_Nil [OF wf])
  have "sys_rmdir p w = (Inr (), del_node (comps p) w)"
    using assms(1,3) i r c by (simp add: sys_rmdir_def pop_calm)
  then show ?thesis
    using that clm.rmnod [OF assms(1) r] assms(3) c by (simp add: tree_del_node)
qed

lemma unlink_file:
  fixes w :: world
  assumes "calm w" and "tree w (comps p) = Some (File bs)"
  obtains w' where "sys_unlink p w = (Inr (), w')" and "calm w'" and "tree w' = (tree w)(comps p := None)"
    and "rest w' = rest w" and "\<forall>k. k \<noteq> comps p \<longrightarrow> lookup w' k = lookup w k"
proof -
  obtain i where i: "lookup w (comps p) = Some i" "\<not> is_dir w i" using assms(2) by (auto simp: tree_File)
  have wf: "os_wf w" using assms(1) by (simp add: calm_def)
  then have r: "resolve w (comps p) = Inr i" using i by (simp add: resolve_Inr)
  have "sys_unlink p w = (Inr (), del_node (comps p) w)"
    using assms(1) i r by (simp add: sys_unlink_def pop_calm)
  then show ?thesis
    using that clm.rmnod [OF assms(1) r] i(2) by (simp add: tree_del_node lookup_del_node)
qed

section \<open>Descriptors without faults\<close>

lemma first_free_None: "get_fd w (int (first_free (fds w))) = None"
proof -
  have "first_free xs < length xs \<longrightarrow> xs ! first_free xs = None" for xs :: "ofile option list"
    by (induction xs rule: first_free.induct) auto
  then show ?thesis by (simp add: get_fd_def)
qed

lemma alloc_fd_calm:
  fixes w :: world
  assumes "calm w" and "lookup w k = Some i"
  obtains fd w' where "alloc_fd i fl w = (Inr fd, w')" and "calm w'" and "tree w' = tree w" and "lookup w' = lookup w"
    and "get_fd w' = (get_fd w)(fd \<mapsto> \<lparr>of_ino = i, of_flags = fl, of_pos = 0\<rparr>)"
    and "get_fd w fd = None" and "os.more w' = os.more w"
proof -
  let ?fd = "int (first_free (fds w))" and ?w = "snd (alloc_fd i fl w)"
  have "alloc_fd i fl w = (Inr ?fd, ?w)" by (simp add: alloc_fd_def Let_def)
  moreover have "tree ?w = tree w" "lookup ?w = lookup w" "os.more ?w = os.more w"
    by (simp_all add: alloc_fd_def Let_def)
  ultimately show ?thesis
    using that [of ?fd ?w] clm.open_fd [OF assms] first_free_None [of w]
    by (simp add: get_fd_alloc fun_eq_iff)
qed

lemma open_new:
  fixes w :: world
  assumes "calm w" and "tree w (comps p) = None" and "tree w (butlast (comps p)) = Some Dir"
    and "has_flag fl O_CREAT"
  obtains fd i w' where "sys_open p fl md w = (Inr fd, w')" and "calm w'"
    and "tree w' = (tree w)(comps p \<mapsto> File [])" and "lookup w' (comps p) = Some i"
    and "get_fd w' = (get_fd w)(fd \<mapsto> \<lparr>of_ino = i, of_flags = fl, of_pos = 0\<rparr>)"
    and "get_fd w fd = None" and "os.more w' = os.more w" and "lookup w' = (lookup w)(comps p \<mapsto> i)"
proof -
  have wf: "os_wf w" using assms(1) by (simp add: calm_def)
  let ?w = "add_node (comps p) (S_IFREG OR (md AND NOT S_IFMT)) w"
  have t: "tree ?w = (tree w)(comps p \<mapsto> File [])"
    using tree_add_node [OF wf, of "comps p"] assms(2) mode_isdir(2) [of md] by (simp add: tree_None)
  have c: "calm ?w" using clm.mknod [OF assms(1) resolve_tree [OF wf assms(2,3)]] .
  have l: "lookup ?w (comps p) = Some (next_ino w)" by (simp add: lookup_add_node)
  obtain fd w' where a: "alloc_fd (next_ino w) fl ?w = (Inr fd, w')" "calm w'" "tree w' = tree ?w"
      "lookup w' = lookup ?w"
      "get_fd w' = (get_fd ?w)(fd \<mapsto> \<lparr>of_ino = next_ino w, of_flags = fl, of_pos = 0\<rparr>)"
      "get_fd ?w fd = None" "os.more w' = os.more ?w"
    by (rule alloc_fd_calm [OF c l])
  have "sys_open p fl md w = (Inr fd, w')"
    using assms(1,4) resolve_tree [OF wf assms(2,3)] a(1) by (simp add: sys_open_def pop_calm)
  moreover have "os.more ?w = os.more w" by (simp add: add_node_def)
  moreover have "lookup ?w = (lookup w)(comps p \<mapsto> next_ino w)" by (rule ext) (simp add: lookup_add_node)
  ultimately show ?thesis using that a t l by simp
qed

lemma open_file:
  fixes w :: world
  assumes "calm w" and "tree w (comps p) = Some (File bs)" and "\<not> (has_flag fl O_CREAT \<and> has_flag fl O_EXCL)"
  obtains fd i w' where "sys_open p fl md w = (Inr fd, w')" and "calm w'"
    and "tree w' = (tree w)(comps p \<mapsto> File (if has_flag fl O_TRUNC then [] else bs))"
    and "lookup w' (comps p) = Some i"
    and "get_fd w' = (get_fd w)(fd \<mapsto> \<lparr>of_ino = i, of_flags = fl, of_pos = 0\<rparr>)"
    and "get_fd w fd = None" and "os.more w' = os.more w" and "lookup w' = lookup w"
proof -
  have wf: "os_wf w" using assms(1) by (simp add: calm_def)
  obtain i where i: "lookup w (comps p) = Some i" "\<not> is_dir w i" "fdata w i = bs"
    using assms(2) by (auto simp: tree_File)
  let ?w = "if has_flag fl O_TRUNC then set_data i [] w else w"
  have c: "calm ?w" using assms(1) clm.data [of w "[]"] by simp
  have l: "lookup ?w (comps p) = Some i" using i by simp
  have t: "tree ?w = (tree w)(comps p \<mapsto> File (if has_flag fl O_TRUNC then [] else bs))"
    using assms(2) tree_set_data [OF wf i(1,2), of "[]"] by (simp add: map_upd_triv)
  obtain fd w' where a: "alloc_fd i fl ?w = (Inr fd, w')" "calm w'" "tree w' = tree ?w" "lookup w' = lookup ?w"
      "get_fd w' = (get_fd ?w)(fd \<mapsto> \<lparr>of_ino = i, of_flags = fl, of_pos = 0\<rparr>)"
      "get_fd ?w fd = None" "os.more w' = os.more ?w"
    by (rule alloc_fd_calm [OF c l])
  have r: "resolve w (comps p) = Inr i" using wf i by (simp add: resolve_Inr)
  have "sys_open p fl md w = alloc_fd i fl ?w"
    using assms(1,3) r i(2) by (auto simp: sys_open_def pop_calm)
  moreover have "os.more ?w = os.more w" by (simp add: set_data_def)
  moreover have "get_fd ?w = get_fd w" "lookup ?w = lookup w" by simp_all
  ultimately show ?thesis using that a t l by (simp del: fun_upd_apply split del: if_split)
qed

lemma open_missing:
  assumes "calm w" and "tree w (comps p) = None" and "tree w (butlast (comps p)) = Some Dir"
    and "\<not> has_flag fl O_CREAT"
  shows "sys_open p fl md w = (Inl ENOENT, w)"
  using assms by (simp add: sys_open_def pop_calm resolve_tree calm_def)

lemma open_excl:
  assumes "calm w" and "tree w (comps p) = Some n" and "has_flag fl O_CREAT" and "has_flag fl O_EXCL"
  shows "sys_open p fl md w = (Inl EEXIST, w)"
  using assms by (auto simp: sys_open_def pop_calm tree_def calm_def resolve_Inr [symmetric])

lemma close_calm:
  fixes w :: world
  assumes "calm w" and "get_fd w fd = Some f"
  obtains w' where "sys_close fd w = (Inr (), w')" and "calm w'" and "tree w' = tree w"
    and "get_fd w' = (get_fd w)(fd := None)" and "os.more w' = os.more w"
    and "lookup w' = lookup w"
proof -
  let ?w = "w\<lparr>fds := (fds w)[nat fd := None]\<rparr>"
  have fd: "0 \<le> fd" using assms(2) by (simp add: get_fd_def split: if_splits)
  have "sys_close fd w = (Inr (), ?w)" using assms by (simp add: sys_close_def pop_calm)
  moreover have "get_fd ?w = (get_fd w)(fd := None)" using fd by (simp add: get_fd_close fun_eq_iff)
  ultimately show ?thesis using that clm.close_fd [OF assms(1)] by simp
qed

lemma pread_calm:
  assumes "calm w" and "get_fd w fd = Some f" and "readable (of_flags f)" and "lookup w k = Some (of_ino f)"
    and "tree w k = Some (File bs)"
  shows "sys_pread fd n off w = (Inr (read_at bs n off), w)"
  using assms by (auto simp: sys_pread_def pop_calm tree_File)

lemma pwrite_calm:
  fixes w :: world
  assumes "calm w" and "get_fd w fd = Some f" and "writable (of_flags f)" and "\<not> has_flag (of_flags f) O_APPEND"
    and "lookup w k = Some (of_ino f)" and "tree w k = Some (File old)" and "off + length bs \<le> MAX_OFF"
  obtains w' where "sys_pwrite fd bs off w = (Inr (length bs), w')" and "calm w'"
    and "tree w' = (tree w)(k \<mapsto> File (write_at old bs off))" and "get_fd w' = get_fd w" and "os.more w' = os.more w"
    and "lookup w' = lookup w"
proof -
  let ?w = "set_data (of_ino f) (write_at old bs off) w"
  have i: "\<not> is_dir w (of_ino f)" "fdata w (of_ino f) = old" using assms(5,6) by (auto simp: tree_File)
  have "sys_pwrite fd bs off w = (Inr (length bs), ?w)"
    using assms i by (simp add: sys_pwrite_def pop_calm)
  moreover have "tree ?w = (tree w)(k \<mapsto> File (write_at old bs off))"
    using assms(1,5) i by (simp add: tree_set_data calm_def)
  moreover have "os.more ?w = os.more w" by (simp add: set_data_def)
  moreover have "calm ?w"
    using clm.data [OF assms(1)] clm.write_all_kept [OF assms(1,7), of "of_ino f"] i(2) by simp
  ultimately show ?thesis using that by simp
qed

end
