(* ===== verification/Progress.thy ===== *)
theory Progress
  imports Invariants
begin

text \<open>
  No operation blocks. When no lock is held at the start, every operation that takes locks returns,
  whatever system call fails, and no lock is held at the end.
\<close>

section \<open>Locking the idle table\<close>

definition taken :: "locklabel \<Rightarrow> tid \<Rightarrow> mflock list" where
  "taken lb t = upd_slot 0 (\<lambda>x. x\<lparr>mutex := Some t, label := lb\<rparr>) table0"

abbreviation ready :: "tid \<Rightarrow> world \<Rightarrow> bool" where
  "ready t \<equiv> at_locks table0 t"

lemma table0_Cons: "table0 = mflock_empty # replicate 63 mflock_empty"
  by (simp add: table0_def LOCK_NUM_def numeral_eq_Suc)

lemma table0_nth: "i < LOCK_NUM \<Longrightarrow> table0 ! i = mflock_empty"
  by (simp add: table0_def)

lemma lock_idle: "lock_table t lb table0 = Some (0, taken lb t)"
proof (cases "lb = 0")
  case True
  then show ?thesis by (simp add: lock_table_def taken_def table0_Cons mflock_empty_def upd_slot_def)
next
  case False
  have "find_slot (\<lambda>x. label x = lb) (replicate n mflock_empty) = None" for n
    using False by (induction n) (auto simp: mflock_empty_def)
  then have "find_slot (\<lambda>x. label x = lb) table0 = None" by (simp add: table0_def)
  moreover have "find_slot (\<lambda>x. label x = 0 \<and> mutex x = None) table0 = Some 0"
    by (simp add: table0_Cons mflock_empty_def)
  ultimately show ?thesis
    by (simp add: lock_table_def taken_def table0_nth mflock_empty_def)
qed

lemma unlock_idle: "unlock_table 0 (taken lb t) = Some table0"
proof -
  have "mod_mutex (taken lb t ! mod_slot lb) = None"
    using table0_nth [of "mod_slot lb"] mod_slot_less [of lb]
    by (simp add: taken_def table0_def mflock_empty_def LOCK_NUM_def)
  then show ?thesis
    by (simp add: unlock_table_def taken_def table0_Cons upd_slot_def mflock_empty_def)
qed

lemma at_locks_upd [simp]:
  "at_locks T t (w\<lparr>block_buffer := b\<rparr>) = at_locks T t w" "at_locks T t (w\<lparr>heap_bufs := h\<rparr>) = at_locks T t w"
  "at_locks T t (w\<lparr>sn_is_any := a\<rparr>) = at_locks T t w"
  by (auto simp: at_locks_def)

text \<open>
  Rules for the parts of an operation: taking and releasing a lock, and an operation that starts and
  ends without one.
\<close>

lemma lock_seq:
  "ready t w \<Longrightarrow> (\<And>w. at_locks (taken lb t) t w \<Longrightarrow> Q (Inr 0, w)) \<Longrightarrow> returns (mflock_lock lb w) Q"
  by (simp add: mflock_lock_def at_locks_def lock_idle)

lemma unlock_seq:
  "at_locks (taken lb t) t w \<Longrightarrow> (\<And>w. ready t w \<Longrightarrow> Q (Inr (), w)) \<Longrightarrow> returns (mflock_unlock 0 w) Q"
  by (simp add: mflock_unlock_def at_locks_def unlock_idle)

lemma returns_seq:
  assumes "returns m (\<lambda>x. ready t (snd x))" and "\<And>r w. ready t w \<Longrightarrow> Q (r, w)"
  shows "returns m Q"
  using assms(1) by (rule returns_mono) (use assms(2) in \<open>auto simp: split_paired_all\<close>)

section \<open>Removing a tree and opening the snapshot part of a file\<close>

lemma recursive_remove_returns:
  "ready t w \<Longrightarrow> returns (recursive_remove p w) (\<lambda>x. ready t (snd x))"
  by (auto simp: recursive_remove_def split: prod.splits dest!: lks.nftw_rm_kept
      intro!: lock_seq unlock_seq)

lemma sn_destroy_returns: "ready t w \<Longrightarrow> returns (sn_destroy w) (\<lambda>x. ready t (snd x))"
  by (auto simp: sn_destroy_def Let_def split: prod.splits sum.splits
      dest!: lks.sn_get_earliest_kept lks.sys_unlink_kept
      intro!: recursive_remove_returns returns_seq [OF recursive_remove_returns])

lemma mfd_open_end_None [simp]: "returns (mfd_open_end e m None w) Q = Q ((e, m), w)"
  by (simp add: mfd_open_end_def)

lemma mfd_open_end_returns:
  "at_locks (taken lb t) t w \<Longrightarrow> returns (mfd_open_end e m (Some 0) w) (\<lambda>x. ready t (snd x))"
  by (auto simp: mfd_open_end_def intro!: unlock_seq)

lemma mfd_open_old_returns:
  "at_locks (taken lb t) t w \<Longrightarrow> returns (mfd_open_old m vp fmap 0 w) (\<lambda>x. ready t (snd x))"
  by (auto simp: mfd_open_old_def Let_def split: prod.splits sum.splits
      dest!: lks.sys_open_kept lks.mfd_load_mapheader_kept lks.sys_close_kept lks.mfd_open_dat_file_kept
      intro!: mfd_open_end_returns unlock_seq)

lemma mfd_open_new_returns:
  "at_locks (taken lb t) t w \<Longrightarrow> returns (mfd_open_new m vp p fmap fd 0 w) (\<lambda>x. ready t (snd x))"
  by (auto simp: mfd_open_new_def Let_def split: prod.splits sum.splits
      dest!: lks.mfd_new_header_kept lks.sys_close_kept lks.sys_unlink_kept lks.mfd_open_dat_file_kept
      intro!: mfd_open_end_returns unlock_seq)

lemma mfd_open_sn_returns:
  "ready t w \<Longrightarrow> returns (mfd_open_sn m vp p w) (\<lambda>x. ready t (snd x))"
  by (auto simp: mfd_open_sn_def mfd_open_locked_def Let_def split: prod.splits sum.splits option.splits
      dest!: lks.mkpath_kept lks.sys_open_kept
      intro!: lock_seq mfd_open_end_returns mfd_open_old_returns mfd_open_new_returns)

lemma mfd_init_sn_returns:
  "ready t w \<Longrightarrow> returns (mfd_init_sn g vp p w) (\<lambda>x. ready t (snd x))"
  by (auto simp: mfd_init_sn_def split: sum.splits
      intro!: returns_seq [OF mfd_open_sn_returns] lks.mfd_close_sn_kept [OF prod.collapse [symmetric]])

lemma mfd_validate_returns:
  "ready t w \<Longrightarrow> returns (mfd_validate m w) (\<lambda>x. ready t (snd x))"
  by (auto simp: mfd_validate_def Let_def split: prod.splits sum.splits dest!: lks.mfd_close_sn_kept
      intro!: returns_seq [OF mfd_open_sn_returns])

section \<open>Blocks\<close>

lemma b_probe_main: "b_probe m 0 b a c w \<noteq> (Inr None, w')"
  by (auto simp: b_probe_def b_read_from_def Let_def split: prod.splits sum.splits)

lemma b_release_returns:
  "at_locks (taken lb t) t w \<Longrightarrow> returns (b_release (Some 0) r w) (\<lambda>x. ready t (snd x))"
  by (auto simp: b_release_def intro!: unlock_seq)

lemma b_release_None [simp]: "returns (b_release None r w) Q = Q (r, w)"
  by (simp add: b_release_def)

text \<open>The search for a block ends with the lock released: at the main file the block is found or an error returned.\<close>

lemma b_search_locked:
  "at_locks (taken lb t) t w \<Longrightarrow> returns (b_search m b a c (Suc n) (Some 0) w) (\<lambda>x. ready t (snd x))"
proof (induction n arbitrary: w)
  case 0
  then show ?case
    by (auto simp: b_probe_main split: prod.splits sum.splits option.splits dest!: lks.b_probe_kept
        intro!: b_release_returns)
next
  case (Suc n)
  show ?case using Suc.prems
    by (subst b_search.simps)
      (auto simp del: b_search.simps split: prod.splits sum.splits option.splits dest!: lks.b_probe_kept
        intro!: b_release_returns Suc.IH)
qed

lemma b_search_returns:
  "ready t w \<Longrightarrow> returns (b_search m b a c n None w) (\<lambda>x. ready t (snd x))"
proof (induction n arbitrary: w)
  case 0
  then show ?case by simp
next
  case (Suc n)
  show ?case
  proof (cases "n \<le> 1")
    case True
    then consider "n = 0" | "n = Suc 0" by linarith
    then show ?thesis using Suc.prems
      by cases (simp_all only: b_search.simps,
        auto simp: b_probe_main simp del: b_search.simps split: prod.splits sum.splits option.splits
          dest!: lks.b_probe_kept intro!: lock_seq b_release_returns b_search_locked)
  next
    case False
    then show ?thesis using Suc.prems
      by (subst b_search.simps)
        (auto simp del: b_search.simps split: prod.splits sum.splits option.splits
          dest!: lks.b_probe_kept intro!: Suc.IH)
  qed
qed

lemma b_read_blocks_returns:
  "ready t w \<Longrightarrow> returns (b_read_blocks m off sz n b c buf w) (\<lambda>x. ready t (snd x))"
  by (induction n arbitrary: b c buf w)
    (auto simp: Let_def split: sum.splits intro!: returns_seq [OF b_search_returns])

lemma b_read_returns: "ready t w \<Longrightarrow> returns (b_read buf m sz off w) (\<lambda>x. ready t (snd x))"
  by (auto simp: b_read_def Let_def split: prod.splits intro!: b_read_blocks_returns)

text \<open>The state of the lock in the saving loop: not taken yet, or taken with index 0.\<close>

definition save_lock :: "tid \<Rightarrow> int \<Rightarrow> world \<Rightarrow> bool" where
  "save_lock t lock w \<longleftrightarrow> lock = -1 \<and> ready t w \<or> lock = 0 \<and> (\<exists>lb. at_locks (taken lb t) t w)"

definition save_done :: "tid \<Rightarrow> (unit res \<times> mfd \<times> int \<times> bufsel) \<times> world \<Rightarrow> bool" where
  "save_done t x \<longleftrightarrow> save_lock t (fst (snd (snd (fst x)))) (snd x)"

lemma save_done_pair [simp]: "save_done t ((r, m, lock, buf), w) = save_lock t lock w"
  by (simp add: save_done_def)

lemma save_seq:
  assumes "returns c (save_done t)"
    and "\<And>r m lock buf w. save_lock t lock w \<Longrightarrow> Q ((r, m, lock, buf), w)"
  shows "returns c Q"
  using assms(1) by (rule returns_mono) (use assms(2) in \<open>auto simp: save_done_def\<close>)

lemma save_lock_kept:
  assumes "save_lock t lock w" and "\<And>T. at_locks T t w \<Longrightarrow> at_locks T t w'"
  shows "save_lock t lock w'"
  using assms by (auto simp: save_lock_def)

lemma b_save_block_lock: "fst (snd (snd (fst (b_save_block m b lock buf w)))) = lock"
  by (simp add: b_save_block_def Let_def split: prod.splits sum.splits)

lemma b_save_block_returns:
  assumes "save_lock t lock w"
  shows "save_done t (b_save_block m b lock buf w)"
proof -
  obtain r m' lock' buf' w' where s: "b_save_block m b lock buf w = ((r, m', lock', buf'), w')"
    by (metis prod.collapse)
  with b_save_block_lock [of m b lock buf w] have "lock' = lock" by simp
  with s save_lock_kept [OF assms lks.b_save_block_kept [OF s]] show ?thesis by simp
qed

lemma block_read_pointer_lock:
  "block_read_pointer m off w = (r, w') \<Longrightarrow> save_lock t lock w \<Longrightarrow> save_lock t lock w'"
  by (erule save_lock_kept) (rule lks.block_read_pointer_kept)

lemma b_write_block_returns:
  assumes "save_lock t lock w"
  shows "returns (b_write_block m b lock buf w) (save_done t)"
proof -
  obtain q w1 where q: "block_read_pointer m (MAPHEADER_S + b * BLP_S) w = (q, w1)" by fastforce
  have s1: "save_lock t lock w1" using q assms by (rule block_read_pointer_lock)
  have locked: "returns (case block_read_pointer m (MAPHEADER_S + b * BLP_S) w of
        (Inl e, w) \<Rightarrow> Some ((Inl e, m, int 0, buf), w)
      | (Inr p, w) \<Rightarrow> if p \<noteq> 0 then Some ((Inr (), m, int 0, buf), w)
                     else Some (b_save_block m b (int 0) buf w)) (save_done t)"
    if "at_locks (taken lb t) t w" for lb w
  proof -
    obtain q w1 where q: "block_read_pointer m (MAPHEADER_S + b * BLP_S) w = (q, w1)" by fastforce
    have "save_lock t 0 w" using that by (auto simp: save_lock_def)
    with q have "save_lock t 0 w1" by (rule block_read_pointer_lock)
    with q b_save_block_returns [OF this, of m b buf] show ?thesis by (simp split: sum.split)
  qed
  show ?thesis
  proof (cases "lock = -1")
    case True
    then have "ready t w1" using s1 by (simp add: save_lock_def)
    then show ?thesis using True q s1 assms
      by (auto simp: b_write_block_def split: sum.split intro!: lock_seq locked)
  next
    case False
    then show ?thesis using q s1 assms b_save_block_returns [OF s1, of m b buf]
      by (simp add: b_write_block_def split: sum.split)
  qed
qed

lemma b_write_blocks_returns:
  "save_lock t lock w \<Longrightarrow>
    returns (b_write_blocks m n b lock buf w) (save_done t)"
proof (induction n arbitrary: m b lock buf w)
  case (Suc n)
  show ?case unfolding b_write_blocks.simps returns_bind
    by (rule save_seq [OF b_write_block_returns [OF Suc.prems]])
      (auto split: sum.splits intro: Suc.IH)
qed simp

lemma b_write_end_returns:
  "save_lock t lock w \<Longrightarrow> returns (b_write_end e m lock buf w) (\<lambda>x. ready t (snd x))"
  by (auto simp: b_write_end_def save_lock_def intro!: unlock_seq)

lemma b_write_returns: "ready t w \<Longrightarrow> returns (b_write m sz off False w) (\<lambda>x. ready t (snd x))"
proof -
  assume r: "ready t w"
  then have "save_lock t (-1) w" by (simp add: save_lock_def)
  from save_seq [OF b_write_blocks_returns [OF this]] b_write_end_returns r show ?thesis
    by (simp add: b_write_def Let_def case_prod_beta)
qed

lemma b_truncate_returns: "ready t w \<Longrightarrow> returns (b_truncate m n False w) (\<lambda>x. ready t (snd x))"
  by (auto simp: b_truncate_def intro!: b_write_returns)

section \<open>Handlers\<close>

lemmas handler_seq = returns_seq [OF mfd_validate_returns] returns_seq [OF b_write_returns]
  returns_seq [OF b_truncate_returns] returns_seq [OF mfd_open_sn_returns]
  returns_seq [OF mfd_init_sn_returns]

lemma read_op_returns: "ready t w \<Longrightarrow> returns (read_op buf sz off m w) (\<lambda>x. ready t (snd x))"
  by (auto simp: read_op_def split: mfd_types.splits prod.splits sum.splits dest!: lks.sys_pread_kept
      intro!: b_read_returns)

lemma write_op_returns: "ready t w \<Longrightarrow> returns (write_op buf off m w) (\<lambda>x. ready t (snd x))"
  by (auto simp: write_op_def split: prod.splits sum.splits dest!: lks.sys_pwrite_kept
      intro!: handler_seq)

lemma ftruncate_op_returns: "ready t w \<Longrightarrow> returns (ftruncate_op n m w) (\<lambda>x. ready t (snd x))"
  by (auto simp: ftruncate_op_def split: prod.splits sum.splits dest!: lks.sys_ftruncate_kept
      intro!: handler_seq)

lemma open_truncate_close_returns:
  "ready t w \<Longrightarrow> returns (open_truncate_close g p fp n w) (\<lambda>x. ready t (snd x))"
  by (auto simp: open_truncate_close_def Let_def split: prod.splits sum.splits
      dest!: lks.sys_open_kept lks.sys_close_kept lks.mfd_close_sn_kept intro!: handler_seq)

lemma open_main_returns: "ready t w \<Longrightarrow> returns (open_main g p fp fl w) (\<lambda>x. ready t (snd x))"
  by (auto simp: open_main_def Let_def split: prod.splits sum.splits
      dest!: lks.malloc_ok_kept lks.sys_open_kept lks.mfd_close_sn_kept intro!: handler_seq)

lemma open_op_returns: "ready t w \<Longrightarrow> returns (open_op g p fl w) (\<lambda>x. ready t (snd x))"
  by (auto simp: open_op_def Let_def split: prod.splits sum.splits route.splits
      dest!: lks.if_path_sn_kept intro!: open_main_returns lks.open_sn_kept [OF prod.collapse [symmetric]])

lemma create_op_returns: "ready t w \<Longrightarrow> returns (create_op g p md fl w) (\<lambda>x. ready t (snd x))"
  by (auto simp: create_op_def create_main_def Let_def split: prod.splits sum.splits
      dest!: lks.malloc_ok_kept lks.sys_open_kept lks.mfd_close_sn_kept
      intro!: handler_seq returns_seq [OF open_truncate_close_returns])

lemma mkdir_op_returns: "ready t w \<Longrightarrow> returns (mkdir_op g p md w) (\<lambda>x. ready t (snd x))"
  by (auto simp: mkdir_op_def Let_def split: prod.splits sum.splits route.splits
      dest!: lks.if_path_sn_kept lks.sn_create_kept
      intro!: handler_seq lks.sys_mkdir_kept [OF prod.collapse [symmetric]])

lemma rmdir_op_returns: "ready t w \<Longrightarrow> returns (rmdir_op p w) (\<lambda>x. ready t (snd x))"
  by (auto simp: rmdir_op_def Let_def split: prod.splits sum.splits route.splits
      dest!: lks.if_path_sn_kept
      intro!: sn_destroy_returns lks.sys_rmdir_kept [OF prod.collapse [symmetric]])

lemma chmod_op_returns: "ready t w \<Longrightarrow> returns (chmod_op g p md w) (\<lambda>x. ready t (snd x))"
  by (auto simp: chmod_op_def split: sum.splits
      intro!: handler_seq lks.sys_chmod_kept [OF prod.collapse [symmetric]])

lemma chown_op_returns: "ready t w \<Longrightarrow> returns (chown_op g p u gi w) (\<lambda>x. ready t (snd x))"
  by (auto simp: chown_op_def split: sum.splits
      intro!: handler_seq lks.sys_chown_kept [OF prod.collapse [symmetric]])

lemma unlink_op_returns: "ready t w \<Longrightarrow> returns (unlink_op g p w) (\<lambda>x. ready t (snd x))"
  by (auto simp: unlink_op_def split: sum.splits intro!: returns_seq [OF open_truncate_close_returns]
      lks.sys_unlink_kept [OF prod.collapse [symmetric]])

lemma truncate_op_returns: "ready t w \<Longrightarrow> returns (truncate_op g p n w) (\<lambda>x. ready t (snd x))"
  by (auto simp: truncate_op_def split: sum.splits intro!: returns_seq [OF open_truncate_close_returns]
      lks.sys_truncate_kept [OF prod.collapse [symmetric]])

lemma utimens_op_returns: "ready t w \<Longrightarrow> returns (utimens_op sv g p w) (\<lambda>x. ready t (snd x))"
  by (auto simp: utimens_op_def split: sum.splits
      intro!: handler_seq lks.sys_lookup_kept [OF prod.collapse [symmetric]])

end
