(* ===== verification/Removal.thy ===== *)
theory Removal
  imports Disk Progress "HOL-Library.Sublist"
begin

text \<open>
  \<open>recursive_remove\<close> without faults: the directory and everything below it is removed, and nothing
  else. The depth of a tree is less than the number of its entries, so the fuel of \<open>post_order\<close> is
  enough.
\<close>

definition without :: "string list \<Rightarrow> (string list \<Rightarrow> node option) \<Rightarrow> string list \<Rightarrow> node option" where
  "without k t x = (if prefix k x then None else t x)"

section \<open>Paths below a directory\<close>

lemma concat_dirsep_comps:
  "list_all good_name rel \<Longrightarrow> comps (sub_path p rel) = comps p @ rel"
proof (induction rel rule: rev_induct)
  case (snoc c rel)
  have "sub_path p (rel @ [c]) = sub_path p rel @ CHR ''/'' # c" by (simp add: sub_path_def DIRSEP_def)
  with snoc show ?case by (simp add: comps_snoc)
qed (simp add: sub_path_def)

lemma in_children:
  assumes "os_wf w"
  shows "c \<in> set (children w k) \<longleftrightarrow> tree w (k @ [c]) \<noteq> None"
proof
  assume "c \<in> set (children w k)"
  then obtain e where e: "e \<in> set (dents w)" "fst e \<noteq> []" "butlast (fst e) = k" "c = last (fst e)"
    by (auto simp: children_def)
  then have "fst e = k @ [c]" by (metis append_butlast_last_id)
  moreover have "lookup w (fst e) \<noteq> None"
    using e(1) unfolding lookup_def map_of_eq_None_iff by blast
  ultimately show "tree w (k @ [c]) \<noteq> None" by (simp add: tree_None)
next
  assume "tree w (k @ [c]) \<noteq> None"
  then obtain i where "lookup w (k @ [c]) = Some i" by (auto simp: tree_None)
  then have "(k @ [c], i) \<in> set (dents w)" by (simp add: lookup_def map_of_SomeD)
  then show "c \<in> set (children w k)" by (force simp: children_def)
qed

lemma distinct_children:
  assumes "os_wf w"
  shows "distinct (children w k)"
proof -
  let ?l = "filter (\<lambda>e. fst e \<noteq> [] \<and> butlast (fst e) = k) (dents w)"
  have d: "distinct (map fst (dents w))" using assms by (simp add: os_wf_def)
  then have "distinct (map fst ?l)" by (simp add: distinct_map_filter)
  then have "distinct (map last (map fst ?l))"
    unfolding distinct_map [of last]
    by (auto simp: inj_on_def) (metis append_butlast_last_id fst_conv)
  then show ?thesis by (simp add: children_def)
qed

lemma depth_less_entries:
  assumes "os_wf w" and "tree w k \<noteq> None"
  shows "length k < length (dents w)"
proof -
  obtain i where i: "lookup w k = Some i" using assms(2) by (auto simp: tree_None)
  have "lookup w (take j k) \<noteq> None" if "j \<le> length k" for j
    using os_wf_prefix [OF assms(1) i, of j] i that by (cases "j = length k") auto
  then have sub: "(\<lambda>j. take j k) ` {..length k} \<subseteq> fst ` set (dents w)"
    unfolding lookup_def map_of_eq_None_iff by blast
  have "inj_on (\<lambda>j. take j k) {..length k}"
    by (rule inj_onI) (metis atMost_iff length_take min.absorb2)
  then have "card {..length k} \<le> card (fst ` set (dents w))"
    using card_image card_mono [OF _ sub] by force
  also have "\<dots> \<le> length (dents w)" by (metis card_length length_map set_map)
  finally show ?thesis by simp
qed

section \<open>Removing the nodes\<close>

lemma remove_nodes_append:
  "remove_nodes p (xs @ ys) w =
     (case remove_nodes p xs w of (Inl e, w) \<Rightarrow> (Inl e, w) | (Inr _, w) \<Rightarrow> remove_nodes p ys w)"
  by (induction xs arbitrary: w) (auto split: prod.splits sum.splits simp: Let_def)

text \<open>Removing the nodes \<open>rels\<close> below \<open>p\<close> takes the paths \<open>ks\<close> out of the tree.\<close>

definition removes :: "string \<Rightarrow> string list list \<Rightarrow> (string list \<Rightarrow> bool) \<Rightarrow> world \<Rightarrow> bool" where
  "removes p rels ks w \<longleftrightarrow>
     (\<exists>w'. remove_nodes p rels w = (Inr (), w') \<and> calm w' \<and> rest w' = rest w
       \<and> (\<forall>x. tree w' x = (if ks x then None else tree w x)))"

lemma removes_Nil: "calm w \<Longrightarrow> removes p [] (\<lambda>x. False) w"
  by (simp add: removes_def)

lemma removes_append:
  assumes "removes p xs ks w"
    and "\<And>w'. calm w' \<Longrightarrow> \<forall>x. tree w' x = (if ks x then None else tree w x) \<Longrightarrow> removes p ys ls w'"
  shows "removes p (xs @ ys) (\<lambda>x. ks x \<or> ls x) w"
proof -
  obtain w1 where w1: "remove_nodes p xs w = (Inr (), w1)" "calm w1" "rest w1 = rest w"
      "\<forall>x. tree w1 x = (if ks x then None else tree w x)"
    using assms(1) by (auto simp: removes_def)
  obtain w2 where w2: "remove_nodes p ys w1 = (Inr (), w2)" "calm w2" "rest w2 = rest w1"
      "\<forall>x. tree w2 x = (if ls x then None else tree w1 x)"
    using assms(2) [OF w1(2,4)] by (auto simp: removes_def)
  show ?thesis using w1 w2 by (auto simp: removes_def remove_nodes_append)
qed

lemma removes_single:
  assumes "calm w" and "tree w (comps p @ rel) = Some n" and "comps p \<noteq> []"
    and "\<And>c. tree w (comps p @ rel @ [c]) = None"
  shows "removes p [rel] (\<lambda>x. x = comps p @ rel) w"
proof -
  have wf: "os_wf w" using assms(1) by (simp add: calm_def)
  have k: "comps (sub_path p rel) = comps p @ rel"
    using tree_good [OF wf assms(2)] by (simp add: concat_dirsep_comps)
  obtain i where i: "lookup w (comps p @ rel) = Some i" using assms(2) by (auto simp: tree_def)
  then have r: "resolve w (comps p @ rel) = Inr i" using wf by (simp add: resolve_Inr)
  show ?thesis
  proof (cases n)
    case Dir
    then have d: "is_dir w i" using assms(2) i by (auto simp: tree_def split: if_splits)
    obtain w' where "sys_rmdir (sub_path p rel) w = (Inr (), w')" "calm w'"
        "tree w' = (tree w)(comps (sub_path p rel) := None)" "rest w' = rest w"
      by (rule rmdir_empty [OF assms(1), of "sub_path p rel"]) (use assms Dir k in auto)
    then show ?thesis
      using r k d by (simp add: removes_def univ_rm_def)
  next
    case (File bs)
    then have d: "\<not> is_dir w i" using assms(2) i by (auto simp: tree_def split: if_splits)
    obtain w' where "sys_unlink (sub_path p rel) w = (Inr (), w')" "calm w'"
        "tree w' = (tree w)(comps (sub_path p rel) := None)" "rest w' = rest w"
      by (rule unlink_file [OF assms(1), of "sub_path p rel"]) (use assms File k in auto)
    then show ?thesis
      using r k d by (simp add: removes_def univ_rm_def)
  qed
qed

lemma removes_concat:
  assumes "\<And>c w'. c \<in> set cs \<Longrightarrow> calm w' \<Longrightarrow> \<forall>y. prefix (k @ [c]) y \<longrightarrow> tree w' y = tree w0 y \<Longrightarrow>
      removes p (f c) (prefix (k @ [c])) w'"
    and "calm w" and "distinct cs" and "\<forall>c\<in>set cs. \<forall>y. prefix (k @ [c]) y \<longrightarrow> tree w y = tree w0 y"
  shows "removes p (concat (map f cs)) (\<lambda>x. \<exists>c\<in>set cs. prefix (k @ [c]) x) w"
  using assms
proof (induction cs arbitrary: w)
  case Nil
  then show ?case by (simp add: removes_Nil)
next
  case (Cons c cs)
  have "removes p (f c @ concat (map f cs)) (\<lambda>x. prefix (k @ [c]) x \<or> (\<exists>c\<in>set cs. prefix (k @ [c]) x)) w"
  proof (rule removes_append)
    show "removes p (f c) (prefix (k @ [c])) w" using Cons.prems by simp
    fix w2 :: world
    assume w2: "calm w2" "\<forall>x. tree w2 x = (if prefix (k @ [c]) x then None else tree w x)"
    have same: "tree w2 y = tree w0 y" if d: "d \<in> set cs" and y: "prefix (k @ [d]) y" for d y
    proof -
      have "\<not> prefix (k @ [c]) y" using d y Cons.prems(3) by (auto simp: prefix_def)
      then show ?thesis using w2(2) Cons.prems(4) d y by simp
    qed
    show "removes p (concat (map f cs)) (\<lambda>x. \<exists>c\<in>set cs. prefix (k @ [c]) x) w2"
    proof (rule Cons.IH [OF _ w2(1)])
      show "removes p (f d) (prefix (k @ [d])) w'"
        if "d \<in> set cs" "calm w'" "\<forall>y. prefix (k @ [d]) y \<longrightarrow> tree w' y = tree w0 y" for d w'
        using that by (intro Cons.prems(1)) auto
      show "distinct cs" using Cons.prems(3) by simp
    qed (use same in blast)
  qed
  then show ?case by simp
qed

lemma below_children:
  assumes "os_wf w" and "tree w x \<noteq> None"
  shows "prefix k x \<longleftrightarrow> (\<exists>c\<in>set (children w k). prefix (k @ [c]) x) \<or> x = k"
proof
  assume "prefix k x"
  then obtain z where z: "x = k @ z" by (auto simp: prefix_def)
  show "(\<exists>c\<in>set (children w k). prefix (k @ [c]) x) \<or> x = k"
  proof (cases z)
    case (Cons c cs)
    obtain i where i: "lookup w x = Some i" using assms(2) by (auto simp: tree_None)
    have "tree w (k @ [c]) \<noteq> None"
      using os_wf_prefix [OF assms(1) i, of "Suc (length k)"] assms(2) z Cons by (cases cs) (auto simp: tree_None)
    then have "c \<in> set (children w k)" using in_children [OF assms(1)] by simp
    moreover have "prefix (k @ [c]) x" using z Cons by (simp add: prefix_def)
    ultimately show ?thesis by blast
  qed (simp add: z)
qed (auto simp: prefix_def)

lemma removes_cong:
  assumes "removes p rels ks w" and "\<And>x. tree w x \<noteq> None \<Longrightarrow> ks x = ls x"
  shows "removes p rels ls w"
  using assms unfolding removes_def by metis

lemma removes_post_order:
  assumes wf: "os_wf w0" and "comps p \<noteq> []"
  shows "calm w \<Longrightarrow> tree w0 (comps p @ rel) \<noteq> None \<Longrightarrow>
    \<forall>y. prefix (comps p @ rel) y \<longrightarrow> tree w y = tree w0 y \<Longrightarrow>
    (\<And>y. tree w0 (comps p @ rel @ y) \<noteq> None \<Longrightarrow> length y \<le> n) \<Longrightarrow>
    removes p (post_order n w0 (comps p) rel) (prefix (comps p @ rel)) w"
proof (induction n arbitrary: rel w)
  case 0
  have "tree w (comps p @ rel @ [c]) = None" for c
    using 0(3) 0(4) [of "[c]"] by (force simp: prefix_def)
  then have "removes p [rel] (\<lambda>x. x = comps p @ rel) w"
    using 0 assms(2) removes_single [OF 0(1)] by force
  then show ?case
  unfolding post_order.simps
  proof (rule removes_cong)
    fix x assume x: "tree w x \<noteq> None"
    show "(x = comps p @ rel) = prefix (comps p @ rel) x"
    proof
      assume p: "prefix (comps p @ rel) x"
      then obtain y where y: "x = comps p @ rel @ y" by (auto simp: prefix_def)
      with x p 0(3) have "tree w0 (comps p @ rel @ y) \<noteq> None" by simp
      with 0(4) y show "x = comps p @ rel" by simp
    qed simp
  qed
next
  case (Suc n)
  let ?k = "comps p @ rel"
  let ?below = "\<lambda>x. \<exists>c\<in>set (children w0 ?k). prefix (?k @ [c]) x"
  have "removes p (concat (map (\<lambda>c. post_order n w0 (comps p) (rel @ [c])) (children w0 ?k)) @ [rel])
    (\<lambda>x. ?below x \<or> x = ?k) w"
  proof (rule removes_append)
    show "removes p (concat (map (\<lambda>c. post_order n w0 (comps p) (rel @ [c])) (children w0 ?k))) ?below w"
    proof (rule removes_concat)
      fix c and w' :: world assume "c \<in> set (children w0 ?k)" "calm w'" "\<forall>y. prefix (?k @ [c]) y \<longrightarrow> tree w' y = tree w0 y"
      then show "removes p (post_order n w0 (comps p) (rel @ [c])) (prefix (?k @ [c])) w'"
        using Suc.IH [of w' "rel @ [c]"] Suc.prems(4) [of "c # _"] in_children [OF wf, of c ?k] by simp
    qed (use Suc.prems distinct_children [OF wf] in \<open>auto simp: prefix_def\<close>)
    fix w2 :: world
    assume w2: "calm w2" "\<forall>x. tree w2 x = (if ?below x then None else tree w x)"
    have "\<not> ?below ?k" by (auto simp: prefix_def)
    then obtain nd where "tree w2 ?k = Some nd" using w2(2) Suc.prems(2,3) by fastforce
    moreover have "tree w2 (comps p @ rel @ [c]) = None" for c
      using w2(2) Suc.prems(3) in_children [OF wf, of c ?k] by (auto simp: prefix_def)
    ultimately show "removes p [rel] (\<lambda>x. x = ?k) w2"
      using removes_single [OF w2(1)] assms(2) by blast
  qed
  moreover have "(?below x \<or> x = ?k) = prefix ?k x" if "tree w x \<noteq> None" for x
  proof (cases "prefix ?k x")
    case True
    then show ?thesis using below_children [OF wf, of x ?k] that Suc.prems(3) by auto
  qed (auto simp: prefix_def)
  ultimately show ?case unfolding post_order.simps by (rule removes_cong)
qed

lemma get_fd_locks: "get_fd (w\<lparr>mflocks := T\<rparr>) = get_fd w" for w :: world
  by (simp add: get_fd_def fun_eq_iff)

text \<open>The removal of a tree, with the lock around it.\<close>

lemma recursive_remove_calm:
  assumes "calm w" and "ready t w" and "comps p \<noteq> []" and "tree w (comps p) \<noteq> None"
  obtains w' where "recursive_remove p w = Some (Inr (), w')" and "calm w'" and "rest w' = rest w"
    and "tree w' = without (comps p) (tree w)"
proof -
  obtain n where n: "tree w (comps p) = Some n" using assms(4) by auto
  let ?w = "w\<lparr>mflocks := taken (string2locklabel LOCKLABEL_RMDIR) t\<rparr>"
  have lk: "mflocks w = table0" "self w = t" using assms(2) by (simp_all add: at_locks_def)
  have len: "length (taken lb t) = length table0" for lb by (simp add: taken_def)
  have c: "calm ?w" by (rule clm.locks [OF assms(1)]) (simp add: lk len)
  have tr: "tree ?w = tree w" by simp
  obtain st where st: "sys_lstat p ?w = (Inr st, ?w)"
    using lstat_found [OF c, of p n] n tr by auto
  have wf: "os_wf ?w" using c by (simp add: calm_def)
  have "removes p (post_order (length (dents ?w)) ?w (comps p) []) (prefix (comps p @ [])) ?w"
  proof (rule removes_post_order [OF wf assms(3) c])
    show "length y \<le> length (dents ?w)" if "tree ?w (comps p @ [] @ y) \<noteq> None" for y
      using depth_less_entries [OF wf that] by simp
  qed (use assms(4) in auto)
  then obtain w1 where w1: "remove_nodes p (post_order (length (dents ?w)) ?w (comps p) []) ?w = (Inr (), w1)"
      "calm w1" "rest w1 = rest ?w" "\<forall>x. tree w1 x = (if prefix (comps p) x then None else tree ?w x)"
    by (auto simp: removes_def)
  have m: "mflocks w1 = mflocks ?w \<and> self w1 = self ?w"
    using w1(3) by (cases w; cases w1) (simp add: rest_def)
  have "recursive_remove p w = Some (Inr (), w1\<lparr>mflocks := table0\<rparr>)"
    using st w1(1) m lk by (simp add: recursive_remove_def mflock_lock_def lock_idle nftw_rm_def
        mflock_unlock_def unlock_idle)
  moreover have "os.more (w1\<lparr>mflocks := table0\<rparr>) = os.more w"
    using w1(3) lk(1) by (cases w; cases w1) (simp add: rest_def)
  with w1(3) have r: "rest (w1\<lparr>mflocks := table0\<rparr>) = rest w" by (simp add: rest_def get_fd_locks)
  moreover have "calm (w1\<lparr>mflocks := table0\<rparr>)" by (rule clm.locks [OF w1(2)]) (simp add: m len)
  ultimately show ?thesis using that r w1(4) by (simp add: without_def fun_eq_iff)
qed

end
