(* ===== verification/PathNames.thy ===== *)
theory PathNames
  imports Util
begin

text \<open>
  Paths as strings: the functions that build a path in a buffer of \<open>PATH_MAX\<close> bytes give the whole
  path when it fits and an error when it does not, provided that the prefix leaves room for the
  extension; and a path in the snapshot space is taken apart into the snapshot and the path in it.
\<close>

section \<open>Definitions\<close>

text \<open>What building a path from its parts should give.\<close>

definition bounded_path :: "string list \<Rightarrow> string res" where
  "bounded_path parts =
     (let r = concat parts in if length r < PATH_MAX then Inr r else Inl ENAMETOOLONG)"

text \<open>A path in the snapshot space, put together again.\<close>

definition join_sn_path :: "snpath \<Rightarrow> string" where
  "join_sn_path sp =
     SNDIR @ (case is_there sp of
                Snpath_root \<Rightarrow> [] | Snpath_id \<Rightarrow> snp_id sp | Snpath_full \<Rightarrow> snp_id sp @ inpath sp)"

section \<open>Building paths\<close>

lemma size_lt_diff:
  assumes "n < 2 ^ 64" and "k \<le> PATH_MAX"
  shows "size_lt n (int PATH_MAX - int k) \<longleftrightarrow> n + k < PATH_MAX"
  using size_lt_nonneg [OF assms(1), of "int PATH_MAX - int k"] assms(2) by (auto simp: PATH_MAX_def)

lemma size_lt_diff2:
  assumes "n < 2 ^ 64" and "EXT_LEN + k \<le> PATH_MAX"
  shows "size_lt n (int PATH_MAX - int EXT_LEN - int k) \<longleftrightarrow> n + (EXT_LEN + k) < PATH_MAX"
  using size_lt_diff [OF assms] by (simp add: diff_diff_eq)

text \<open>
  C17: with a prefix given by its length that leaves room for an extension, every function that
  builds a path returns the concatenation of its parts when it fits into a buffer of \<open>PATH_MAX\<close>
  bytes with its terminating zero, and \<open>ENAMETOOLONG\<close> otherwise.
\<close>

theorem path_builders_bounded:
  assumes "length oldpath < 2 ^ 64" and "length prefix + EXT_LEN < PATH_MAX"
    and "rootdir w = prefix" and "rootdir_len w = length prefix"
  shows "get_prefix_path oldpath prefix (length prefix) = bounded_path [prefix, oldpath]
    \<and> get_map_prefix_path oldpath prefix (length prefix) = bounded_path [prefix, oldpath, EXT_MAP]
    \<and> get_dat_prefix_path oldpath prefix (length prefix) = bounded_path [prefix, oldpath, EXT_DAT]
    \<and> get_hid_path oldpath = bounded_path [oldpath, EXT_HID]
    \<and> get_map_path oldpath = bounded_path [oldpath, EXT_MAP]
    \<and> get_dat_path oldpath = bounded_path [oldpath, EXT_DAT]
    \<and> get_dir_hid_path oldpath = bounded_path [oldpath, DIRSEP, EXT_HID]
    \<and> map_path oldpath w = bounded_path [prefix, oldpath]"
proof (intro conjI)
  note s = size_lt_diff [OF assms(1)] and x = size_lt_diff2 [OF assms(1)]
  note d = bounded_path_def const_defs
  show "get_prefix_path oldpath prefix (length prefix) = bounded_path [prefix, oldpath]"
    using s [of "length prefix"] assms(2) by (simp add: get_prefix_path_def d add.commute)
  show "get_map_prefix_path oldpath prefix (length prefix) = bounded_path [prefix, oldpath, EXT_MAP]"
    using x [of "length prefix"] assms(2) by (simp add: get_map_prefix_path_def d add.commute)
  show "get_dat_prefix_path oldpath prefix (length prefix) = bounded_path [prefix, oldpath, EXT_DAT]"
    using x [of "length prefix"] assms(2) by (simp add: get_dat_prefix_path_def d add.commute)
  show "get_hid_path oldpath = bounded_path [oldpath, EXT_HID]"
    using s [of EXT_LEN] by (simp add: get_hid_path_def d)
  show "get_map_path oldpath = bounded_path [oldpath, EXT_MAP]"
    using s [of EXT_LEN] by (simp add: get_map_path_def d)
  show "get_dat_path oldpath = bounded_path [oldpath, EXT_DAT]"
    using s [of EXT_LEN] by (simp add: get_dat_path_def d)
  show "get_dir_hid_path oldpath = bounded_path [oldpath, DIRSEP, EXT_HID]"
    using x [of 1] by (simp add: get_dir_hid_path_def d)
  show "map_path oldpath w = bounded_path [prefix, oldpath]"
    using s [of "length prefix"] assms(2-4) by (simp add: map_path_def d add.commute)
qed

theorem path_builders_bounded_witness:
  "get_map_prefix_path ''/d/f'' ''/r/snapshots/a'' 14 = Inr ''/r/snapshots/a/d/f.map''"
proof -
  define w :: world where "w = undefined\<lparr>rootdir := ''/r/snapshots/a'', rootdir_len := 14\<rparr>"
  have "rootdir w = ''/r/snapshots/a''" "rootdir_len w = length ''/r/snapshots/a''"
    by (simp_all add: w_def)
  then have "get_map_prefix_path ''/d/f'' ''/r/snapshots/a'' (length ''/r/snapshots/a'')
    = bounded_path [''/r/snapshots/a'', ''/d/f'', EXT_MAP]"
    by (intro path_builders_bounded [THEN conjunct2, THEN conjunct1]) (simp_all add: const_defs)
  moreover have "length ''/r/snapshots/a'' = 14" by simp
  ultimately show ?thesis by (simp only:) (simp add: bounded_path_def const_defs)
qed

text \<open>
  C18: a prefix that leaves no room for the extension defeats the check: the subtraction in the
  length check is negative, which as a \<open>size_t\<close> is larger than any length, so that a path longer than
  the buffer is accepted. The first snapshot can have a path of such a length.
\<close>

theorem map_prefix_path_overflow:
  assumes "PATH_MAX - EXT_LEN < length prefix" and "length prefix < PATH_MAX"
    and "length oldpath < 2 ^ 63"
  shows "get_map_prefix_path oldpath prefix (length prefix) = Inr (prefix @ oldpath @ EXT_MAP)
    \<and> length (prefix @ oldpath @ EXT_MAP) > PATH_MAX"
proof -
  define k where "k = int PATH_MAX - int EXT_LEN - int (length prefix)"
  have k: "-4 \<le> k" "k < 0" using assms(1,2) by (auto simp: const_defs k_def)
  have "uint (word_of_int k :: 64 word) = k mod 2 ^ 64"
    by (simp add: unsigned_of_int take_bit_eq_mod)
  also have "\<dots> = k + 2 ^ 64" using mod_pos_pos_trivial [of "k + 2 ^ 64" "2 ^ 64"] k by simp
  finally have "uint (word_of_int k :: 64 word) = k + 2 ^ 64" .
  moreover have "uint (word_of_nat (length oldpath) :: 64 word) = int (length oldpath)"
    using assms(3) by (simp add: unsigned_of_nat take_bit_nat_eq_self_iff)
  ultimately have "size_lt (length oldpath) k"
    using k assms(3) by (simp add: size_lt_def word_less_def)
  then show ?thesis using assms(1) by (auto simp: get_map_prefix_path_def k_def const_defs)
qed

theorem map_prefix_path_overflow_witness:
  "get_map_prefix_path ''/f'' (replicate 4093 CHR ''a'') 4093
     = Inr (replicate 4093 CHR ''a'' @ ''/f.map'')
   \<and> length (replicate 4093 CHR ''a'' @ ''/f.map'') > PATH_MAX"
  using map_prefix_path_overflow [of "replicate 4093 CHR ''a''" "''/f''"]
  by (simp add: const_defs)

section \<open>Paths in the snapshot space\<close>

lemma is_path_in_sn_iff:
  "is_path_in_sn p \<longleftrightarrow> p = SNDIR \<or> (\<exists>q. p = SNDIR @ CHR ''/'' # q)"
proof
  assume a: "is_path_in_sn p"
  then have t: "take 10 p = SNDIR" by (simp add: is_path_in_sn_def SNDIR_LEN_def)
  then have p: "p = SNDIR @ drop 10 p" by (metis append_take_drop_id)
  show "p = SNDIR \<or> (\<exists>q. p = SNDIR @ CHR ''/'' # q)"
  proof (cases "drop 10 p")
    case Nil
    then show ?thesis using p by simp
  next
    case (Cons c q)
    then have "p ! 10 = c" "length p \<noteq> 10" using p t by (auto simp: nth_via_drop)
    then show ?thesis using a Cons p by (auto simp: is_path_in_sn_def SNDIR_LEN_def DIRSEPCH_def)
  qed
qed (auto simp: is_path_in_sn_def const_defs)

lemma strchr_Some: "strchr s c = Some n \<longleftrightarrow> n < length s \<and> s ! n = c \<and> c \<notin> set (take n s)"
proof (induction s arbitrary: n)
  case (Cons x xs)
  show ?case by (cases n) (auto simp: Cons.IH)
qed simp

lemma join_decompose:
  assumes "is_path_in_sn p \<and> is_there (decompose_sn_path sp p) \<noteq> Snpath_root"
    and "p = SNDIR @ CHR ''/'' # r"
  shows "p = join_sn_path (decompose_sn_path sp p)
    \<or> is_there (decompose_sn_path sp p) = Snpath_id \<and> p = join_sn_path (decompose_sn_path sp p) @ ''/''"
proof -
  have len: "length p = length r + 11" using assms(2) by (simp add: SNDIR_def)
  have "r \<noteq> []" using assms by (auto simp: decompose_sn_path_def const_defs)
  then have long: "\<not> length p \<le> SNDIR_LEN + 1" using len by (simp add: SNDIR_LEN_def)
  have ids: "drop SNDIR_LEN p = CHR ''/'' # r" using assms(2) by (simp add: const_defs)
  show ?thesis
  proof (cases "strchr r CHR ''/''")
    case None
    then show ?thesis using long ids assms(2)
      by (simp add: decompose_sn_path_def join_sn_path_def DIRSEPCH_def)
  next
    case (Some n)
    then have n: "n < length r" "r ! n = CHR ''/''" by (auto simp: strchr_Some)
    have n0: "n \<noteq> 0" using assms(1) long ids Some
      by (auto simp: decompose_sn_path_def DIRSEPCH_def Let_def split: if_splits)
    show ?thesis
    proof (cases "n = length r - 1")
      case True
      then have "r = butlast r @ [CHR ''/'']" using n
        by (metis append_butlast_last_id last_conv_nth list.size(3) not_less0)
      moreover have "take (length p - SNDIR_LEN - 1) (CHR ''/'' # r) = CHR ''/'' # butlast r"
        using len n by (cases r) (auto simp: SNDIR_LEN_def butlast_conv_take)
      ultimately show ?thesis using long ids assms(2) Some n0 True len n
        by (simp add: decompose_sn_path_def join_sn_path_def DIRSEPCH_def SNDIR_LEN_def)
    next
      case False
      then have "SNDIR_LEN + 1 + n \<noteq> length p - 1" using len n by (simp add: SNDIR_LEN_def)
      then show ?thesis using long ids assms(2) Some n0
        by (simp add: decompose_sn_path_def join_sn_path_def DIRSEPCH_def Let_def)
    qed
  qed
qed

text \<open>
  C19: taking a path in the snapshot space apart. For a snapshot name without a slash, the path of
  the snapshot, the same with a slash at the end, and the path of something in the snapshot are
  recognised as such, with the parts the path was made from; and joining the parts of any path gives
  the path back, but for a slash at the end or an empty snapshot name.
\<close>

theorem decompose_sn_path_correct:
  assumes "name \<noteq> []" and "CHR ''/'' \<notin> set name" and "q \<noteq> []"
  shows "decompose_sn_path sp (SNDIR @ ''/'' @ name)
        = sp\<lparr>is_there := Snpath_id, snp_id := ''/'' @ name\<rparr>
    \<and> decompose_sn_path sp (SNDIR @ ''/'' @ name @ ''/'')
        = sp\<lparr>is_there := Snpath_id, snp_id := ''/'' @ name\<rparr>
    \<and> decompose_sn_path sp (SNDIR @ ''/'' @ name @ ''/'' @ q)
        = sp\<lparr>is_there := Snpath_full, snp_id := ''/'' @ name, inpath := ''/'' @ q\<rparr>
    \<and> (is_path_in_sn p \<and> is_there (decompose_sn_path sp p) \<noteq> Snpath_root
         \<longrightarrow> p = join_sn_path (decompose_sn_path sp p)
           \<or> is_there (decompose_sn_path sp p) = Snpath_id
             \<and> p = join_sn_path (decompose_sn_path sp p) @ ''/'')"
proof (intro conjI impI)
  have n: "strchr name CHR ''/'' = None" using assms(2) by (simp add: strchr_None)
  have s: "strchr (name @ CHR ''/'' # r) CHR ''/'' = Some (length name)" for r
    using assms(2) by (rule strchr_append)
  show "decompose_sn_path sp (SNDIR @ ''/'' @ name) = sp\<lparr>is_there := Snpath_id, snp_id := ''/'' @ name\<rparr>"
    using assms(1) n by (simp add: decompose_sn_path_def const_defs)
  show "decompose_sn_path sp (SNDIR @ ''/'' @ name @ ''/'')
    = sp\<lparr>is_there := Snpath_id, snp_id := ''/'' @ name\<rparr>"
    using assms(1) s [of "[]"] by (simp add: decompose_sn_path_def const_defs)
  show "decompose_sn_path sp (SNDIR @ ''/'' @ name @ ''/'' @ q)
    = sp\<lparr>is_there := Snpath_full, snp_id := ''/'' @ name, inpath := ''/'' @ q\<rparr>"
    using assms(1,3) s [of q] by (simp add: decompose_sn_path_def const_defs)
  assume a: "is_path_in_sn p \<and> is_there (decompose_sn_path sp p) \<noteq> Snpath_root"
  then obtain r where p: "p = SNDIR @ CHR ''/'' # r"
    by (auto simp: is_path_in_sn_iff decompose_sn_path_def const_defs)
  from a show "p = join_sn_path (decompose_sn_path sp p)
    \<or> is_there (decompose_sn_path sp p) = Snpath_id \<and> p = join_sn_path (decompose_sn_path sp p) @ ''/''"
    by (rule join_decompose [OF _ p])
qed

theorem decompose_sn_path_correct_witness:
  "decompose_sn_path snpath_undef ''/snapshots/monday/d/f''
     = \<lparr>is_there = Snpath_full, snp_id = ''/monday'', inpath = ''/d/f''\<rparr>"
  using decompose_sn_path_correct [of "''monday''" "''d/f''" snpath_undef]
  by (simp add: SNDIR_def snpath_undef_def)

end
