(* ===== verification/Chain.thy ===== *)
theory Chain
  imports Removal PathNames
begin

text \<open>
  The chain of snapshots (\<open>snapshot.c\<close>) as a list of their names, the latest first. \<open>listing D ids\<close> is
  what the snapshot directory \<open>D\<close> holds for the list \<open>ids\<close>: a directory for each snapshot, its
  pointer to the one before it, and the pointer to the latest. \<open>snaps w ids\<close> relates a state of the
  program to the list; the operations of \<open>snapshot.c\<close> implement the operations on the list.
\<close>

section \<open>The contents of the snapshot directory\<close>

definition sn_root :: "string \<Rightarrow> string \<Rightarrow> string" where
  "sn_root D name = D @ DIRSEPCH # name"

definition pointer :: "string \<Rightarrow> string \<Rightarrow> node" where
  "pointer D name = File (str_bytes (sn_root D name) @ [0])"

fun entries :: "string \<Rightarrow> string list \<Rightarrow> string \<Rightarrow> node option" where
  "entries D [] = Map.empty"
| "entries D [a] = [a \<mapsto> Dir]"
| "entries D (a # b # ids) = (entries D (b # ids))(a \<mapsto> Dir, a @ EXT_HID \<mapsto> pointer D b)"

definition listing :: "string \<Rightarrow> string list \<Rightarrow> string \<Rightarrow> node option" where
  "listing D ids =
     (case ids of [] \<Rightarrow> Map.empty | a # _ \<Rightarrow> (entries D ids)(EXT_HID \<mapsto> pointer D a))"

text \<open>The name of the file that points to the earliest snapshot.\<close>

definition earliest_hid :: "string list \<Rightarrow> string" where
  "earliest_hid ids = (if length ids = 1 then EXT_HID else last (butlast ids) @ EXT_HID)"

definition dir_of :: "(string list \<Rightarrow> node option) \<Rightarrow> string list \<Rightarrow> string \<Rightarrow> node option" where
  "dir_of t k x = t (k @ [x])"

definition good_id :: "string \<Rightarrow> string \<Rightarrow> bool" where
  "good_id D name \<longleftrightarrow> good_name name \<and> CHR 0x00 \<notin> set name \<and> sn_filter_name name
     \<and> length (sn_root D name) + EXT_LEN < PATH_MAX"

definition on_disk :: "world \<Rightarrow> string list \<Rightarrow> bool" where
  "on_disk w ids \<longleftrightarrow>
     calm w \<and> tree w (comps (sn_dir w)) = Some Dir \<and> CHR 0x00 \<notin> set (sn_dir w)
     \<and> length (sn_dir w) + EXT_LEN + 1 < PATH_MAX \<and> distinct ids \<and> list_all (good_id (sn_dir w)) ids
     \<and> (\<forall>x. tree w (comps (sn_dir w) @ [x]) = listing (sn_dir w) ids x)"

definition snaps :: "world \<Rightarrow> string list \<Rightarrow> bool" where
  "snaps w ids \<longleftrightarrow>
     on_disk w ids \<and> sn_is_any w = (ids \<noteq> [])
     \<and> (ids \<noteq> [] \<longrightarrow> sn_lat_dir w = sn_root (sn_dir w) (hd ids) \<and> sn_lat_dir_len w = length (sn_lat_dir w))"

text \<open>The snapshots from the latest to the one with the given name.\<close>

definition up_to :: "string \<Rightarrow> string list \<Rightarrow> string list" where
  "up_to x ids = takeWhile (\<lambda>y. y \<noteq> x) ids @ [x]"

text \<open>Two states with the same disk and the same data of the program.\<close>

definition same :: "world \<Rightarrow> world \<Rightarrow> bool" where
  "same w w' \<longleftrightarrow> calm w' \<and> tree w' = tree w \<and> rest w' = rest w"

text \<open>What the operations on snapshots leave alone, in the program and on the disk.\<close>

definition env_of :: "world \<Rightarrow> (int \<Rightarrow> ofile option) \<times> string \<times> string \<times> mflock list \<times> tid \<times> byte list" where
  "env_of w = (get_fd w, sn_dir w, rootdir w, mflocks w, self w, block_buffer w)"

section \<open>Lookups in the directory\<close>

lemma hid_simps [simp]: "EXT_HID \<noteq> []" "length EXT_HID = EXT_LEN" "take EXT_LEN EXT_HID = EXT_HID"
  "good_name EXT_HID"
  by (simp_all add: EXT_HID_def EXT_LEN_def good_name_def)

lemma filter_hid [simp]: "\<not> sn_filter_name (x @ EXT_HID)" "\<not> sn_filter_name EXT_HID"
  by (simp_all add: sn_filter_name_def EXT_LEN_def EXT_HID_def)

lemma filter_neq: "sn_filter_name a \<Longrightarrow> a \<noteq> x @ EXT_HID \<and> a \<noteq> EXT_HID \<and> x @ EXT_HID \<noteq> a \<and> EXT_HID \<noteq> a"
  by auto

lemma good_hid: "good_name a \<Longrightarrow> good_name (a @ EXT_HID)"
  by (auto simp: good_name_def EXT_HID_def append_eq_Cons_conv)

lemma entries_root:
  assumes "list_all sn_filter_name ids"
  shows "sn_filter_name x \<Longrightarrow> entries D ids x = (if x \<in> set ids then Some Dir else None)"
  using assms by (induction D ids rule: entries.induct) (auto dest: filter_neq)

lemma entries_hid:
  assumes "list_all sn_filter_name ids"
  shows "a \<notin> set ids \<Longrightarrow> entries D ids (a @ EXT_HID) = None"
  using assms by (induction D ids rule: entries.induct) (auto dest: filter_neq)

lemma entries_next:
  assumes "list_all sn_filter_name (xs @ a # ys)" and "distinct (xs @ a # ys)"
  shows "entries D (xs @ a # ys) (a @ EXT_HID) = (case ys of [] \<Rightarrow> None | b # _ \<Rightarrow> Some (pointer D b))"
  using assms
proof (induction xs)
  case Nil
  then show ?case by (cases ys) (auto dest: filter_neq)
next
  case (Cons x xs)
  then show ?case by (cases xs) (auto dest: filter_neq)
qed

lemma entries_snoc:
  assumes "list_all sn_filter_name (ids @ [a, z])" and "distinct (ids @ [a, z])"
  shows "entries D (ids @ [a, z]) = (entries D (ids @ [a]))(z \<mapsto> Dir, a @ EXT_HID \<mapsto> pointer D z)"
  using assms
proof (induction ids)
  case Nil
  then show ?case by (auto simp: fun_eq_iff dest: filter_neq)
next
  case (Cons x ids)
  then show ?case by (cases ids) (auto simp: fun_eq_iff dest: filter_neq)
qed

lemma listing_root:
  "list_all sn_filter_name ids \<Longrightarrow> sn_filter_name x \<Longrightarrow> listing D ids x = (if x \<in> set ids then Some Dir else None)"
  by (auto simp: listing_def entries_root dest: filter_neq split: list.split)

lemma listing_hid:
  "listing D ids EXT_HID = (case ids of [] \<Rightarrow> None | a # _ \<Rightarrow> Some (pointer D a))"
  by (simp add: listing_def split: list.split)

lemma listing_next:
  assumes "list_all sn_filter_name (xs @ a # ys)" and "distinct (xs @ a # ys)" and "a \<noteq> []"
  shows "listing D (xs @ a # ys) (a @ EXT_HID) = (case ys of [] \<Rightarrow> None | b # _ \<Rightarrow> Some (pointer D b))"
  using entries_next [OF assms(1,2), of D] assms(3) by (cases xs) (auto simp: listing_def)

lemma listing_new:
  assumes "list_all sn_filter_name ids" and "a \<notin> set ids" and "a \<noteq> []"
  shows "listing D ids (a @ EXT_HID) = None"
  using assms by (auto simp: listing_def entries_hid split: list.split)

lemma listing_Cons:
  "listing D (a # ids) = (case ids of
      [] \<Rightarrow> (listing D ids)(a \<mapsto> Dir, EXT_HID \<mapsto> pointer D a)
    | b # _ \<Rightarrow> (listing D ids)(a \<mapsto> Dir, a @ EXT_HID \<mapsto> pointer D b, EXT_HID \<mapsto> pointer D a))"
  by (auto simp: listing_def fun_eq_iff split: list.split)

lemma listing_snoc:
  assumes "list_all sn_filter_name (ids @ [a, z])" and "distinct (ids @ [a, z])" and "a \<noteq> []"
  shows "listing D (ids @ [a]) = (listing D (ids @ [a, z]))(z := None, a @ EXT_HID := None)"
proof -
  have "entries D (ids @ [a]) z = None" "entries D (ids @ [a]) (a @ EXT_HID) = None"
    using assms entries_root [of "ids @ [a]" z D] entries_next [of ids a "[]" D] by auto
  with entries_snoc [OF assms(1,2), of D] have "entries D (ids @ [a]) = (entries D (ids @ [a, z]))(z := None, a @ EXT_HID := None)"
    by (auto simp: fun_eq_iff)
  moreover have "z \<noteq> EXT_HID" using assms(1) by auto
  ultimately show ?thesis using assms(3) by (cases ids) (auto simp: listing_def fun_eq_iff)
qed

section \<open>States with the same disk\<close>

lemma same_refl: "calm w \<Longrightarrow> same w w"
  by (simp add: same_def)

lemma same_trans: "same w w' \<Longrightarrow> same w' w'' \<Longrightarrow> same w w''"
  by (simp add: same_def)

lemma more_fields:
  assumes "os.more w' = os.more w"
  shows "sn_dir w' = sn_dir w" "rootdir w' = rootdir w" "rootdir_len w' = rootdir_len w"
    "sn_lat_dir w' = sn_lat_dir w" "sn_lat_dir_len w' = sn_lat_dir_len w" "sn_is_any w' = sn_is_any w"
    "sn_number w' = sn_number w" "mflocks w' = mflocks w" "self w' = self w" "bl_slog w' = bl_slog w"
    "block_buffer w' = block_buffer w"
  using assms by (cases w; cases w'; simp)+

lemma rest_fields: "rest w' = rest w \<Longrightarrow> os.more w' = os.more w \<and> get_fd w' = get_fd w"
  by (simp add: rest_def)

lemma same_fields:
  assumes "same w w'"
  shows "calm w'" "tree w' = tree w" "sn_dir w' = sn_dir w" "rootdir w' = rootdir w"
    "sn_lat_dir w' = sn_lat_dir w" "sn_lat_dir_len w' = sn_lat_dir_len w" "sn_is_any w' = sn_is_any w"
  using assms more_fields [of w' w] by (simp_all add: same_def rest_def)

lemma on_disk_same: "on_disk w ids \<Longrightarrow> same w w' \<Longrightarrow> on_disk w' ids"
  by (simp add: on_disk_def same_fields)

lemma snaps_same: "snaps w ids \<Longrightarrow> same w w' \<Longrightarrow> snaps w' ids"
  using on_disk_same [of w ids w'] same_fields [of w w'] by (simp add: snaps_def)

lemma on_disk_filter: "on_disk w ids \<Longrightarrow> list_all sn_filter_name ids"
  by (auto simp: on_disk_def good_id_def list_all_iff)

section \<open>Reading a pointer\<close>

lemma c_string_bytes: "CHR 0x00 \<notin> set s \<Longrightarrow> c_string (str_bytes s @ [0]) = s"
proof (induction s)
  case (Cons c s)
  have "of_char c < (256 :: nat)" by simp
  then have "unat (word_of_nat (of_char c) :: byte) = of_char c" by (simp add: unat_of_nat)
  moreover from this have "word_of_nat (of_char c) \<noteq> (0 :: byte)"
    using Cons.prems by (auto simp: char_of_eq_iff dest: sym)
  ultimately show ?case using Cons by (simp add: c_string_def str_bytes_def)
qed (simp add: c_string_def str_bytes_def)

lemma comps_sn_root: "good_name a \<Longrightarrow> comps (sn_root D a) = comps D @ [a]"
  by (simp add: sn_root_def DIRSEPCH_def comps_snoc)

lemma sn_root_hid: "sn_root D a @ EXT_HID = sn_root D (a @ EXT_HID)"
  by (simp add: sn_root_def)

lemma sn_root_not_Nil [simp]: "sn_root D a \<noteq> []"
  by (simp add: sn_root_def)

lemma sn_root_inj [simp]: "sn_root D a = sn_root D b \<longleftrightarrow> a = b"
  by (simp add: sn_root_def)

lemma sn_hid_path: "length (sn_root D a) + EXT_LEN < PATH_MAX \<Longrightarrow> get_hid_path (sn_root D a) = Inr (sn_root D (a @ EXT_HID))"
  using size_lt_diff [of "length (sn_root D a)" EXT_LEN] by (simp add: get_hid_path_def const_defs sn_root_def)

lemma sn_dir_hid_path: "length D + EXT_LEN + 1 < PATH_MAX \<Longrightarrow> get_dir_hid_path D = Inr (sn_root D EXT_HID)"
  using size_lt_diff2 [of "length D" 1] by (simp add: get_dir_hid_path_def const_defs sn_root_def)

lemma read_pointer:
  assumes "calm w" and "tree w (comps p) = Some (pointer D a)" and "CHR 0x00 \<notin> set (sn_root D a)"
    and "length (sn_root D a) < PATH_MAX"
  obtains w' where "read_sndir_from_file buf p w = ((Inr (length (sn_root D a)), sn_root D a), w')"
    and "same w w'"
proof -
  let ?bs = "str_bytes (sn_root D a) @ [0]"
  have len: "length ?bs = Suc (length (sn_root D a))" by (simp add: str_bytes_def)
  obtain fd i w1 where w1: "sys_open p O_RDONLY 0 w = (Inr fd, w1)" "calm w1"
      "tree w1 = (tree w)(comps p \<mapsto> File (if has_flag O_RDONLY O_TRUNC then [] else ?bs))"
      "lookup w1 (comps p) = Some i"
      "get_fd w1 = (get_fd w)(fd \<mapsto> \<lparr>of_ino = i, of_flags = O_RDONLY, of_pos = 0\<rparr>)"
      "get_fd w fd = None" "os.more w1 = os.more w"
    by (rule open_file [OF assms(1), of p ?bs O_RDONLY 0]) (use assms(2) in \<open>auto simp: pointer_def has_flag_def\<close>)
  have t1: "tree w1 = tree w" using w1(3) assms(2) by (simp add: has_flag_def pointer_def map_upd_triv)
  have "sys_pread fd PATH_MAX 0 w1 = (Inr (read_at ?bs PATH_MAX 0), w1)"
    by (rule pread_calm [OF w1(2)]) (use w1 assms(2) t1 in \<open>auto simp: readable_def pointer_def\<close>)
  moreover have "read_at ?bs PATH_MAX 0 = ?bs" using assms(4) len by (simp add: read_at_def)
  moreover obtain w2 where w2: "sys_close fd w1 = (Inr (), w2)" "calm w2" "tree w2 = tree w1"
      "get_fd w2 = (get_fd w1)(fd := None)" "os.more w2 = os.more w1"
    using close_calm [OF w1(2)] w1(5) by (metis fun_upd_same)
  ultimately have "read_sndir_from_file buf p w = ((Inr (length (sn_root D a)), sn_root D a), w2)"
    using w1(1) c_string_bytes [OF assms(3)] len by (simp add: read_sndir_from_file_def)
  moreover have "get_fd w2 = get_fd w" using w2(4) w1(5,6) by (auto simp: fun_eq_iff)
  ultimately show ?thesis
    using that w2 w1(7) t1 by (simp add: same_def rest_def)
qed

lemma read_no_pointer:
  assumes "calm w" and "tree w (comps p) = None" and "tree w (butlast (comps p)) = Some Dir"
  shows "read_sndir_from_file buf p w = ((Inr 0, buf), w)"
  using open_missing [OF assms, of O_RDONLY 0] by (simp add: read_sndir_from_file_def has_flag_def)

text \<open>Reading the pointer of a snapshot of the chain.\<close>

lemma chain_names:
  assumes "on_disk w ids" and "a \<in> set ids"
  shows "good_id (sn_dir w) a" "good_name a" "a \<noteq> []" "CHR 0x00 \<notin> set (sn_root (sn_dir w) a)"
    "length (sn_root (sn_dir w) a) < PATH_MAX" "get_hid_path (sn_root (sn_dir w) a) = Inr (sn_root (sn_dir w) (a @ EXT_HID))"
    "comps (sn_root (sn_dir w) (a @ EXT_HID)) = comps (sn_dir w) @ [a @ EXT_HID]"
proof -
  show g: "good_id (sn_dir w) a" using assms by (auto simp: on_disk_def list_all_iff)
  then show n: "good_name a" by (simp add: good_id_def)
  then show "a \<noteq> []" by (simp add: good_name_def)
  show "CHR 0x00 \<notin> set (sn_root (sn_dir w) a)" using assms(1) g by (auto simp: on_disk_def good_id_def sn_root_def DIRSEPCH_def)
  show "length (sn_root (sn_dir w) a) < PATH_MAX" using g by (simp add: good_id_def)
  show "get_hid_path (sn_root (sn_dir w) a) = Inr (sn_root (sn_dir w) (a @ EXT_HID))"
    using g by (simp add: good_id_def sn_hid_path)
  show "comps (sn_root (sn_dir w) (a @ EXT_HID)) = comps (sn_dir w) @ [a @ EXT_HID]"
    using n by (simp add: comps_sn_root good_hid)
qed

lemma read_next:
  assumes "on_disk w (xs @ a # ys)"
  obtains w' where "same w w'"
    and "read_sndir_from_file buf (sn_root (sn_dir w) (a @ EXT_HID)) w =
      (case ys of [] \<Rightarrow> ((Inr 0, buf), w')
       | b # _ \<Rightarrow> ((Inr (length (sn_root (sn_dir w) b)), sn_root (sn_dir w) b), w'))"
proof -
  let ?p = "sn_root (sn_dir w) (a @ EXT_HID)"
  have c: "calm w" "tree w (butlast (comps ?p)) = Some Dir"
    using assms chain_names(7) [OF assms, of a] by (simp_all add: on_disk_def)
  have t: "tree w (comps ?p) = (case ys of [] \<Rightarrow> None | b # _ \<Rightarrow> Some (pointer (sn_dir w) b))"
    using assms listing_next [OF on_disk_filter [OF assms]] chain_names(3,7) [OF assms, of a]
    by (simp add: on_disk_def)
  show ?thesis
  proof (cases ys)
    case Nil
    then show ?thesis using that [of w] read_no_pointer [OF c(1) _ c(2)] t c(1) by (simp add: same_refl)
  next
    case (Cons b zs)
    then obtain w' where "read_sndir_from_file buf ?p w = ((Inr (length (sn_root (sn_dir w) b)), sn_root (sn_dir w) b), w')"
        "same w w'"
      using read_pointer [OF c(1), of ?p "sn_dir w" b buf] t chain_names(4,5) [OF assms, of b] by auto
    then show ?thesis using that Cons by simp
  qed
qed

section \<open>Following the chain\<close>

lemma earliest_loop_step:
  assumes "get_hid_path snp = Inr ptr" and "p < MAX_SNAPSHOTS"
    and "read_sndir_from_file snp ptr w = ((Inr n, snp'), w')" and "n \<noteq> 0"
  shows "earliest_loop p snp prev w = earliest_loop (Suc p) snp' ptr w'"
  using assms by (subst earliest_loop.simps) simp

lemma earliest_loop_chain:
  assumes "on_disk w (xs @ a # ys)" and "length xs + length ys < MAX_SNAPSHOTS"
  shows "\<exists>w'. same w w' \<and> earliest_loop (length xs) (sn_root (sn_dir w) a) prev w =
    ((Inr (if xs = [] \<and> ys = [] then 2 else 0), sn_root (sn_dir w) (last (a # ys)),
      if ys = [] then prev else sn_root (sn_dir w) (last (butlast (a # ys)) @ EXT_HID)), w')"
  using assms
proof (induction ys arbitrary: xs a prev w)
  case Nil
  obtain w' where "same w w'" "read_sndir_from_file (sn_root (sn_dir w) a) (sn_root (sn_dir w) (a @ EXT_HID)) w
      = ((Inr 0, sn_root (sn_dir w) a), w')"
    using read_next [OF Nil(1)] by (metis list.simps(4))
  then show ?case
    using Nil(2) chain_names(6) [OF Nil(1), of a] by (subst earliest_loop.simps) auto
next
  case (Cons b zs)
  obtain w1 where w1: "same w w1" "read_sndir_from_file (sn_root (sn_dir w) a) (sn_root (sn_dir w) (a @ EXT_HID)) w
      = ((Inr (length (sn_root (sn_dir w) b)), sn_root (sn_dir w) b), w1)"
    using read_next [OF Cons.prems(1)] by (metis list.simps(5))
  have "on_disk w1 ((xs @ [a]) @ b # zs)" using on_disk_same [OF Cons.prems(1) w1(1)] by simp
  from Cons.IH [OF this, of "sn_root (sn_dir w) (a @ EXT_HID)"] Cons.prems(2)
  obtain w2 where "same w1 w2" "earliest_loop (Suc (length xs)) (sn_root (sn_dir w) b) (sn_root (sn_dir w) (a @ EXT_HID)) w1 =
    ((Inr 0, sn_root (sn_dir w) (last (b # zs)),
      if zs = [] then sn_root (sn_dir w) (a @ EXT_HID) else sn_root (sn_dir w) (last (butlast (b # zs)) @ EXT_HID)), w2)"
    by (auto simp: same_fields [OF w1(1)])
  then show ?case
    using earliest_loop_step [OF chain_names(6) [OF Cons.prems(1), of a] _ w1(2), of "length xs" prev]
      Cons.prems(2) same_trans [OF w1(1)]
    by auto
qed

lemma paths_loop_step:
  assumes "calm w" and "mysnroot \<noteq> last paths" and "get_hid_path (last paths) = Inr ptr" and "Suc p < MAX_SNAPSHOTS"
    and "read_sndir_from_file [] ptr w = ((Inr n, buf), w')" and "n \<noteq> 0"
  shows "paths_loop mysnroot al p paths w =
    paths_loop mysnroot (if Suc p \<ge> al then 2 * al else al) (Suc p) (paths @ [buf]) w'"
  using assms by (subst paths_loop.simps) (simp add: Let_def)

lemma paths_loop_chain:
  assumes "on_disk w (xs @ a # ys)" and "length xs + length ys + 2 < MAX_SNAPSHOTS"
  shows "\<exists>w'. same w w' \<and>
    paths_loop (sn_root (sn_dir w) x) al (Suc (length xs)) (r # map (sn_root (sn_dir w)) (xs @ [a])) w =
      (if x \<in> set (a # ys) then Inr (r # map (sn_root (sn_dir w)) (xs @ up_to x (a # ys))) else Inl EFAULT, w')"
  using assms
proof (induction ys arbitrary: xs a al w)
  case Nil
  obtain w' where "same w w'" "read_sndir_from_file [] (sn_root (sn_dir w) (a @ EXT_HID)) w = ((Inr 0, []), w')"
    using read_next [OF Nil(1)] by (metis list.simps(4))
  moreover have "calm w" using Nil(1) by (simp add: on_disk_def)
  ultimately show ?case
    using Nil(2) chain_names(6) [OF Nil(1), of a] same_refl [of w]
    by (subst paths_loop.simps) (auto simp: up_to_def Let_def)
next
  case (Cons b zs)
  have c: "calm w" using Cons.prems(1) by (simp add: on_disk_def)
  show ?case
  proof (cases "x = a")
    case True
    then show ?thesis using same_refl [OF c] by (subst paths_loop.simps) (auto simp: up_to_def)
  next
    case False
    let ?al = "if Suc (Suc (length xs)) \<ge> al then 2 * al else al"
    obtain w1 where w1: "same w w1" "read_sndir_from_file [] (sn_root (sn_dir w) (a @ EXT_HID)) w
        = ((Inr (length (sn_root (sn_dir w) b)), sn_root (sn_dir w) b), w1)"
      using read_next [OF Cons.prems(1)] by (metis list.simps(5))
    have "on_disk w1 ((xs @ [a]) @ b # zs)" using on_disk_same [OF Cons.prems(1) w1(1)] by simp
    from Cons.IH [OF this, of ?al] Cons.prems(2)
    obtain w2 where "same w1 w2"
      "paths_loop (sn_root (sn_dir w) x) ?al (Suc (Suc (length xs))) (r # map (sn_root (sn_dir w)) (xs @ [a, b])) w1 =
        (if x \<in> set (b # zs) then Inr (r # map (sn_root (sn_dir w)) ((xs @ [a]) @ up_to x (b # zs))) else Inl EFAULT, w2)"
      by (auto simp: same_fields [OF w1(1)])
    then show ?thesis
      using paths_loop_step [OF c _ _ _ w1(2), of "sn_root (sn_dir w) x" "r # map (sn_root (sn_dir w)) (xs @ [a])"
          "Suc (length xs)" al]
        False Cons.prems(2) chain_names(6) [OF Cons.prems(1), of a] same_trans [OF w1(1)]
      by (auto simp: up_to_def)
  qed
qed

section \<open>The operations\<close>

lemma sn_get_latest_chain:
  assumes "on_disk w ids"
  obtains w' where "sn_get_latest w = (Inr (), w')" and "snaps w' ids" and "tree w' = tree w"
    and "get_fd w' = get_fd w" and "sn_dir w' = sn_dir w" and "rootdir w' = rootdir w"
    and "mflocks w' = mflocks w" and "self w' = self w"
proof -
  let ?D = "sn_dir w"
  have d: "calm w" "tree w (comps ?D) = Some Dir" "get_dir_hid_path ?D = Inr (sn_root ?D EXT_HID)"
    "comps (sn_root ?D EXT_HID) = comps ?D @ [EXT_HID]"
    using assms by (simp_all add: on_disk_def sn_dir_hid_path comps_sn_root)
  have h: "tree w (comps (sn_root ?D EXT_HID)) = (case ids of [] \<Rightarrow> None | a # _ \<Rightarrow> Some (pointer ?D a))"
    using assms d(4) by (simp add: on_disk_def listing_hid)
  show ?thesis
  proof (cases ids)
    case Nil
    then have "read_sndir_from_file (sn_lat_dir w) (sn_root ?D EXT_HID) w = ((Inr 0, sn_lat_dir w), w)"
      using read_no_pointer [OF d(1)] h d(2,4) by simp
    then have "sn_get_latest w = (Inr (), w\<lparr>sn_is_any := False\<rparr>)" using d(3) by (simp add: sn_get_latest_def)
    moreover have "snaps (w\<lparr>sn_is_any := False\<rparr>) ids"
      using assms Nil clm.any_sn [of w False] by (simp add: snaps_def on_disk_def)
    ultimately show ?thesis using that by simp
  next
    case (Cons a as)
    obtain w1 where w1: "read_sndir_from_file (sn_lat_dir w) (sn_root ?D EXT_HID) w =
        ((Inr (length (sn_root ?D a)), sn_root ?D a), w1)" "same w w1"
      using read_pointer [OF d(1), of _ ?D a] h Cons chain_names(4,5) [OF assms, of a] by auto
    let ?w = "w1\<lparr>sn_lat_dir := sn_root ?D a, sn_is_any := True, sn_lat_dir_len := length (sn_root ?D a)\<rparr>"
    have e: "sn_get_latest w = (Inr (), ?w)" using d(3) w1(1) by (simp add: sn_get_latest_def)
    have "calm ?w" using w1(2) by (simp add: same_def clm.any_sn clm.latest clm.latest_len)
    then have n: "snaps ?w ids"
      using assms Cons same_fields [OF w1(2)] by (simp add: snaps_def on_disk_def)
    have "get_fd w1 = get_fd w" "mflocks w1 = mflocks w" "self w1 = self w"
      using w1(2) more_fields [of w1 w] by (simp_all add: same_def rest_def)
    then show ?thesis using that [OF e n] same_fields [OF w1(2)] by simp
  qed
qed

lemma write_at_new: "write_at [] bs 0 = bs"
  by (simp add: write_at_def)

lemma pwrite_pointer:
  fixes w :: world
  assumes "calm w" and "get_fd w fd = Some f" and "writable (of_flags f)" and "\<not> has_flag (of_flags f) O_APPEND"
    and "lookup w k = Some (of_ino f)" and "tree w k = Some (File [])" and "length q < PATH_MAX"
  obtains w' where "sys_pwrite fd (str_bytes q @ [0]) 0 w = (Inr (length q + 1), w')" and "calm w'"
    and "tree w' = (tree w)(k \<mapsto> File (str_bytes q @ [0]))" and "get_fd w' = get_fd w" and "os.more w' = os.more w"
proof -
  have "0 + length (str_bytes q @ [0]) \<le> MAX_OFF" using assms(7) by (simp add: str_bytes_def PATH_MAX_def)
  from pwrite_calm [OF assms(1-6) this] that show ?thesis by (auto simp: write_at_new str_bytes_def)
qed

lemma sn_set_latest_calm:
  assumes "calm w" and "tree w (comps (sn_dir w)) = Some Dir" and "length (sn_dir w) + EXT_LEN + 1 < PATH_MAX"
    and "tree w (comps (sn_dir w) @ [EXT_HID]) \<noteq> Some Dir" and "length q < PATH_MAX"
  obtains w' where "sn_set_latest q w = (Inr (), w')" and "calm w'" and "get_fd w' = get_fd w"
    and "tree w' = (tree w)(comps (sn_dir w) @ [EXT_HID] \<mapsto> File (str_bytes q @ [0]))"
    and "os.more w' = os.more (w\<lparr>sn_lat_dir := q, sn_lat_dir_len := length q, sn_is_any := True,
      sn_number := Suc (sn_number w)\<rparr>)"
proof -
  let ?p = "sn_root (sn_dir w) EXT_HID" and ?fl = "O_WRONLY OR O_CREAT OR O_TRUNC :: oflags"
  have p: "get_dir_hid_path (sn_dir w) = Inr ?p" "comps ?p = comps (sn_dir w) @ [EXT_HID]"
    using assms(3) by (simp_all add: sn_dir_hid_path comps_sn_root)
  have fl: "has_flag ?fl O_CREAT" "\<not> has_flag ?fl O_EXCL" "has_flag ?fl O_TRUNC" "\<not> has_flag ?fl O_APPEND" "writable ?fl"
    by (simp_all add: has_flag_def writable_def)
  obtain fd i w1 where w1: "sys_open ?p ?fl S_IRWXU w = (Inr fd, w1)" "calm w1"
      "tree w1 = (tree w)(comps ?p \<mapsto> File [])" "lookup w1 (comps ?p) = Some i"
      "get_fd w1 = (get_fd w)(fd \<mapsto> \<lparr>of_ino = i, of_flags = ?fl, of_pos = 0\<rparr>)"
      "get_fd w fd = None" "os.more w1 = os.more w"
  proof (cases "tree w (comps ?p)")
    case None
    show ?thesis by (rule open_new [OF assms(1) None _ fl(1), of S_IRWXU]) (use assms(2) p that in auto)
  next
    case (Some n)
    then obtain bs where bs: "tree w (comps ?p) = Some (File bs)" using assms(4) p by (cases n) auto
    show ?thesis by (rule open_file [OF assms(1) bs, of ?fl S_IRWXU]) (use fl that in auto)
  qed
  have f1: "get_fd w1 fd = Some \<lparr>of_ino = i, of_flags = ?fl, of_pos = 0\<rparr>" "tree w1 (comps ?p) = Some (File [])"
    using w1(3,5) by simp_all
  obtain w2 where w2: "sys_pwrite fd (str_bytes q @ [0]) 0 w1 = (Inr (length q + 1), w2)" "calm w2"
      "tree w2 = (tree w1)(comps ?p \<mapsto> File (str_bytes q @ [0]))" "get_fd w2 = get_fd w1"
      "os.more w2 = os.more w1"
    using pwrite_pointer [OF w1(2) f1(1) _ _ _ f1(2) assms(5)] fl(4,5) w1(4) by auto
  obtain w3 where w3: "sys_close fd w2 = (Inr (), w3)" "calm w3" "tree w3 = tree w2"
      "get_fd w3 = (get_fd w2)(fd := None)" "os.more w3 = os.more w2"
    using close_calm [OF w2(2)] w1(5) w2(4) by (metis fun_upd_same)
  let ?w = "w3\<lparr>sn_lat_dir := q, sn_lat_dir_len := length q, sn_is_any := True, sn_number := Suc (sn_number w3)\<rparr>"
  have "sn_set_latest q w = (Inr (), ?w)"
    using p(1) w1(1) w2(1) w3(1) by (simp add: sn_set_latest_def str_bytes_def)
  moreover have "calm ?w" by (intro clm.latest clm.latest_len clm.any_sn clm.count [of "w3\<lparr>sn_lat_dir := q, sn_lat_dir_len := length q, sn_is_any := True\<rparr>", simplified] w3(2))
  moreover have "get_fd ?w = get_fd w" using w3(4) w2(4) w1(5,6) by (auto simp: fun_eq_iff)
  moreover have "tree ?w = (tree w)(comps (sn_dir w) @ [EXT_HID] \<mapsto> File (str_bytes q @ [0]))"
    using w3(3) w2(3) w1(3) p(2) by simp
  moreover have "os.more ?w = os.more (w\<lparr>sn_lat_dir := q, sn_lat_dir_len := length q, sn_is_any := True,
      sn_number := Suc (sn_number w)\<rparr>)"
    using w3(5) w2(5) w1(7) by (cases w; cases w3) simp
  ultimately show ?thesis using that by blast
qed

section \<open>Creating a snapshot\<close>

lemma env_more: "get_fd w' = get_fd w \<Longrightarrow> os.more w' = os.more w \<Longrightarrow> env_of w' = env_of w"
  using more_fields [of w' w] by (simp add: env_of_def)

lemma env_latest [simp]:
  "env_of (w\<lparr>sn_is_any := x\<rparr>) = env_of w" "env_of (w\<lparr>sn_lat_dir := q\<rparr>) = env_of w"
  "env_of (w\<lparr>sn_lat_dir_len := n\<rparr>) = env_of w" "env_of (w\<lparr>sn_number := n\<rparr>) = env_of w"
  by (simp_all add: env_of_def)

lemma set_latest_fields:
  assumes "os.more w' = os.more (w\<lparr>sn_lat_dir := q, sn_lat_dir_len := n, sn_is_any := True, sn_number := m\<rparr>)"
    and "get_fd w' = get_fd w"
  shows "sn_lat_dir w' = q" "sn_lat_dir_len w' = n" "sn_is_any w'" "sn_number w' = m" "env_of w' = env_of w"
  using more_fields [OF assms(1)] assms(2) by (simp_all add: env_of_def)

lemma sn_create_body_first:
  assumes "calm w" and "tree w (comps (sn_dir w)) = Some Dir" and "length (sn_dir w) + EXT_LEN + 1 < PATH_MAX"
    and "tree w (comps (sn_dir w) @ [EXT_HID]) = None" and "length q < PATH_MAX" and "\<not> sn_is_any w"
  obtains w' where "sn_create_body q w = (Inr (), w')" and "calm w'" and "env_of w' = env_of w"
    and "tree w' = (tree w)(comps (sn_dir w) @ [EXT_HID] \<mapsto> File (str_bytes q @ [0]))"
    and "sn_lat_dir w' = q" and "sn_lat_dir_len w' = length q" and "sn_is_any w'"
proof -
  have "tree w (comps (sn_dir w) @ [EXT_HID]) \<noteq> Some Dir" using assms(4) by simp
  from sn_set_latest_calm [OF assms(1-3) this assms(5)] obtain w' where w': "sn_set_latest q w = (Inr (), w')"
    "calm w'" "get_fd w' = get_fd w"
    "tree w' = (tree w)(comps (sn_dir w) @ [EXT_HID] \<mapsto> File (str_bytes q @ [0]))"
    "os.more w' = os.more (w\<lparr>sn_lat_dir := q, sn_lat_dir_len := length q, sn_is_any := True,
      sn_number := Suc (sn_number w)\<rparr>)" by blast
  then show ?thesis using that assms(6) set_latest_fields [OF w'(5,3)] by (simp add: sn_create_body_def)
qed

lemma sn_create_body_next:
  assumes c: "calm w" "tree w (comps (sn_dir w)) = Some Dir" "length (sn_dir w) + EXT_LEN + 1 < PATH_MAX"
    and hid: "tree w (comps (sn_dir w) @ [EXT_HID]) \<noteq> Some Dir"
    and id: "good_name x" "length (sn_root (sn_dir w) x) + EXT_LEN < PATH_MAX"
    and new: "tree w (comps (sn_dir w) @ [x @ EXT_HID]) = None"
    and lat: "sn_is_any w" "length (sn_lat_dir w) < PATH_MAX"
  obtains w' where "sn_create_body (sn_root (sn_dir w) x) w = (Inr (), w')" and "calm w'" and "env_of w' = env_of w"
    and "tree w' = (tree w)(comps (sn_dir w) @ [x @ EXT_HID] \<mapsto> File (str_bytes (sn_lat_dir w) @ [0]),
       comps (sn_dir w) @ [EXT_HID] \<mapsto> File (str_bytes (sn_root (sn_dir w) x) @ [0]))"
    and "sn_lat_dir w' = sn_root (sn_dir w) x" and "sn_lat_dir_len w' = length (sn_root (sn_dir w) x)"
    and "sn_is_any w'"
proof -
  let ?D = "sn_dir w" and ?fl = "O_WRONLY OR O_CREAT OR O_EXCL :: oflags"
  let ?p = "sn_root ?D x" and ?h = "sn_root ?D (x @ EXT_HID)"
  have fl: "has_flag ?fl O_CREAT" "\<not> has_flag ?fl O_APPEND" "writable ?fl" by (simp_all add: has_flag_def writable_def)
  have h: "comps ?h = comps ?D @ [x @ EXT_HID]" using id(1) by (simp add: comps_sn_root good_hid)
  have x: "x \<noteq> []" using id(1) by (simp add: good_name_def)
  obtain fd i w1 where w1: "sys_open ?h ?fl S_IRWXU w = (Inr fd, w1)" "calm w1"
      "tree w1 = (tree w)(comps ?h \<mapsto> File [])" "lookup w1 (comps ?h) = Some i"
      "get_fd w1 = (get_fd w)(fd \<mapsto> \<lparr>of_ino = i, of_flags = ?fl, of_pos = 0\<rparr>)"
      "get_fd w fd = None" "os.more w1 = os.more w"
    by (rule open_new [OF c(1) _ _ fl(1), of ?h S_IRWXU]) (use c(2) h new in auto)
  note m1 = more_fields [OF w1(7)]
  have f1: "get_fd w1 fd = Some \<lparr>of_ino = i, of_flags = ?fl, of_pos = 0\<rparr>" "tree w1 (comps ?h) = Some (File [])"
    using w1(3,5) by simp_all
  obtain w2 where w2: "sys_pwrite fd (str_bytes (sn_lat_dir w) @ [0]) 0 w1 = (Inr (length (sn_lat_dir w) + 1), w2)"
      "calm w2" "tree w2 = (tree w1)(comps ?h \<mapsto> File (str_bytes (sn_lat_dir w) @ [0]))"
      "get_fd w2 = get_fd w1" "os.more w2 = os.more w1"
    using pwrite_pointer [OF w1(2) f1(1) _ _ _ f1(2) lat(2)] fl(2,3) w1(4) by auto
  note m2 = more_fields [OF w2(5)]
  obtain w3 where w3: "sn_set_latest ?p w2 = (Inr (), w3)" "calm w3" "get_fd w3 = get_fd w2"
      "tree w3 = (tree w2)(comps ?D @ [EXT_HID] \<mapsto> File (str_bytes ?p @ [0]))"
      "os.more w3 = os.more (w2\<lparr>sn_lat_dir := ?p, sn_lat_dir_len := length ?p, sn_is_any := True,
        sn_number := Suc (sn_number w2)\<rparr>)"
    using sn_set_latest_calm [OF w2(2), of ?p] c(2,3) hid id(2) h x w1(3) w2(3) m1(1) m2(1) by auto
  note m3 = set_latest_fields [OF w3(5,3)]
  have "get_fd w3 fd = Some \<lparr>of_ino = i, of_flags = ?fl, of_pos = 0\<rparr>" using w3(3) w2(4) f1(1) by simp
  then obtain w4 where w4: "sys_close fd w3 = (Inr (), w4)" "calm w4" "tree w4 = tree w3"
      "get_fd w4 = (get_fd w3)(fd := None)" "os.more w4 = os.more w3"
    using close_calm [OF w3(2)] by blast
  note m4 = more_fields [OF w4(5)]
  have "write_pointer fd ?p w1 = (Inr (), w3)" using w2(1) w3(1) m1 by (simp add: write_pointer_def)
  then have "sn_create_body ?p w = (Inr (), w4)"
    using lat(1) sn_hid_path [OF id(2)] w1(1) w4(1) by (simp add: sn_create_body_def)
  moreover have "get_fd w4 = get_fd w" using w4(4) w3(3) w2(4) w1(5,6) by (auto simp: fun_eq_iff)
  moreover from this have "env_of w4 = env_of w"
    using m1 m2 m3(5) m4 by (simp add: env_of_def)
  ultimately show ?thesis using that w4(2,3) w3(4) w2(3) w1(3) h m3 m4 by simp
qed

lemma dir_of_upd [simp]: "dir_of (t(K @ [a] := u)) K = (dir_of t K)(a := u)"
  by (simp add: dir_of_def fun_eq_iff)

lemma outside_upd [simp]: "\<nexists>y. k = K @ [y] \<Longrightarrow> (t(K @ [a] := u)) k = t k"
  by auto

lemma sn_create_body_chain:
  assumes o: "on_disk w ids" and any: "sn_is_any w = (ids \<noteq> [])"
    and lat: "ids \<noteq> [] \<longrightarrow> sn_lat_dir w = sn_root (sn_dir w) (hd ids)"
    and x: "good_id (sn_dir w) x" "x \<notin> set ids"
    and w1: "calm w1" "tree w1 = (tree w)(comps (sn_dir w) @ [x] \<mapsto> Dir)" "os.more w1 = os.more w"
  obtains w2 where "sn_create_body (sn_root (sn_dir w) x) w1 = (Inr (), w2)" and "calm w2" and "env_of w2 = env_of w1"
    and "dir_of (tree w2) (comps (sn_dir w)) = listing (sn_dir w) (x # ids)"
    and "\<forall>k. (\<nexists>y. k = comps (sn_dir w) @ [y]) \<longrightarrow> tree w2 k = tree w k"
    and "sn_lat_dir w2 = sn_root (sn_dir w) x" and "sn_lat_dir_len w2 = length (sn_root (sn_dir w) x)"
    and "sn_is_any w2"
proof -
  let ?D = "sn_dir w" and ?K = "comps (sn_dir w)"
  note m = more_fields [OF w1(3)]
  have t: "dir_of (tree w) ?K = listing ?D ids" using o by (simp add: on_disk_def dir_of_def fun_eq_iff)
  have t1: "dir_of (tree w1) ?K = (listing ?D ids)(x \<mapsto> Dir)" using w1(2) t by simp
  have g: "good_name x" "x \<noteq> EXT_HID" "length (sn_root ?D x) + EXT_LEN < PATH_MAX" "x \<noteq> []"
    using x by (auto simp: good_id_def good_name_def)
  have c1: "tree w1 (comps (sn_dir w1)) = Some Dir" "length (sn_dir w1) + EXT_LEN + 1 < PATH_MAX"
    using o w1(2) m(1) by (simp_all add: on_disk_def)
  have at: "tree w1 (comps (sn_dir w1) @ [y]) = ((listing ?D ids)(x \<mapsto> Dir)) y" for y
    using fun_cong [OF t1, of y] m(1) by (simp add: dir_of_def)
  show ?thesis
  proof (cases ids)
    case Nil
    have h: "tree w1 (comps (sn_dir w1) @ [EXT_HID]) = None" "\<not> sn_is_any w1" "length (sn_root ?D x) < PATH_MAX"
      using Nil at [of EXT_HID] any m(6) g(2,3) by (simp_all add: listing_hid)
    obtain w2 where w2: "sn_create_body (sn_root ?D x) w1 = (Inr (), w2)" "calm w2" "env_of w2 = env_of w1"
        "tree w2 = (tree w1)(?K @ [EXT_HID] \<mapsto> pointer ?D x)"
        "sn_lat_dir w2 = sn_root ?D x" "sn_lat_dir_len w2 = length (sn_root ?D x)" "sn_is_any w2"
      using sn_create_body_first [OF w1(1) c1 h(1,3,2)] m(1) by (auto simp: pointer_def)
    show ?thesis
      by (rule that [OF w2(1-3) _ _ w2(5-7)]) (use w2(4) w1(2) t1 Nil in \<open>simp_all add: listing_Cons\<close>)
  next
    case (Cons b bs)
    have h: "tree w1 (comps (sn_dir w1) @ [EXT_HID]) \<noteq> Some Dir" "sn_is_any w1" "sn_lat_dir w1 = sn_root ?D b"
      "length (sn_lat_dir w1) < PATH_MAX" "tree w1 (comps (sn_dir w1) @ [x @ EXT_HID]) = None"
      "length (sn_root (sn_dir w1) x) + EXT_LEN < PATH_MAX"
      using Cons at any lat m(1,4,6) g listing_new [OF on_disk_filter [OF o] x(2) g(4)] chain_names(5) [OF o, of b]
      by (simp_all add: listing_hid pointer_def)
    obtain w2 where w2: "sn_create_body (sn_root ?D x) w1 = (Inr (), w2)" "calm w2" "env_of w2 = env_of w1"
        "tree w2 = (tree w1)(?K @ [x @ EXT_HID] \<mapsto> pointer ?D b, ?K @ [EXT_HID] \<mapsto> pointer ?D x)"
        "sn_lat_dir w2 = sn_root ?D x" "sn_lat_dir_len w2 = length (sn_root ?D x)" "sn_is_any w2"
      using sn_create_body_next [OF w1(1) c1 h(1) g(1) h(6,5,2,4)] m(1) h(3) by (auto simp: pointer_def)
    show ?thesis
      by (rule that [OF w2(1-3) _ _ w2(5-7)]) (use w2(4) w1(2) t1 Cons in \<open>simp_all add: listing_Cons\<close>)
  qed
qed

lemma sn_create_chain:
  assumes s: "snaps w ids" and x: "good_id (sn_dir w) x"
  shows "\<exists>w'. sn_create (sn_root (sn_dir w) x) w = ((if x \<in> set ids then Inl EEXIST else Inr ()), w')
    \<and> snaps w' (if x \<in> set ids then ids else x # ids) \<and> env_of w' = env_of w
    \<and> (\<forall>k. (\<nexists>y. k = comps (sn_dir w) @ [y]) \<longrightarrow> tree w' k = tree w k)"
proof -
  let ?D = "sn_dir w"
  have o: "on_disk w ids" and c: "calm w" "tree w (comps ?D) = Some Dir" "length ?D + EXT_LEN + 1 < PATH_MAX"
    using s by (simp_all add: snaps_def on_disk_def)
  have t: "tree w (comps ?D @ [y]) = listing ?D ids y" for y using o by (simp add: on_disk_def)
  have g: "good_name x" "sn_filter_name x" "length (sn_root ?D x) + EXT_LEN < PATH_MAX" "x \<noteq> []"
    using x by (auto simp: good_id_def good_name_def)
  have k: "comps (sn_root ?D x) = comps ?D @ [x]" using g(1) by (rule comps_sn_root)
  show ?thesis
  proof (cases "x \<in> set ids")
    case True
    then have "tree w (comps (sn_root ?D x)) = Some Dir"
      using t k listing_root [OF on_disk_filter [OF o] g(2)] by simp
    then have "sn_create (sn_root ?D x) w = (Inl EEXIST, w)"
      using mkdir_exists [OF c(1)] by (simp add: sn_create_def)
    then show ?thesis using True s by simp
  next
    case False
    then have "tree w (comps (sn_root ?D x)) = None" "tree w (butlast (comps (sn_root ?D x))) = Some Dir"
      using t k c(2) listing_root [OF on_disk_filter [OF o] g(2)] by simp_all
    then obtain w1 where w1: "sys_mkdir (sn_root ?D x) S_IRWXU w = (Inr (), w1)" "calm w1"
        "tree w1 = (tree w)(comps ?D @ [x] \<mapsto> Dir)" "rest w1 = rest w"
      using mkdir_new [OF c(1), of "sn_root ?D x" S_IRWXU] k by auto
    have r: "os.more w1 = os.more w" "get_fd w1 = get_fd w" using rest_fields [OF w1(4)] by simp_all
    note m = more_fields [OF r(1)]
    have any: "sn_is_any w = (ids \<noteq> [])" "ids \<noteq> [] \<longrightarrow> sn_lat_dir w = sn_root ?D (hd ids)"
      using s by (simp_all add: snaps_def)
    obtain w2 where w2: "sn_create_body (sn_root ?D x) w1 = (Inr (), w2)" "calm w2" "env_of w2 = env_of w1"
      "dir_of (tree w2) (comps ?D) = listing ?D (x # ids)"
      "\<forall>k. (\<nexists>y. k = comps ?D @ [y]) \<longrightarrow> tree w2 k = tree w k"
      "sn_lat_dir w2 = sn_root ?D x" "sn_lat_dir_len w2 = length (sn_root ?D x)" "sn_is_any w2"
      by (rule sn_create_body_chain [OF o any x False w1(2,3) r(1)])
    have e: "env_of w2 = env_of w" using w2(3) env_more [OF r(2,1)] by simp
    then have d: "sn_dir w2 = ?D" by (simp add: env_of_def)
    have "tree w2 (comps ?D @ [y]) = listing ?D (x # ids) y" for y
      using fun_cong [OF w2(4), of y] by (simp add: dir_of_def)
    moreover have "tree w2 (comps ?D) = Some Dir" using w2(5) c(2) by simp
    ultimately have "snaps w2 (x # ids)"
      using w2(2,6-8) o x False d by (simp add: snaps_def on_disk_def)
    moreover have "sn_create (sn_root ?D x) w = (Inr (), w2)" using w1(1) w2(1) by (simp add: sn_create_def)
    ultimately show ?thesis using False e w2(5) by auto
  qed
qed

section \<open>Destroying a snapshot\<close>

lemma dir_of_without [simp]: "dir_of (without (K @ [z]) t) K = (dir_of t K)(z := None)"
  by (simp add: dir_of_def without_def fun_eq_iff)

lemma sn_get_earliest_chain:
  assumes "snaps w ids" and "ids \<noteq> []" and "length ids \<le> MAX_SNAPSHOTS"
  obtains w' where "same w w'" and "sn_get_earliest w =
    ((Inr (if length ids = 1 then 2 else 0), sn_root (sn_dir w) (last ids),
      if length ids = 1 then [] else sn_root (sn_dir w) (last (butlast ids) @ EXT_HID)), w')"
proof -
  obtain a ys where ids: "ids = a # ys" using assms(2) by (cases ids) auto
  have o: "on_disk w ([] @ a # ys)" "sn_is_any w" "sn_lat_dir w = sn_root (sn_dir w) a"
    using assms(1) ids by (simp_all add: snaps_def)
  have "length ([] :: string list) + length ys < MAX_SNAPSHOTS" using assms(3) ids by simp
  from earliest_loop_chain [OF o(1) this, of "[]"] that o(2,3) ids show ?thesis
    by (auto simp: sn_get_earliest_def)
qed

text \<open>Taking out a pointer file \<open>h\<close> and the tree of the snapshot \<open>z\<close>.\<close>

lemma unlink_and_remove:
  assumes "calm w" and "ready t w" and "good_name z" and "good_name h" and "h \<noteq> z"
    and "tree w (comps D @ [h]) = Some (File bs)" and "tree w (comps D @ [z]) = Some Dir"
  obtains w1 w2 where "sys_unlink (sn_root D h) w = (Inr (), w1)" and "recursive_remove (sn_root D z) w1 = Some (Inr (), w2)"
    and "calm w2" and "rest w2 = rest w" and "rest w1 = rest w"
    and "tree w2 = without (comps D @ [z]) ((tree w)(comps D @ [h] := None))"
proof -
  have k: "comps (sn_root D h) = comps D @ [h]" "comps (sn_root D z) = comps D @ [z]"
    using assms(3,4) by (simp_all add: comps_sn_root)
  obtain w1 where w1: "sys_unlink (sn_root D h) w = (Inr (), w1)" "calm w1" "tree w1 = (tree w)(comps D @ [h] := None)"
      "rest w1 = rest w"
    by (rule unlink_file [OF assms(1), of "sn_root D h"]) (use k assms(6) in auto)
  have "ready t w1" using assms(2) more_fields [of w1 w] rest_fields [OF w1(4)] by (simp add: at_locks_def)
  then obtain w2 where "recursive_remove (sn_root D z) w1 = Some (Inr (), w2)" "calm w2" "rest w2 = rest w1"
      "tree w2 = without (comps (sn_root D z)) (tree w1)"
    by (rule recursive_remove_calm [OF w1(2), of t "sn_root D z"]) (use k(2) w1(3) assms(5,7) in auto)
  then show ?thesis using that w1 k by simp
qed

lemma snaps_intro:
  assumes "on_disk w ids" and "calm w'" and "env_of w' = env_of w" and "tree w' (comps (sn_dir w)) = Some Dir"
    and "dir_of (tree w') (comps (sn_dir w)) = listing (sn_dir w) js" and "distinct js" and "set js \<subseteq> set ids"
    and "sn_is_any w' = (js \<noteq> [])"
    and "js \<noteq> [] \<longrightarrow> sn_lat_dir w' = sn_root (sn_dir w) (hd js) \<and> sn_lat_dir_len w' = length (sn_lat_dir w')"
  shows "snaps w' js"
proof -
  have "sn_dir w' = sn_dir w" using assms(3) by (simp add: env_of_def)
  moreover have "tree w' (comps (sn_dir w) @ [x]) = listing (sn_dir w) js x" for x
    using fun_cong [OF assms(5), of x] by (simp add: dir_of_def)
  ultimately show ?thesis using assms by (auto simp: snaps_def on_disk_def list_all_iff)
qed

text \<open>The directory without the earliest snapshot and the file that points to it.\<close>

lemma earliest_pointer:
  assumes "on_disk w ids" and "ids \<noteq> []" and h_def: "h = earliest_hid ids"
  shows "good_name h" "h \<noteq> last ids" "\<exists>bs. listing D ids h = Some (File bs)"
    "listing D (butlast ids) = (listing D ids)(h := None, last ids := None)"
proof -
  have fl: "list_all sn_filter_name ids" and di: "distinct ids"
    using on_disk_filter [OF assms(1)] assms(1) by (simp_all add: on_disk_def)
  show "h \<noteq> last ids" using fl assms(2) filter_neq [of "last ids"] by (auto simp: h_def earliest_hid_def list_all_iff)
  consider a where "ids = [a]" | ys b z where "ids = ys @ [b, z]"
    using assms(2) by (metis append_Cons append_Nil append_assoc rev_exhaust)
  then have "good_name h \<and> (\<exists>bs. listing D ids h = Some (File bs))
    \<and> listing D (butlast ids) = (listing D ids)(h := None, last ids := None)"
  proof cases
    case 1
    then show ?thesis using fl filter_neq [of a] by (auto simp: h_def earliest_hid_def listing_def pointer_def fun_eq_iff)
  next
    case 2
    have b: "good_name b" "b \<noteq> []" using chain_names(2,3) [OF assms(1), of b] 2 by simp_all
    have "listing D (ys @ [b]) = (listing D (ys @ [b, z]))(z := None, b @ EXT_HID := None)"
      by (rule listing_snoc) (use fl di b(2) 2 in simp_all)
    moreover have "listing D (ys @ [b, z]) (b @ EXT_HID) = Some (pointer D z)"
      using listing_next [of ys b "[z]" D] fl di b(2) 2 by simp
    ultimately show ?thesis
      using 2 good_hid [OF b(1)] by (auto simp: h_def earliest_hid_def pointer_def butlast_append fun_eq_iff)
  qed
  then show "good_name h" "\<exists>bs. listing D ids h = Some (File bs)"
    "listing D (butlast ids) = (listing D ids)(h := None, last ids := None)" by blast+
qed

lemma sn_destroy_chain:
  assumes s: "snaps w ids" and "length ids \<le> MAX_SNAPSHOTS" and rd: "ready t w"
  shows "\<exists>w'. sn_destroy w = Some ((if ids = [] then Inl ENOENT else Inr ()), w')
    \<and> snaps w' (butlast ids) \<and> env_of w' = env_of w \<and> sn_lat_dir w' = sn_lat_dir w
    \<and> tree w' = (if ids = [] then tree w
        else without (comps (sn_dir w) @ [last ids]) ((tree w)(comps (sn_dir w) @ [earliest_hid ids] := None)))"
proof (cases "ids = []")
  case True
  then have "sn_destroy w = Some (Inl ENOENT, w)"
    using s by (simp add: sn_destroy_def sn_get_earliest_def snaps_def)
  then show ?thesis using True s by simp
next
  case False
  let ?D = "sn_dir w" and ?K = "comps (sn_dir w)"
  have o: "on_disk w ids" using s by (simp add: snaps_def)
  obtain w0 where w0: "same w w0" "sn_get_earliest w =
    ((Inr (if length ids = 1 then 2 else 0), sn_root ?D (last ids),
      if length ids = 1 then [] else sn_root ?D (last (butlast ids) @ EXT_HID)), w0)"
    by (rule sn_get_earliest_chain [OF s False assms(2)])
  note f = same_fields [OF w0(1)]
  have m0: "os.more w0 = os.more w" "get_fd w0 = get_fd w" using w0(1) by (simp_all add: same_def rest_def)
  have rd0: "ready t w0" using rd more_fields [OF m0(1)] by (simp add: at_locks_def)
  have t: "dir_of (tree w) ?K = listing ?D ids" using o by (simp add: on_disk_def dir_of_def fun_eq_iff)
  then have at: "tree w0 (?K @ [y]) = listing ?D ids y" for y using f(2) by (metis dir_of_def)
  let ?z = "last ids"
  have z: "?z \<in> set ids" "good_name ?z" "sn_filter_name ?z" "tree w0 (?K @ [?z]) = Some Dir"
    using False chain_names(1,2) [OF o, of ?z] at [of ?z] listing_root [OF on_disk_filter [OF o], of ?z ?D]
    by (simp_all add: good_id_def)
  define h where "h = earliest_hid ids"
  have h: "good_name h" "h \<noteq> ?z" "\<exists>bs. tree w0 (?K @ [h]) = Some (File bs)"
    "listing ?D (butlast ids) = (listing ?D ids)(h := None, ?z := None)"
    using earliest_pointer [OF o False h_def] at by simp_all
  then obtain bs where bs: "tree w0 (?K @ [h]) = Some (File bs)" by blast
  obtain w1 w2 where w2: "sys_unlink (sn_root ?D h) w0 = (Inr (), w1)"
      "recursive_remove (sn_root ?D ?z) w1 = Some (Inr (), w2)" "calm w2" "rest w2 = rest w0" "rest w1 = rest w0"
      "tree w2 = without (?K @ [?z]) ((tree w0)(?K @ [h] := None))"
    by (rule unlink_and_remove [OF f(1) rd0 z(2) h(1,2) bs z(4)])
  obtain a ys where ids: "ids = a # ys" using False by (cases ids) auto
  then have bl: "(butlast ids \<noteq> []) = (length ids \<noteq> 1)" "butlast ids \<noteq> [] \<Longrightarrow> hd (butlast ids) = hd ids"
    by (auto split: if_splits)
  let ?w = "if length ids = 1 then w2\<lparr>sn_is_any := False\<rparr> else w2"
  have m1: "sn_dir w1 = ?D" using more_fields(1) [of w1 w0] rest_fields [OF w2(5)] f(3) by simp
  have "sn_destroy w = Some (Inr (), ?w)"
    using w0(2) w2(1,2) o f(3) m1 unfolding h_def earliest_hid_def
    by (simp add: sn_destroy_def sn_dir_hid_path on_disk_def split: if_splits)
  moreover have e: "env_of w2 = env_of w" "sn_is_any w2 = sn_is_any w" "sn_lat_dir w2 = sn_lat_dir w"
      "sn_lat_dir_len w2 = sn_lat_dir_len w"
    using env_more [of w2 w0] env_more [OF m0(2,1)] more_fields [of w2 w0] rest_fields [OF w2(4)] f by simp_all
  moreover have tr: "tree ?w = tree w2" "calm ?w" "env_of ?w = env_of w2" using clm.any_sn [OF w2(3)] w2(3) by simp_all
  moreover have "snaps ?w (butlast ids)"
  proof (rule snaps_intro [OF o tr(2)])
    show "tree ?w ?K = Some Dir" using o w2(6) f(2) tr(1) by (simp add: on_disk_def without_def)
    show "dir_of (tree ?w) ?K = listing ?D (butlast ids)" using w2(6) tr(1) t f(2) h(4) by simp
    show "distinct (butlast ids)" "set (butlast ids) \<subseteq> set ids"
      using o by (auto simp: on_disk_def distinct_butlast dest: in_set_butlastD)
    show "sn_is_any ?w = (butlast ids \<noteq> [])"
      using e(2) s False bl by (simp add: snaps_def)
    show "butlast ids \<noteq> [] \<longrightarrow> sn_lat_dir ?w = sn_root ?D (hd (butlast ids)) \<and> sn_lat_dir_len ?w = length (sn_lat_dir ?w)"
      using e s False bl by (auto simp: snaps_def)
  qed (use e tr in simp)
  ultimately show ?thesis using False w2(6) f(2) unfolding h_def by auto
qed

end
