(* ===== verification/Server.thy ===== *)
theory Server
  imports Progress
begin

text \<open>
  The program as FUSE runs it: the table of operations of \<open>esfs.c\<close> as one function \<open>serve\<close> from a
  request and the state to the reply and the new state. The state has the handles that FUSE keeps
  in \<open>fi->fh\<close> between the calls. Requests come one at a time; interleaved threads are the subject of
  the theory \<open>Mflock\<close>.
\<close>

section \<open>Requests and replies\<close>

datatype request =
    Getattr string | Readlink string | Mknod string mode | Mkdir string mode | Unlink string
  | Rmdir string | Symlink string string | Rename string string | Link string string
  | Chmod string mode | Chown string "32 word" "32 word" | Truncate_path string nat
  | Open string oflags | Read nat nat nat | Write_to nat "byte list" nat | Statfs string | Flush nat
  | Release nat | Fsync nat | Setxattr string string | Getxattr string string | Listxattr string
  | Removexattr string string | Opendir string | Readdir nat | Releasedir nat | Fsyncdir nat
  | Access string "32 word" | Create string mode oflags | Ftruncate nat nat | Fgetattr nat
  | Utimens string

datatype payload = Done | Attr stat | Handle nat | Count nat | Bytes "byte list" | Names entries | Target string

type_synonym reply = "payload res"

record server =
  fs :: world
  fhs :: "mfd option list"

text \<open>
  What the environment chooses at a call: the bytes the new memory has, the buffer of \<open>readdir\<close>, and
  the compile-time parameter \<open>SAVE_ON_UTIMENSAT\<close>.
\<close>

record environment =
  garbage :: stat
  filler :: "entries \<Rightarrow> string \<times> stat option \<Rightarrow> bool"
  save_utimens :: bool

definition reply :: "('a \<Rightarrow> payload) \<Rightarrow> server \<Rightarrow> 'a res \<times> world \<Rightarrow> reply \<times> server" where
  "reply f s x = (map_sum id f (fst x), s\<lparr>fs := snd x\<rparr>)"

abbreviation ack :: "unit \<Rightarrow> payload" where
  "ack \<equiv> \<lambda>_. Done"

text \<open>A successful \<open>open\<close>, \<open>create\<close> or \<open>opendir\<close> sets \<open>fi->fh\<close>.\<close>

definition opened :: "server \<Rightarrow> (unit res \<times> mfd option) \<times> world \<Rightarrow> reply \<times> server" where
  "opened s x =
     (case fst x of
        (Inl e, _) \<Rightarrow> (Inl e, s\<lparr>fs := snd x\<rparr>)
      | (Inr _, None) \<Rightarrow> (Inr Done, s\<lparr>fs := snd x\<rparr>)
      | (Inr _, Some m) \<Rightarrow>
          (let n = first_free (fhs s)
           in (Inr (Handle n), s\<lparr>fs := snd x, fhs := put_slot (fhs s) n m\<rparr>)))"

definition get_fh :: "server \<Rightarrow> nat \<Rightarrow> mfd option" where
  "get_fh s n = (if n < length (fhs s) then fhs s ! n else None)"

text \<open>FUSE sends a request for a handle only while it is open; the kernel answers the others.\<close>

definition with_fh :: "server \<Rightarrow> nat \<Rightarrow> (mfd \<Rightarrow> (reply \<times> server) option) \<Rightarrow> (reply \<times> server) option" where
  "with_fh s n k = (case get_fh s n of None \<Rightarrow> Some (Inl EBADF, s) | Some m \<Rightarrow> k m)"

definition changed :: "server \<Rightarrow> nat \<Rightarrow> ('a \<Rightarrow> payload) \<Rightarrow> ('a res \<times> mfd) \<times> world \<Rightarrow> reply \<times> server" where
  "changed s n f x =
     (map_sum id f (fst (fst x)), s\<lparr>fs := snd x, fhs := (fhs s)[n := Some (snd (fst x))]\<rparr>)"

definition dropped :: "server \<Rightarrow> nat \<Rightarrow> unit res \<times> world \<Rightarrow> reply \<times> server" where
  "dropped s n x = (map_sum id ack (fst x), s\<lparr>fs := snd x, fhs := (fhs s)[n := None]\<rparr>)"

definition serve :: "environment \<Rightarrow> request \<Rightarrow> server \<Rightarrow> (reply \<times> server) option" where
  "serve env rq s =
     (let w = fs s; g = garbage env in
      case rq of
        Getattr p \<Rightarrow> Some (reply Attr s (getattr_op g p w))
      | Readlink p \<Rightarrow> Some (map_sum id Target (readlink_op p), s)
      | Mknod p md \<Rightarrow> Some (map_sum id ack (mknod_op p md), s)
      | Mkdir p md \<Rightarrow> map_option (reply ack s) (mkdir_op g p md w)
      | Unlink p \<Rightarrow> map_option (reply ack s) (unlink_op g p w)
      | Rmdir p \<Rightarrow> map_option (reply ack s) (rmdir_op p w)
      | Symlink d p \<Rightarrow> Some (map_sum id ack (symlink_op d p), s)
      | Rename p q \<Rightarrow> Some (map_sum id ack (rename_op p q), s)
      | Link p q \<Rightarrow> Some (map_sum id ack (link_op p q), s)
      | Chmod p md \<Rightarrow> map_option (reply ack s) (chmod_op g p md w)
      | Chown p u gr \<Rightarrow> map_option (reply ack s) (chown_op g p u gr w)
      | Truncate_path p n \<Rightarrow> map_option (reply ack s) (truncate_op g p n w)
      | Open p fl \<Rightarrow> map_option (opened s) (open_op g p fl w)
      | Read fh n off \<Rightarrow>
          with_fh s fh (\<lambda>m. map_option
            (\<lambda>((r, buf), w). (map_sum id (\<lambda>k. Bytes (take k buf)) r, s\<lparr>fs := w\<rparr>))
            (read_op (replicate n 0) n off m w))
      | Write_to fh buf off \<Rightarrow> with_fh s fh (\<lambda>m. map_option (changed s fh Count) (write_op buf off m w))
      | Statfs p \<Rightarrow> Some (reply ack s (statfs_op p w))
      | Flush fh \<Rightarrow> with_fh s fh (\<lambda>m. Some (map_sum id ack flush_op, s))
      | Release fh \<Rightarrow> with_fh s fh (\<lambda>m. Some (dropped s fh (release_op m w)))
      | Fsync fh \<Rightarrow> with_fh s fh (\<lambda>m. Some (reply ack s (fsync_op m w)))
      | Setxattr p n \<Rightarrow> Some (map_sum id ack (setxattr_op p n), s)
      | Getxattr p n \<Rightarrow> Some (map_sum id Count (getxattr_op p n), s)
      | Listxattr p \<Rightarrow> Some (map_sum id Count (listxattr_op p), s)
      | Removexattr p n \<Rightarrow> Some (map_sum id ack (removexattr_op p n), s)
      | Opendir p \<Rightarrow> Some (opened s (opendir_op g p w))
      | Readdir fh \<Rightarrow>
          with_fh s fh (\<lambda>m. Some (case readdir_op (filler env) m w of
            ((r, es), w) \<Rightarrow> (map_sum id (\<lambda>_. Names es) r, s\<lparr>fs := w\<rparr>)))
      | Releasedir fh \<Rightarrow> with_fh s fh (\<lambda>m. Some (dropped s fh (releasedir_op m w)))
      | Fsyncdir fh \<Rightarrow> with_fh s fh (\<lambda>m. Some (map_sum id ack fsyncdir_op, s))
      | Access p am \<Rightarrow> Some (reply ack s (access_op g p am w))
      | Create p md fl \<Rightarrow> map_option (opened s) (create_op g p md fl w)
      | Ftruncate fh n \<Rightarrow> with_fh s fh (\<lambda>m. map_option (changed s fh ack) (ftruncate_op n m w))
      | Fgetattr fh \<Rightarrow> with_fh s fh (\<lambda>m. Some (reply Attr s (fgetattr_op m w)))
      | Utimens p \<Rightarrow> map_option (reply ack s) (utimens_op (save_utimens env) g p w))"

definition env0 :: environment where
  "env0 = \<lparr>garbage = \<lparr>st_mode = 0, st_uid = 0, st_gid = 0, st_size = 0\<rparr>, filler = (\<lambda>_ _. True),
     save_utimens = True\<rparr>"

section \<open>Runs\<close>

text \<open>
  A run starts when \<open>main\<close> hands over to FUSE on a well-formed disk, and goes on with any sequence of
  requests. The schedule of faults, the result of \<open>realpath\<close> and the environment are arbitrary.
\<close>

inductive reachable :: "server \<Rightarrow> bool" where
  boot: "os_wf w0 \<Longrightarrow> esfs_main realpath log_open args w0 = (Inr fuse_args, w) \<Longrightarrow>
    reachable \<lparr>fs = init_op w, fhs = []\<rparr>"
| request: "reachable s \<Longrightarrow> serve env rq s = Some (rp, s') \<Longrightarrow> reachable s'"

text \<open>What holds in every state of a run.\<close>

definition server_ok :: "server \<Rightarrow> bool" where
  "server_ok s \<longleftrightarrow>
     os_wf (fs s) \<and> mflocks (fs s) = table0 \<and> euid (fs s) \<noteq> 0 \<and> bl_slog (fs s) = BL_SLOG \<and>
     rootdir_len (fs s) = length (rootdir (fs s)) \<and> sn_dir (fs s) = rootdir (fs s) @ SNDIR"

section \<open>Every request is answered\<close>

lemma serve_quiet_locks: "mflocks w = table0 \<Longrightarrow> ready (self w) w"
  by (simp add: at_locks_def)

lemmas op_returns = mkdir_op_returns unlink_op_returns rmdir_op_returns chmod_op_returns
  chown_op_returns truncate_op_returns open_op_returns read_op_returns write_op_returns
  create_op_returns ftruncate_op_returns utimens_op_returns

lemmas quiet_ops = lks.getattr_op_kept [OF prod.collapse [symmetric]]
  lks.statfs_op_kept [OF prod.collapse [symmetric]] lks.release_op_kept [OF prod.collapse [symmetric]]
  lks.fsync_op_kept [OF prod.collapse [symmetric]] lks.opendir_op_kept [OF prod.collapse [symmetric]]
  lks.releasedir_op_kept [OF prod.collapse [symmetric]] lks.access_op_kept [OF prod.collapse [symmetric]]
  lks.fgetattr_op_kept [OF prod.collapse [symmetric]]

lemma fs_reply [simp]: "fs (snd (reply f s x)) = snd x"
  by (simp add: reply_def)

lemma fs_opened [simp]: "fs (snd (opened s x)) = snd x"
  by (simp add: opened_def Let_def split: prod.split sum.split option.split)

lemma fs_changed [simp]: "fs (snd (changed s n f x)) = snd x"
  by (simp add: changed_def)

lemma fs_dropped [simp]: "fs (snd (dropped s n x)) = snd x"
  by (simp add: dropped_def)

lemma serve_returns:
  assumes "ready t (fs s)"
  shows "returns (serve env rq s) (\<lambda>x. ready t (fs (snd x)))"
  using assms
  by (cases rq)
    (auto simp: serve_def with_fh_def split: option.split prod.splits
      dest!: lks.readdir_op_kept intro!: op_returns quiet_ops returns_seq [OF read_op_returns])

section \<open>What every request keeps\<close>

context state_inv
begin

lemmas ops_kept = mkdir_op_kept unlink_op_kept rmdir_op_kept chmod_op_kept chown_op_kept
  truncate_op_kept open_op_kept read_op_kept write_op_kept create_op_kept ftruncate_op_kept
  utimens_op_kept readdir_op_kept

lemmas ops_kept_pair = getattr_op_kept [OF prod.collapse [symmetric]]
  statfs_op_kept [OF prod.collapse [symmetric]] release_op_kept [OF prod.collapse [symmetric]]
  fsync_op_kept [OF prod.collapse [symmetric]] opendir_op_kept [OF prod.collapse [symmetric]]
  releasedir_op_kept [OF prod.collapse [symmetric]] access_op_kept [OF prod.collapse [symmetric]]
  fgetattr_op_kept [OF prod.collapse [symmetric]]

lemma serve_fs: "serve env rq s = Some x \<Longrightarrow> P (fs s) \<Longrightarrow> P (fs (snd x))"
  by (cases rq)
    (auto simp: serve_def with_fh_def split: option.splits prod.splits
      intro: ops_kept_pair dest: ops_kept)

end

section \<open>The start\<close>

lemma os_wf_world [simp]:
  "os_wf (w\<lparr>rootdir := r\<rparr>) = os_wf w" "os_wf (w\<lparr>rootdir_len := n\<rparr>) = os_wf w"
  "os_wf (w\<lparr>sn_number := n\<rparr>) = os_wf w" "os_wf (w\<lparr>sn_dir := d\<rparr>) = os_wf w"
  "os_wf (w\<lparr>block_buffer := b\<rparr>) = os_wf w" "os_wf (w\<lparr>mflocks := T\<rparr>) = os_wf w"
  "os_wf (w\<lparr>bl_slog := n\<rparr>) = os_wf w" "os_wf (w\<lparr>fates := x\<rparr>) = os_wf w"
  for w :: world
  by (simp_all add: os_wf_def lookup_def is_dir_def get_fd_def)

lemma map_path_Inr: "map_path p w = Inr q \<Longrightarrow> q = take (rootdir_len w) (rootdir w) @ p"
  by (simp add: map_path_def split: if_splits)

lemma esfs_setup_ok:
  assumes "esfs_setup root w = (True, w')" and "os_wf w"
  shows "os_wf w' \<and> mflocks w' = table0 \<and> rootdir w' = root \<and> rootdir_len w' = length root
    \<and> sn_dir w' = root @ SNDIR \<and> euid w' = euid w \<and> bl_slog w' = bl_slog w"
proof -
  let ?w = "w\<lparr>rootdir := root, rootdir_len := length root, sn_number := 0\<rparr>"
  obtain d where d: "map_path SNDIR ?w = Inr d"
    using assms(1) by (auto simp: esfs_setup_def Let_def split: sum.splits)
  obtain r1 w1 where c: "sn_check_dir (?w\<lparr>sn_dir := d\<rparr>) = (r1, w1)" by fastforce
  obtain r2 w2 where l: "sn_get_latest w1 = (r2, w2)" by fastforce
  have wf: "os_wf w2"
    using assms(2) by (intro wf.sn_get_latest_kept [OF l] wf.sn_check_dir_kept [OF c]) simp
  have "constants w2 = constants (?w\<lparr>sn_dir := d\<rparr>)"
    by (intro cst.sn_get_latest_kept [OF l] cst.sn_check_dir_kept [OF c]) simp
  then have k: "rootdir w2 = root" "rootdir_len w2 = length root" "sn_dir w2 = d" "euid w2 = euid w"
    "bl_slog w2 = bl_slog w"
    by (simp_all add: constants_def)
  have "d = root @ SNDIR" using map_path_Inr [OF d] by simp
  with assms(1) d c l wf k show ?thesis
    by (auto simp: esfs_setup_def b_init_block_buffer_def mflock_init_def table0_def Let_def
        dest!: malloc_ok_eq split: sum.splits if_splits prod.splits
        intro: wf.fate)
qed

section \<open>Reachable states\<close>

lemma esfs_main_ok:
  assumes "esfs_main realpath log_open args w0 = (Inr fuse_args, w)" and "os_wf w0"
  shows "server_ok \<lparr>fs = init_op w, fhs = []\<rparr>"
proof -
  obtain root w1 where s: "esfs_setup root (w1\<lparr>bl_slog := BL_SLOG\<rparr>) = (True, w)"
    and m: "malloc_ok w0 = (True, w1)" and e: "euid w0 \<noteq> 0"
    using assms(1) by (auto simp: esfs_main_def Let_def split: if_splits option.splits prod.splits)
  have "os_wf (w1\<lparr>bl_slog := BL_SLOG\<rparr>)" using wf.malloc_ok_kept [OF m assms(2)] by simp
  from esfs_setup_ok [OF s this] malloc_ok_eq [OF m] e show ?thesis
    by (simp add: server_ok_def init_op_def)
qed

lemma serve_ok:
  assumes "server_ok s" and "serve env rq s = Some (rp, s')"
  shows "server_ok s'"
proof -
  have "ready (self (fs s)) (fs s')"
    using serve_returns [of "self (fs s)" s env rq] assms by (simp add: server_ok_def at_locks_def)
  moreover have "os_wf (fs s')"
    using wf.serve_fs [OF assms(2)] assms(1) by (simp add: server_ok_def)
  moreover have "constants (fs s') = constants (fs s)"
    using cst.serve_fs [OF assms(2)] by simp
  ultimately show ?thesis
    using assms(1) by (simp add: server_ok_def constants_def at_locks_def)
qed

lemma reachable_server_ok: "reachable s \<Longrightarrow> server_ok s"
  by (induction rule: reachable.induct) (auto intro: esfs_main_ok serve_ok)

lemma world0_wf: "os_wf world0"
  by (auto simp: os_wf_def world0_def lookup_def is_dir_def S_ISDIR_def get_fd_def good_name_def
      split: if_splits)

lemma world0_setup: "\<exists>w. esfs_setup ''/r'' (world0\<lparr>bl_slog := BL_SLOG\<rparr>) = (True, w)"
  by (simp add: esfs_setup_def map_path_def size_lt_def const_defs world0_def sn_check_dir_def
      sys_lstat_def pop_fate_def Let_def)
    (simp add: comps_def dot_step_def resolve_def lookup_def is_dir_def S_ISDIR_def sys_mkdir_def
      pop_fate_def parent_dir_def Let_def sn_get_latest_def get_dir_hid_path_def size_lt_def const_defs
      add_node_def read_sndir_from_file_def sys_open_def has_flag_def b_init_block_buffer_def
      malloc_ok_def mflock_init_def)

lemma check_params_ok: "check_params esfs_params = 0"
  by (simp add: check_params_def esfs_params_def const_defs BL_SLOG_def)

lemma world0_boot:
  "\<exists>w. esfs_main (\<lambda>_. Some ''/r'') (\<lambda>_. True) [''/r'', ''/m''] world0 = (Inr [''/m''], w)"
proof -
  have "malloc_ok world0 = (True, world0)" by (simp add: malloc_ok_def pop_fate_def world0_def)
  moreover have "parse_args [''/r'', ''/m''] = Some (''/r'', False, [''/m''])"
    by (simp add: parse_args_def)
  moreover have "euid world0 \<noteq> 0" by (simp add: world0_def)
  ultimately show ?thesis using world0_setup by (auto simp: esfs_main_def check_params_ok)
qed

text \<open>
  C13: in every state the program can reach, by any sequence of requests and whatever system calls
  fail, the tree of the disk is well formed, no lock is held, and the global data set at the start is
  unchanged.
\<close>

theorem reachable_ok: "reachable s \<Longrightarrow> server_ok s"
  by (rule reachable_server_ok)

theorem reachable_ok_witness:
  "\<exists>w. esfs_main (\<lambda>_. Some ''/r'') (\<lambda>_. True) [''/r'', ''/m''] world0 = (Inr [''/m''], w)
     \<and> server_ok \<lparr>fs = init_op w, fhs = []\<rparr>"
  using world0_boot reachable_ok [OF reachable.boot [OF world0_wf]] by blast

text \<open>
  C14: every request is answered. In a reachable state no handler blocks, whatever request comes and
  whatever system calls fail, and the state after it is reachable.
\<close>

theorem requests_answered:
  assumes "reachable s"
  shows "\<exists>rp s'. serve env rq s = Some (rp, s') \<and> reachable s'"
proof -
  have "ready (self (fs s)) (fs s)"
    using reachable_server_ok [OF assms] by (simp add: server_ok_def at_locks_def)
  from serve_returns [OF this, of env rq] show ?thesis
    using reachable.request [OF assms] by (auto simp: returns_def)
qed

theorem requests_answered_witness:
  "\<exists>w rp s'. esfs_main (\<lambda>_. Some ''/r'') (\<lambda>_. True) [''/r'', ''/m''] world0 = (Inr [''/m''], w)
     \<and> serve env0 (Mkdir ''/snapshots/a'' 0) \<lparr>fs = init_op w, fhs = []\<rparr> = Some (rp, s')"
  using world0_boot requests_answered [OF reachable.boot [OF world0_wf]] by blast

section \<open>Requests that are refused\<close>

lemma if_path_sn_denied:
  assumes "is_path_in_sn p" and "if_path_sn p w = (rt, w')"
  shows "frame {} w w' \<and> (rt = Inl ENAMETOOLONG \<or> rt = Inl ENOMEM
    \<or> (\<exists>fpath. rt = Inr (Sn_space fpath (decompose_sn_path snpath_undef p))))"
  using assms by (auto simp: if_path_sn_def Let_def split: sum.splits prod.splits if_splits dest!: malloc_ok_eq)

lemma open_in_sn_denied:
  assumes "is_path_in_sn p" and "fl AND O_ACCMODE \<noteq> O_RDONLY"
  shows "\<exists>e w'. open_op g p fl w = Some ((Inl e, None), w') \<and> frame {} w w'"
proof -
  obtain rt w' where r: "if_path_sn p w = (rt, w')" by fastforce
  from if_path_sn_denied [OF assms(1) r] r assms(2) show ?thesis
    by (auto simp: open_op_def open_sn_def)
qed

text \<open>
  C15: the snapshot space cannot be changed by the operations on files. Creating, removing or
  truncating a file, changing its mode, owner or times there is refused with \<open>EACCES\<close> and changes
  nothing at all; opening for writing is refused and leaves every file and directory as it is; and a
  write through a handle that is not on a main file is refused with \<open>EACCES\<close>.
\<close>

theorem snapshot_space_denied:
  assumes "is_path_in_sn p"
  shows "serve env (Create p md fl) s = Some (Inl EACCES, s)
    \<and> serve env (Unlink p) s = Some (Inl EACCES, s)
    \<and> serve env (Truncate_path p n) s = Some (Inl EACCES, s)
    \<and> serve env (Chmod p md) s = Some (Inl EACCES, s)
    \<and> serve env (Chown p u g) s = Some (Inl EACCES, s)
    \<and> serve env (Utimens p) s = Some (Inl EACCES, s)
    \<and> (fl AND O_ACCMODE \<noteq> O_RDONLY \<longrightarrow>
         (\<exists>e s'. serve env (Open p fl) s = Some (Inl e, s') \<and> frame {} (fs s) (fs s') \<and> fhs s' = fhs s))
    \<and> (get_fh s k = Some m \<and> is_main m \<noteq> Mfd_main \<longrightarrow>
         (\<exists>s'. serve env (Write_to k buf off) s = Some (Inl EACCES, s') \<and> fs s' = fs s))"
proof -
  have "\<exists>e s'. serve env (Open p fl) s = Some (Inl e, s') \<and> frame {} (fs s) (fs s') \<and> fhs s' = fhs s"
    if "fl AND O_ACCMODE \<noteq> O_RDONLY"
    using open_in_sn_denied [OF assms that, of "garbage env" "fs s"] by (auto simp: serve_def opened_def)
  moreover have "\<exists>s'. serve env (Write_to k buf off) s = Some (Inl EACCES, s') \<and> fs s' = fs s"
    if "get_fh s k = Some m" "is_main m \<noteq> Mfd_main"
    using that by (simp add: serve_def with_fh_def write_op_def changed_def)
  ultimately show ?thesis
    using assms by (auto simp: serve_def create_op_def unlink_op_def truncate_op_def chmod_op_def
        chown_op_def utimens_op_def if_path_main_only_def reply_def opened_def)
qed

theorem snapshot_space_denied_witness:
  "serve env0 (Unlink ''/snapshots/a/f'') \<lparr>fs = world0, fhs = []\<rparr> = Some (Inl EACCES, \<lparr>fs = world0, fhs = []\<rparr>)"
proof -
  have "is_path_in_sn ''/snapshots/a/f''" by (simp add: is_path_in_sn_def const_defs)
  from snapshot_space_denied [OF this] show ?thesis by blast
qed

end
