(* ===== verification/Versions.thy ===== *)
theory Versions
  imports Chain Server
begin

text \<open>
  The list of snapshots as the user sees it. A new snapshot is made with \<open>mkdir /snapshots/NAME\<close>, the
  earliest is removed with \<open>rmdir /snapshots\<close>, and the program can be stopped and started again on
  the same disk at any time. The specification is a list of names; the program refines it.
\<close>

section \<open>Specification\<close>

text \<open>\<open>Remount\<close> has what the memory of the new process happens to hold.\<close>

datatype version_op = New string mode | Drop | Remount string nat bool

fun spec_version :: "version_op \<Rightarrow> string list \<Rightarrow> reply \<times> string list" where
  "spec_version (New x _) ids = (if x \<in> set ids then (Inl EIO, ids) else (Inr Done, x # ids))"
| "spec_version Drop ids = (if ids = [] then (Inl ENOENT, ids) else (Inr Done, butlast ids))"
| "spec_version (Remount _ _ _) ids = (Inr Done, ids)"

fun spec_versions :: "version_op list \<Rightarrow> string list \<Rightarrow> reply list \<times> string list" where
  "spec_versions [] ids = ([], ids)"
| "spec_versions (v # vs) ids =
     (let (r, ids) = spec_version v ids; (rs, ids) = spec_versions vs ids in (r # rs, ids))"

section \<open>Implementation\<close>

text \<open>The state of a new process on the same disk.\<close>

definition new_process :: "string \<Rightarrow> nat \<Rightarrow> bool \<Rightarrow> world \<Rightarrow> world" where
  "new_process lat len any w =
     w\<lparr>fds := [], dirs := [], sn_lat_dir := lat, sn_lat_dir_len := len, sn_is_any := any, sn_number := 0,
       mflocks := [], block_buffer := []\<rparr>"

fun version_step :: "environment \<Rightarrow> version_op \<Rightarrow> server \<Rightarrow> (reply \<times> server) option" where
  "version_step env (New x md) s = serve env (Mkdir (SNDIR @ DIRSEP @ x) md) s"
| "version_step env Drop s = serve env (Rmdir SNDIR) s"
| "version_step env (Remount lat len any) s =
     (let (ok, w) = esfs_setup (rootdir (fs s)) (new_process lat len any (fs s))
      in Some (if ok then Inr Done else Inl EIO, \<lparr>fs = w, fhs = []\<rparr>))"

fun version_run :: "environment \<Rightarrow> version_op list \<Rightarrow> server \<Rightarrow> (reply list \<times> server) option" where
  "version_run env [] s = Some ([], s)"
| "version_run env (v # vs) s =
     do {
       (r, s) \<leftarrow> version_step env v s;
       (rs, s) \<leftarrow> version_run env vs s;
       Some (r # rs, s)
     }"

definition versions :: "server \<Rightarrow> string list \<Rightarrow> bool" where
  "versions s ids \<longleftrightarrow>
     snaps (fs s) ids \<and> mflocks (fs s) = table0 \<and> sn_dir (fs s) = rootdir (fs s) @ SNDIR
     \<and> rootdir_len (fs s) = length (rootdir (fs s)) \<and> length (block_buffer (fs s)) = BL_S (fs s)"

definition good_op :: "string \<Rightarrow> version_op \<Rightarrow> bool" where
  "good_op D v = (case v of New x _ \<Rightarrow> good_id D x | _ \<Rightarrow> True)"

section \<open>Starting the program\<close>

lemma calm_upd [simp]:
  "calm (w\<lparr>rootdir := r\<rparr>) = calm w" "calm (w\<lparr>rootdir_len := n\<rparr>) = calm w" "calm (w\<lparr>sn_dir := d\<rparr>) = calm w"
  "calm (w\<lparr>sn_number := n\<rparr>) = calm w" "calm (w\<lparr>mflocks := T\<rparr>) = calm w" "calm (w\<lparr>block_buffer := b\<rparr>) = calm w"
  "calm (w\<lparr>sn_lat_dir := p\<rparr>) = calm w" "calm (w\<lparr>sn_lat_dir_len := n\<rparr>) = calm w" "calm (w\<lparr>sn_is_any := a\<rparr>) = calm w"
  by (simp_all add: calm_def os_wf_def lookup_def is_dir_def get_fd_def sizes_ok_def fdata_def)

lemma tree_setup [simp]:
  "tree (w\<lparr>rootdir := r\<rparr>) = tree w" "tree (w\<lparr>rootdir_len := n\<rparr>) = tree w" "tree (w\<lparr>sn_dir := d\<rparr>) = tree w"
  "tree (w\<lparr>dirs := ds\<rparr>) = tree w"
  for w :: world
  by (rule ext, simp add: tree_def is_dir_def fdata_def lookup_def cong: if_cong)+

lemma calm_new_process: "calm w \<Longrightarrow> calm (new_process lat len any w)"
  using os_wf_same [of w "new_process lat len any w"] 
  by (simp add: new_process_def calm_def is_dir_def get_fd_def sizes_ok_def fdata_def)

text \<open>The directory of the snapshots is there, with the list \<open>ids\<close>, or the disk is fresh.\<close>

definition bootable :: "string \<Rightarrow> string list \<Rightarrow> world \<Rightarrow> bool" where
  "bootable root ids w \<longleftrightarrow>
     on_disk (w\<lparr>sn_dir := root @ SNDIR\<rparr>) ids
     \<or> ids = [] \<and> calm w \<and> CHR 0x00 \<notin> set root \<and> length (root @ SNDIR) + EXT_LEN + 1 < PATH_MAX
       \<and> tree w (comps root) = Some Dir \<and> tree w (comps root @ [''snapshots'']) = None"

lemma comps_SNDIR: "comps (root @ SNDIR) = comps root @ [''snapshots'']"
  using comps_snoc [of "''snapshots''" root] by (simp add: SNDIR_def good_name_def)

lemma sn_check_dir_boot:
  assumes "bootable root ids w" and "sn_dir w = root @ SNDIR"
  obtains w' where "sn_check_dir w = (Inr 0, w')" and "on_disk w' ids" and "os.more w' = os.more w"
    and "\<forall>k. \<not> prefix (comps (sn_dir w)) k \<longrightarrow> tree w' k = tree w k"
    and "tree w (comps (sn_dir w)) \<noteq> None \<longrightarrow> tree w' = tree w"
proof (cases "tree w (comps (sn_dir w))")
  case None
  then have b: "ids = []" "calm w" "CHR 0x00 \<notin> set root" "length (root @ SNDIR) + EXT_LEN + 1 < PATH_MAX"
    "tree w (butlast (comps (sn_dir w))) = Some Dir"
    using assms by (auto simp: bootable_def on_disk_def comps_SNDIR)
  obtain w' where w': "sys_mkdir (sn_dir w) S_IRWXU w = (Inr (), w')" "calm w'"
      "tree w' = (tree w)(comps (sn_dir w) \<mapsto> Dir)" "rest w' = rest w"
    by (rule mkdir_new [OF b(2) None b(5)])
  have m: "os.more w' = os.more w" using rest_fields [OF w'(4)] by simp
  have "tree w (comps (sn_dir w) @ [x]) = None" for x
    using tree_parent [of w "comps (sn_dir w) @ [x]"] b(2) None
    by (cases "tree w (comps (sn_dir w) @ [x])") (auto simp: calm_def)
  then have "on_disk w' ids"
    using b w'(2,3) more_fields(1) [OF m] assms(2) by (simp add: on_disk_def listing_def SNDIR_def)
  moreover have "sn_check_dir w = (Inr 0, w')"
    using lstat_missing [OF b(2) None b(5)] w'(1) by (simp add: sn_check_dir_def)
  ultimately show ?thesis using that m w'(3) None by auto
next
  case (Some n)
  then have o: "on_disk w ids"
    using assms by (cases w) (auto simp: bootable_def on_disk_def comps_SNDIR)
  then have c: "calm w" "tree w (comps (sn_dir w)) = Some Dir" by (simp_all add: on_disk_def)
  obtain st where "sys_lstat (sn_dir w) w = (Inr st, w)" "S_ISDIR (st_mode st)"
    using lstat_found [OF c] by blast
  then show ?thesis using that [of w] o by (simp add: sn_check_dir_def)
qed

lemma map_path_fits:
  "rootdir_len w = length (rootdir w) \<Longrightarrow> length (rootdir w @ p) < PATH_MAX \<Longrightarrow> map_path p w = Inr (rootdir w @ p)"
  using size_lt_diff [of "length p" "rootdir_len w"] by (simp add: map_path_def PATH_MAX_def)

lemma setup_boots:
  assumes "bootable root ids w" and "length (root @ SNDIR) < PATH_MAX"
  obtains w' where "esfs_setup root w = (True, w')" and "versions \<lparr>fs = w', fhs = []\<rparr> ids" and "rootdir w' = root"
    and "\<forall>k. \<not> prefix (comps (root @ SNDIR)) k \<longrightarrow> tree w' k = tree w k"
    and "tree w (comps (root @ SNDIR)) \<noteq> None \<longrightarrow> tree w' = tree w" and "bl_slog w' = bl_slog w"
proof -
  let ?w = "w\<lparr>rootdir := root, rootdir_len := length root, sn_number := 0\<rparr>"
  let ?v = "?w\<lparr>sn_dir := root @ SNDIR\<rparr>"
  have m: "map_path SNDIR ?w = Inr (root @ SNDIR)" using map_path_fits [of ?w SNDIR] assms(2) by simp
  have b: "bootable root ids ?v" using assms(1) by (auto simp: bootable_def on_disk_def)
  obtain w1 where w1: "sn_check_dir ?v = (Inr 0, w1)" "on_disk w1 ids" "os.more w1 = os.more ?v"
      "\<forall>k. \<not> prefix (comps (root @ SNDIR)) k \<longrightarrow> tree w1 k = tree ?v k"
      "tree ?v (comps (root @ SNDIR)) \<noteq> None \<longrightarrow> tree w1 = tree ?v"
    using sn_check_dir_boot [OF b] by auto
  note f = more_fields [OF w1(3)]
  obtain w2 where w2: "sn_get_latest w1 = (Inr (), w2)" "snaps w2 ids" "tree w2 = tree w1" "sn_dir w2 = sn_dir w1"
      "rootdir w2 = rootdir w1"
    by (rule sn_get_latest_chain [OF w1(2)])
  have c: "constants w2 = constants w1" by (rule cst.sn_get_latest_kept [OF w2(1)]) simp
  have c2: "calm w2" using w2(2) by (simp add: snaps_def on_disk_def)
  then obtain b where e: "esfs_setup root w = (True, w2\<lparr>block_buffer := b, mflocks := table0\<rparr>)"
      "length b = BL_S w2"
    using m w1(1) w2(1)
    by (auto simp: esfs_setup_def b_init_block_buffer_def mflock_init_def table0_def Let_def)
  let ?r = "w2\<lparr>block_buffer := b, mflocks := table0\<rparr>"
  have "snaps ?r ids" using w2(2) by (simp add: snaps_def on_disk_def)
  then have "versions \<lparr>fs = ?r, fhs = []\<rparr> ids"
    using w2(4,5) f(1-3) c e(2) by (simp add: versions_def constants_def BL_S_def)
  moreover have "bl_slog w2 = bl_slog w" using c f(10) by (simp add: constants_def)
  ultimately show ?thesis using that [OF e(1)] w2(3,5) w1(4,5) f(2) by simp
qed

section \<open>The steps\<close>

lemma decompose_root: "decompose_sn_path sp SNDIR = sp\<lparr>is_there := Snpath_root\<rparr>"
  by (simp add: decompose_sn_path_def const_defs)

lemma decompose_id:
  "x \<noteq> [] \<Longrightarrow> CHR ''/'' \<notin> set x \<Longrightarrow>
    decompose_sn_path sp (SNDIR @ DIRSEP @ x) = sp\<lparr>is_there := Snpath_id, snp_id := DIRSEP @ x\<rparr>"
  using strchr_None [of x "CHR ''/''"] by (simp add: decompose_sn_path_def const_defs Let_def)

lemma in_sn [simp]: "is_path_in_sn SNDIR" "is_path_in_sn (SNDIR @ DIRSEP @ x)"
  by (simp_all add: is_path_in_sn_def const_defs)

lemma if_path_sn_calm:
  assumes "calm w" and "rootdir_len w = length (rootdir w)" and "length (rootdir w @ p) < PATH_MAX" and "is_path_in_sn p"
  shows "if_path_sn p w = (Inr (Sn_space (rootdir w @ p) (decompose_sn_path snpath_undef p)), w)"
  using map_path_fits [OF assms(2,3)] assms(1,4) by (simp add: if_path_sn_def)

lemma env_fields:
  assumes "env_of w' = env_of w"
  shows "sn_dir w' = sn_dir w" "rootdir w' = rootdir w" "mflocks w' = mflocks w" "self w' = self w"
    "block_buffer w' = block_buffer w"
  using assms by (simp_all add: env_of_def)

lemma new_step:
  assumes v: "versions s ids" and x: "good_id (sn_dir (fs s)) x"
  obtains s' where "version_step env (New x md) s = Some (fst (spec_version (New x md) ids), s')"
    and "versions s' (snd (spec_version (New x md) ids))" and "rootdir (fs s') = rootdir (fs s)"
    and "\<forall>k. (\<nexists>y. k = comps (sn_dir (fs s)) @ [y]) \<longrightarrow> tree (fs s') k = tree (fs s) k"
    and "bl_slog (fs s') = bl_slog (fs s)"
proof -
  let ?w = "fs s" and ?p = "SNDIR @ DIRSEP @ x"
  have D: "sn_dir ?w = rootdir ?w @ SNDIR" "rootdir_len ?w = length (rootdir ?w)" "mflocks ?w = table0" "snaps ?w ids"
    "length (block_buffer ?w) = BL_S ?w"
    using v by (simp_all add: versions_def)
  have c: "calm ?w" using D(4) by (simp add: snaps_def on_disk_def)
  have n: "x \<noteq> []" "CHR ''/'' \<notin> set x" "length (rootdir ?w @ ?p) < PATH_MAX"
    using x by (simp_all add: good_id_def good_name_def D(1) sn_root_def DIRSEP_def)
  have p: "rootdir ?w @ ?p = sn_root (sn_dir ?w) x" by (simp add: sn_root_def D(1) DIRSEP_def DIRSEPCH_def)
  obtain w' where w': "sn_create (sn_root (sn_dir ?w) x) ?w = ((if x \<in> set ids then Inl EEXIST else Inr ()), w')"
      "snaps w' (if x \<in> set ids then ids else x # ids)" "env_of w' = env_of ?w"
      "\<forall>k. (\<nexists>y. k = comps (sn_dir ?w) @ [y]) \<longrightarrow> tree w' k = tree ?w k"
    using sn_create_chain [OF D(4) x] by blast
  have "mkdir_op (garbage env) ?p md ?w = Some (if x \<in> set ids then Inl EIO else Inr (), w')"
    using if_path_sn_calm [OF c D(2) n(3)] decompose_id [OF n(1,2)] w'(1) p by (simp add: mkdir_op_def)
  then have "version_step env (New x md) s = Some (fst (spec_version (New x md) ids), s\<lparr>fs := w'\<rparr>)"
    by (simp add: serve_def reply_def)
  moreover have k: "constants w' = constants ?w" by (rule cst.sn_create_kept [OF w'(1)]) simp
  then have "versions (s\<lparr>fs := w'\<rparr>) (snd (spec_version (New x md) ids))"
    using w'(2) env_fields [OF w'(3)] D by (cases "x \<in> set ids") (simp_all add: versions_def constants_def BL_S_def)
  ultimately show ?thesis using that env_fields(2) [OF w'(3)] w'(4) k by (simp add: constants_def)
qed

lemma drop_step:
  assumes v: "versions s ids" and "length ids \<le> MAX_SNAPSHOTS"
  obtains s' where "version_step env Drop s = Some (fst (spec_version Drop ids), s')"
    and "versions s' (snd (spec_version Drop ids))" and "rootdir (fs s') = rootdir (fs s)"
    and "tree (fs s') = (if ids = [] then tree (fs s) else without (comps (sn_dir (fs s)) @ [last ids])
      ((tree (fs s))(comps (sn_dir (fs s)) @ [earliest_hid ids] := None)))"
    and "bl_slog (fs s') = bl_slog (fs s)" and "sn_lat_dir (fs s') = sn_lat_dir (fs s)"
proof -
  let ?w = "fs s"
  have D: "sn_dir ?w = rootdir ?w @ SNDIR" "rootdir_len ?w = length (rootdir ?w)" "mflocks ?w = table0" "snaps ?w ids"
    "length (block_buffer ?w) = BL_S ?w"
    using v by (simp_all add: versions_def)
  have c: "calm ?w" "length (rootdir ?w @ SNDIR) < PATH_MAX"
    using D(1,4) by (simp_all add: snaps_def on_disk_def)
  have "ready (self ?w) ?w" using D(3) by (simp add: at_locks_def)
  from sn_destroy_chain [OF D(4) assms(2) this]
  obtain w' where w': "sn_destroy ?w = Some ((if ids = [] then Inl ENOENT else Inr ()), w')"
      "snaps w' (butlast ids)" "env_of w' = env_of ?w" "sn_lat_dir w' = sn_lat_dir ?w"
      "tree w' = (if ids = [] then tree ?w
        else without (comps (sn_dir ?w) @ [last ids]) ((tree ?w)(comps (sn_dir ?w) @ [earliest_hid ids] := None)))"
    by blast
  have "rmdir_op SNDIR ?w = Some (if ids = [] then Inl ENOENT else Inr (), w')"
    using if_path_sn_calm [OF c(1) D(2) c(2)] w'(1) by (simp add: rmdir_op_def decompose_root)
  then have "version_step env Drop s = Some (fst (spec_version Drop ids), s\<lparr>fs := w'\<rparr>)"
    by (simp add: serve_def reply_def)
  moreover have k: "constants w' = constants ?w" by (rule cst.sn_destroy_kept [OF w'(1)]) simp
  then have "versions (s\<lparr>fs := w'\<rparr>) (snd (spec_version Drop ids))"
    using w'(2) env_fields [OF w'(3)] D by (cases "ids = []") (simp_all add: versions_def constants_def BL_S_def)
  ultimately show ?thesis using that env_fields(2) [OF w'(3)] w'(4,5) k by (simp add: constants_def)
qed

lemma remount_step:
  assumes v: "versions s ids"
  obtains s' where "version_step env (Remount lat len any) s = Some (Inr Done, s')"
    and "versions s' ids" and "rootdir (fs s') = rootdir (fs s)" and "tree (fs s') = tree (fs s)"
    and "bl_slog (fs s') = bl_slog (fs s)"
proof -
  let ?w = "fs s"
  have o: "on_disk ?w ids" "sn_dir ?w = rootdir ?w @ SNDIR" using v by (simp_all add: versions_def snaps_def)
  have t: "tree (new_process lat len any ?w) = tree ?w" by (simp add: new_process_def)
  have "bootable (rootdir ?w) ids (new_process lat len any ?w)"
    using o t calm_new_process [of ?w] by (simp add: bootable_def on_disk_def)
  moreover have "length (rootdir ?w @ SNDIR) < PATH_MAX" using o by (simp add: on_disk_def)
  ultimately obtain w' where "esfs_setup (rootdir ?w) (new_process lat len any ?w) = (True, w')"
      "versions \<lparr>fs = w', fhs = []\<rparr> ids" "rootdir w' = rootdir ?w"
      "tree (new_process lat len any ?w) (comps (rootdir ?w @ SNDIR)) \<noteq> None \<longrightarrow> tree w' = tree (new_process lat len any ?w)"
      "bl_slog w' = bl_slog (new_process lat len any ?w)"
    by (rule setup_boots)
  then show ?thesis using that o t by (simp add: on_disk_def new_process_def)
qed

lemma version_step_refines:
  assumes "versions s ids" and "good_op (sn_dir (fs s)) v" and "length ids \<le> MAX_SNAPSHOTS"
  obtains s' where "version_step env v s = Some (fst (spec_version v ids), s')"
    and "versions s' (snd (spec_version v ids))" and "rootdir (fs s') = rootdir (fs s)"
    and "\<forall>k. \<not> prefix (comps (sn_dir (fs s))) k \<longrightarrow> tree (fs s') k = tree (fs s) k"
proof (cases v)
  case (New x md)
  then have "good_id (sn_dir (fs s)) x" using assms(2) by (simp add: good_op_def)
  then obtain s' where "version_step env (New x md) s = Some (fst (spec_version (New x md) ids), s')"
      "versions s' (snd (spec_version (New x md) ids))" "rootdir (fs s') = rootdir (fs s)"
      "\<forall>k. (\<nexists>y. k = comps (sn_dir (fs s)) @ [y]) \<longrightarrow> tree (fs s') k = tree (fs s) k"
    by (rule new_step [OF assms(1)])
  then show ?thesis using that New prefixI by blast
next
  case Drop
  obtain s' where s': "version_step env Drop s = Some (fst (spec_version Drop ids), s')"
      "versions s' (snd (spec_version Drop ids))" "rootdir (fs s') = rootdir (fs s)"
      "tree (fs s') = (if ids = [] then tree (fs s) else without (comps (sn_dir (fs s)) @ [last ids])
        ((tree (fs s))(comps (sn_dir (fs s)) @ [earliest_hid ids] := None)))"
    by (rule drop_step [OF assms(1,3)])
  have "tree (fs s') k = tree (fs s) k" if "\<not> prefix (comps (sn_dir (fs s))) k" for k
    using that s'(4) append_prefixD [of "comps (sn_dir (fs s))" _ k]
    by (cases "ids = []") (auto simp: without_def)
  then show ?thesis using that Drop s'(1-3) by blast
next
  case (Remount lat len any)
  obtain s' where "version_step env (Remount lat len any) s = Some (Inr Done, s')"
      "versions s' ids" "rootdir (fs s') = rootdir (fs s)" "tree (fs s') = tree (fs s)"
    by (rule remount_step [OF assms(1)])
  then show ?thesis using that Remount by simp
qed

section \<open>Runs\<close>

lemma spec_version_length: "length (snd (spec_version v ids)) \<le> Suc (length ids)"
  by (cases v) auto

lemma versions_dir: "versions s ids \<Longrightarrow> sn_dir (fs s) = rootdir (fs s) @ SNDIR"
  by (simp add: versions_def)

lemma version_run_refines:
  assumes "versions s ids" and "list_all (good_op (sn_dir (fs s))) vs" and "length ids + length vs \<le> MAX_SNAPSHOTS"
  shows "\<exists>s'. version_run env vs s = Some (fst (spec_versions vs ids), s')
    \<and> versions s' (snd (spec_versions vs ids))
    \<and> (\<forall>k. \<not> prefix (comps (sn_dir (fs s))) k \<longrightarrow> tree (fs s') k = tree (fs s) k)"
  using assms
proof (induction vs arbitrary: s ids)
  case (Cons v vs)
  obtain s1 where s1: "version_step env v s = Some (fst (spec_version v ids), s1)"
      "versions s1 (snd (spec_version v ids))" "rootdir (fs s1) = rootdir (fs s)"
      "\<forall>k. \<not> prefix (comps (sn_dir (fs s))) k \<longrightarrow> tree (fs s1) k = tree (fs s) k"
    by (rule version_step_refines [OF Cons.prems(1), of v env]) (use Cons.prems in auto)
  have d: "sn_dir (fs s1) = sn_dir (fs s)"
    using versions_dir [OF s1(2)] versions_dir [OF Cons.prems(1)] s1(3) by simp
  obtain s2 where "version_run env vs s1 = Some (fst (spec_versions vs (snd (spec_version v ids))), s2)"
      "versions s2 (snd (spec_versions vs (snd (spec_version v ids))))"
      "\<forall>k. \<not> prefix (comps (sn_dir (fs s))) k \<longrightarrow> tree (fs s2) k = tree (fs s1) k"
    using Cons.IH [OF s1(2)] Cons.prems(2,3) d spec_version_length [of v ids] by auto
  then show ?case using s1(1,4) by (auto simp: split_beta)
qed simp

lemma world0_bootable: "bootable ''/r'' [] world0"
proof -
  have "calm world0" using world0_wf by (simp add: calm_def world0_def sizes_ok_def fdata_def)
  moreover have "comps ''/r'' = [''r'']" by (simp add: comps_def dot_step_def)
  ultimately show ?thesis
    by (simp add: bootable_def tree_def lookup_def world0_def is_dir_def S_ISDIR_def const_defs)
qed

lemma world0_versions:
  obtains w where "esfs_setup ''/r'' world0 = (True, w)" and "versions \<lparr>fs = w, fhs = []\<rparr> []" and "rootdir w = ''/r''"
  by (rule setup_boots [OF world0_bootable]) (simp add: const_defs)

lemma good_ab [simp]: "good_id (CHR ''/'' # CHR ''r'' # SNDIR) ''a''" "good_id (CHR ''/'' # CHR ''r'' # SNDIR) ''b''"
  by (simp_all add: good_id_def good_name_def sn_filter_name_def sn_root_def const_defs)

lemma world0_one:
  obtains w s where "esfs_setup ''/r'' world0 = (True, w)"
    and "version_step env0 (New ''a'' 0) \<lparr>fs = w, fhs = []\<rparr> = Some (Inr Done, s)"
    and "versions s [''a'']" and "rootdir (fs s) = ''/r''"
proof -
  obtain w where w: "esfs_setup ''/r'' world0 = (True, w)" "versions \<lparr>fs = w, fhs = []\<rparr> []" "rootdir w = ''/r''"
    by (rule world0_versions)
  have "good_id (sn_dir w) ''a''" using w(3) versions_dir [OF w(2)] by simp
  then obtain s where "version_step env0 (New ''a'' 0) \<lparr>fs = w, fhs = []\<rparr> = Some (Inr Done, s)"
      "versions s [''a'']" "rootdir (fs s) = ''/r''"
    using new_step [OF w(2), of "''a''" env0 0] w(3) by auto
  with that w(1) show ?thesis by blast
qed

text \<open>
  C3: the snapshots behave as a list of names. For any sequence of requests to make a snapshot (with
  a name that is not hidden and fits into a path), to remove the earliest and to start the program
  again with arbitrary memory on the same disk, when no system call fails, the replies are those of
  the list: a name in use is refused, the earliest is removed first, a restart finds the same
  snapshots. The files outside the directory of the snapshots do not change.
\<close>

theorem snapshots_refine_list:
  assumes "versions s ids" and "list_all (good_op (sn_dir (fs s))) vs" and "length ids + length vs \<le> MAX_SNAPSHOTS"
  shows "\<exists>s'. version_run env vs s = Some (fst (spec_versions vs ids), s')
    \<and> versions s' (snd (spec_versions vs ids))
    \<and> (\<forall>k. \<not> prefix (comps (sn_dir (fs s))) k \<longrightarrow> tree (fs s') k = tree (fs s) k)"
  using assms by (rule version_run_refines)

theorem snapshots_refine_list_witness:
  "\<exists>w s. esfs_setup ''/r'' world0 = (True, w)
     \<and> version_run env0 [New ''a'' 0, New ''b'' 0, New ''a'' 0, Drop, Remount ''x'' 7 False, Drop, Drop] \<lparr>fs = w, fhs = []\<rparr>
       = Some ([Inr Done, Inr Done, Inl EIO, Inr Done, Inr Done, Inr Done, Inl ENOENT], s)"
proof -
  obtain w where w: "esfs_setup ''/r'' world0 = (True, w)" "versions \<lparr>fs = w, fhs = []\<rparr> []" "rootdir w = ''/r''"
    by (rule world0_versions)
  let ?vs = "[New ''a'' 0, New ''b'' 0, New ''a'' 0, Drop, Remount ''x'' 7 False, Drop, Drop]"
  have "list_all (good_op (sn_dir (fs \<lparr>fs = w, fhs = []\<rparr>))) ?vs"
    using w(3) versions_dir [OF w(2)] by (simp add: good_op_def)
  then obtain s where "version_run env0 ?vs \<lparr>fs = w, fhs = []\<rparr> = Some (fst (spec_versions ?vs []), s)"
    using snapshots_refine_list [OF w(2), of ?vs env0] by (auto simp: MAX_SNAPSHOTS_def simp del: version_run.simps spec_versions.simps)
  moreover have "fst (spec_versions ?vs []) = [Inr Done, Inr Done, Inl EIO, Inr Done, Inr Done, Inr Done, Inl ENOENT]"
    by simp
  ultimately show ?thesis using w(1) by (simp only:) blast
qed

section \<open>What is removed\<close>

text \<open>
  C7: \<open>rmdir /snapshots\<close> removes the directory of the earliest snapshot with everything in it and the
  file that points to it, and no other file or directory; the other snapshots remain. When no system
  call fails it succeeds if there is a snapshot.
\<close>

theorem rmdir_removes_earliest:
  assumes "versions s ids" and "ids \<noteq> []" and "length ids \<le> MAX_SNAPSHOTS"
  shows "\<exists>s'. serve env (Rmdir SNDIR) s = Some (Inr Done, s') \<and> versions s' (butlast ids)
    \<and> (\<forall>k. tree (fs s') k =
         (if prefix (comps (sn_dir (fs s)) @ [last ids]) k \<or> k = comps (sn_dir (fs s)) @ [earliest_hid ids]
          then None else tree (fs s) k))"
proof -
  obtain s' where s': "version_step env Drop s = Some (fst (spec_version Drop ids), s')"
      "versions s' (snd (spec_version Drop ids))"
      "tree (fs s') = (if ids = [] then tree (fs s) else without (comps (sn_dir (fs s)) @ [last ids])
        ((tree (fs s))(comps (sn_dir (fs s)) @ [earliest_hid ids] := None)))"
    by (rule drop_step [OF assms(1,3)])
  then show ?thesis using assms(2) by (simp add: without_def)
qed

theorem rmdir_removes_earliest_witness:
  "\<exists>w s s'. esfs_setup ''/r'' world0 = (True, w)
     \<and> version_step env0 (New ''a'' 0) \<lparr>fs = w, fhs = []\<rparr> = Some (Inr Done, s)
     \<and> serve env0 (Rmdir SNDIR) s = Some (Inr Done, s') \<and> versions s' []"
proof -
  obtain w s where w: "esfs_setup ''/r'' world0 = (True, w)"
      "version_step env0 (New ''a'' 0) \<lparr>fs = w, fhs = []\<rparr> = Some (Inr Done, s)" "versions s [''a'']"
    by (rule world0_one)
  with rmdir_removes_earliest [OF w(3), of env0] show ?thesis by (auto simp: MAX_SNAPSHOTS_def)
qed

section \<open>The way back to a snapshot\<close>

lemma versions_latest:
  assumes "versions s (x # ids)"
  shows "good_id (sn_dir (fs s)) x" "sn_lat_dir (fs s) = sn_root (sn_dir (fs s)) x"
proof -
  have "snaps (fs s) (x # ids)" using assms by (simp add: versions_def)
  then show "good_id (sn_dir (fs s)) x" "sn_lat_dir (fs s) = sn_root (sn_dir (fs s)) x"
    by (simp_all add: snaps_def on_disk_def)
qed

lemma sn_get_paths_to_loop:
  assumes "calm w" and "length (sn_root (sn_dir w) x) < PATH_MAX"
  shows "sn_get_paths_to m \<lparr>is_there = Snpath_full, snp_id = DIRSEP @ x, inpath = q\<rparr> w =
    (case paths_loop (sn_root (sn_dir w) x) 4 1 [rootdir w, sn_lat_dir w] w of
       (Inl e, w') \<Rightarrow> ((Inl e, m), w')
     | (Inr paths, w') \<Rightarrow>
         ((Inr (), m\<lparr>sn_steps := map step_at paths, sn_current := length paths - 1\<rparr>), w'))"
proof -
  have "sn_dir w @ DIRSEP @ x = sn_root (sn_dir w) x" by (simp add: sn_root_def DIRSEP_def DIRSEPCH_def)
  moreover have "\<not> length (DIRSEP @ x) + length (sn_dir w) \<ge> PATH_MAX"
    using assms(2) by (simp add: sn_root_def DIRSEP_def)
  ultimately show ?thesis using assms(1)
    by (simp add: sn_get_paths_to_def Let_def split: prod.split sum.split)
qed

lemma sn_get_paths_to_versions:
  assumes "versions s ids" and "ids \<noteq> []" and "length ids + 1 < MAX_SNAPSHOTS"
    and "length (sn_root (sn_dir (fs s)) x) < PATH_MAX"
  shows "\<exists>w'. same (fs s) w' \<and>
    sn_get_paths_to m \<lparr>is_there = Snpath_full, snp_id = DIRSEP @ x, inpath = q\<rparr> (fs s) =
      (if x \<in> set ids
       then ((Inr (), m\<lparr>sn_steps := map step_at (rootdir (fs s) # map (sn_root (sn_dir (fs s))) (up_to x ids)),
                sn_current := length (up_to x ids)\<rparr>), w')
       else ((Inl EFAULT, m), w'))"
proof -
  let ?w = "fs s"
  obtain a ys where ids: "ids = a # ys" using assms(2) by (cases ids) auto
  have o: "on_disk ?w ([] @ a # ys)" and l: "sn_lat_dir ?w = sn_root (sn_dir ?w) a"
    using assms(1) ids by (simp_all add: versions_def snaps_def)
  have c: "calm ?w" using o by (simp add: on_disk_def)
  have "length ([] :: string list) + length ys + 2 < MAX_SNAPSHOTS" using assms(3) ids by simp
  from paths_loop_chain [OF o this, of x 4 "rootdir ?w"]
  obtain w' where "same ?w w'" "paths_loop (sn_root (sn_dir ?w) x) 4 1 [rootdir ?w, sn_lat_dir ?w] ?w =
      (if x \<in> set ids then Inr (rootdir ?w # map (sn_root (sn_dir ?w)) (up_to x ids)) else Inl EFAULT, w')"
    using ids l by auto
  then show ?thesis using sn_get_paths_to_loop [OF c assms(4)] by auto
qed

text \<open>
  With no snapshot left, the name in \<open>sn_lat_dir\<close> is the one that is found.
\<close>

lemma sn_get_paths_to_none:
  assumes "on_disk w []" and y: "good_id (sn_dir w) y" "sn_lat_dir w = sn_root (sn_dir w) y"
    and "length (sn_root (sn_dir w) x) < PATH_MAX"
  shows "sn_get_paths_to m \<lparr>is_there = Snpath_full, snp_id = DIRSEP @ x, inpath = q\<rparr> w =
      (if x = y
       then ((Inr (), m\<lparr>sn_steps := map step_at [rootdir w, sn_root (sn_dir w) y], sn_current := 1\<rparr>), w)
       else ((Inl EFAULT, m), w))"
proof -
  let ?h = "sn_root (sn_dir w) (y @ EXT_HID)"
  have c: "calm w" "tree w (comps (sn_dir w)) = Some Dir" using assms(1) by (simp_all add: on_disk_def)
  have h: "get_hid_path (sn_root (sn_dir w) y) = Inr ?h" "comps ?h = comps (sn_dir w) @ [y @ EXT_HID]"
    using y(1) by (simp_all add: good_id_def sn_hid_path comps_sn_root good_hid)
  have "read_sndir_from_file [] ?h w = ((Inr 0, []), w)"
    using assms(1) c h(2) by (intro read_no_pointer) (simp_all add: on_disk_def listing_def)
  then have "paths_loop (sn_root (sn_dir w) x) 4 1 [rootdir w, sn_lat_dir w] w =
      (if x = y then Inr [rootdir w, sn_root (sn_dir w) y] else Inl EFAULT, w)"
    using h(1) c(1) y(2) by (subst paths_loop.simps) (simp add: MAX_SNAPSHOTS_def Let_def)
  then show ?thesis using sn_get_paths_to_loop [OF c(1) assms(4)] by simp
qed

text \<open>
  C8: the steps of a file in a snapshot, once there has been a snapshot since the start, so that
  \<open>sn_lat_dir\<close> has been assigned. As long as there are snapshots: for a name in the list,
  \<open>sn_get_paths_to\<close> gives the main space and then the snapshots from the latest back to the one of
  that name; for another name it fails with \<open>EFAULT\<close>. When no snapshot is left it does not fail for
  every name: \<open>sn_lat_dir\<close> still has the path of the snapshot removed last, and its name is found.
  The disk and the data of the program are as before.
\<close>

theorem sn_get_paths_to_correct:
  assumes "versions s ids" and "length ids + 1 < MAX_SNAPSHOTS"
    and "good_id (sn_dir (fs s)) y" and "sn_lat_dir (fs s) = sn_root (sn_dir (fs s)) y"
    and "length (sn_root (sn_dir (fs s)) x) < PATH_MAX"
  shows "\<exists>w'. same (fs s) w' \<and>
    sn_get_paths_to m \<lparr>is_there = Snpath_full, snp_id = DIRSEP @ x, inpath = q\<rparr> (fs s) =
      (let found = (if ids = [] then [y] else ids) in
       if x \<in> set found
       then ((Inr (), m\<lparr>sn_steps := map step_at (rootdir (fs s) # map (sn_root (sn_dir (fs s))) (up_to x found)),
                sn_current := length (up_to x found)\<rparr>), w')
       else ((Inl EFAULT, m), w'))"
proof (cases "ids = []")
  case True
  then have o: "on_disk (fs s) []" using assms(1) by (simp add: versions_def snaps_def)
  then have "same (fs s) (fs s)" by (simp add: on_disk_def same_refl)
  then show ?thesis using True sn_get_paths_to_none [OF o assms(3-5)] by (auto simp: up_to_def)
next
  case False
  then show ?thesis using sn_get_paths_to_versions [OF assms(1) False assms(2,5)] by simp
qed

theorem sn_get_paths_to_correct_witness:
  "\<forall>m. \<exists>w s w'. esfs_setup ''/r'' world0 = (True, w)
     \<and> version_step env0 (New ''a'' 0) \<lparr>fs = w, fhs = []\<rparr> = Some (Inr Done, s)
     \<and> sn_get_paths_to m \<lparr>is_there = Snpath_full, snp_id = ''/a'', inpath = ''/f''\<rparr> (fs s)
       = ((Inr (), m\<lparr>sn_steps := map step_at [''/r'', ''/r/snapshots/a''], sn_current := 1\<rparr>), w')"
proof
  fix m
  obtain w s where w: "esfs_setup ''/r'' world0 = (True, w)"
      "version_step env0 (New ''a'' 0) \<lparr>fs = w, fhs = []\<rparr> = Some (Inr Done, s)" "versions s [''a'']" "rootdir (fs s) = ''/r''"
    by (rule world0_one)
  have d: "sn_dir (fs s) = ''/r/snapshots''" using w(4) versions_dir [OF w(3)] by (simp add: SNDIR_def)
  from sn_get_paths_to_correct [OF w(3) _ versions_latest [OF w(3)], of "''a''" m "''/f''"] d w(4)
  obtain w' where "sn_get_paths_to m \<lparr>is_there = Snpath_full, snp_id = ''/a'', inpath = ''/f''\<rparr> (fs s)
       = ((Inr (), m\<lparr>sn_steps := map step_at [''/r'', ''/r/snapshots/a''], sn_current := 1\<rparr>), w')"
    by (auto simp: const_defs sn_root_def up_to_def)
  with w(1,2) show "\<exists>w s w'. esfs_setup ''/r'' world0 = (True, w)
     \<and> version_step env0 (New ''a'' 0) \<lparr>fs = w, fhs = []\<rparr> = Some (Inr Done, s)
     \<and> sn_get_paths_to m \<lparr>is_there = Snpath_full, snp_id = ''/a'', inpath = ''/f''\<rparr> (fs s)
       = ((Inr (), m\<lparr>sn_steps := map step_at [''/r'', ''/r/snapshots/a''], sn_current := 1\<rparr>), w')"
    by blast
qed

text \<open>
  C23: a snapshot that has been removed is still found. Removing the only snapshot succeeds and
  leaves no snapshot, but \<open>sn_get_paths_to\<close> then gives the steps of a file in the snapshot of that
  name, the first of them the main space, where a name that is not that of a snapshot gives
  \<open>EFAULT\<close>.
\<close>

theorem removed_snapshot_found:
  assumes "versions s [x]"
  shows "\<exists>s' w'. serve env (Rmdir SNDIR) s = Some (Inr Done, s') \<and> versions s' [] \<and> \<not> sn_is_any (fs s')
    \<and> sn_get_paths_to m \<lparr>is_there = Snpath_full, snp_id = DIRSEP @ x, inpath = q\<rparr> (fs s') =
      ((Inr (), m\<lparr>sn_steps := map step_at [rootdir (fs s), sn_root (sn_dir (fs s)) x], sn_current := 1\<rparr>), w')"
proof -
  obtain s' where s': "version_step env Drop s = Some (fst (spec_version Drop [x]), s')"
      "versions s' (snd (spec_version Drop [x]))" "rootdir (fs s') = rootdir (fs s)"
      "sn_lat_dir (fs s') = sn_lat_dir (fs s)"
    by (rule drop_step [OF assms(1)]) (simp add: MAX_SNAPSHOTS_def)
  have v: "versions s' []" "sn_dir (fs s') = sn_dir (fs s)"
    using s'(2,3) versions_dir [OF s'(2)] versions_dir [OF assms] by simp_all
  then have o: "on_disk (fs s') []" "\<not> sn_is_any (fs s')" by (simp_all add: versions_def snaps_def)
  note l = versions_latest [OF assms]
  then have "length (sn_root (sn_dir (fs s')) x) < PATH_MAX" using v(2) by (simp add: good_id_def)
  from sn_get_paths_to_none [OF o(1) _ _ this, of x m q] l v(2) s'(3,4)
  have "sn_get_paths_to m \<lparr>is_there = Snpath_full, snp_id = DIRSEP @ x, inpath = q\<rparr> (fs s') =
      ((Inr (), m\<lparr>sn_steps := map step_at [rootdir (fs s), sn_root (sn_dir (fs s)) x], sn_current := 1\<rparr>), fs s')"
    by simp
  with s'(1) v(1) o(2) show ?thesis by auto
qed

theorem removed_snapshot_found_witness:
  "\<forall>m. \<exists>w s s' w'. esfs_setup ''/r'' world0 = (True, w)
     \<and> version_step env0 (New ''a'' 0) \<lparr>fs = w, fhs = []\<rparr> = Some (Inr Done, s)
     \<and> serve env0 (Rmdir SNDIR) s = Some (Inr Done, s') \<and> versions s' []
     \<and> sn_get_paths_to m \<lparr>is_there = Snpath_full, snp_id = ''/a'', inpath = ''/f''\<rparr> (fs s')
       = ((Inr (), m\<lparr>sn_steps := map step_at [''/r'', ''/r/snapshots/a''], sn_current := 1\<rparr>), w')"
proof
  fix m
  obtain w s where w: "esfs_setup ''/r'' world0 = (True, w)"
      "version_step env0 (New ''a'' 0) \<lparr>fs = w, fhs = []\<rparr> = Some (Inr Done, s)" "versions s [''a'']" "rootdir (fs s) = ''/r''"
    by (rule world0_one)
  have d: "sn_dir (fs s) = ''/r/snapshots''" using w(4) versions_dir [OF w(3)] by (simp add: SNDIR_def)
  obtain s' w' where s': "serve env0 (Rmdir SNDIR) s = Some (Inr Done, s')" "versions s' []"
    "sn_get_paths_to m \<lparr>is_there = Snpath_full, snp_id = ''/a'', inpath = ''/f''\<rparr> (fs s')
      = ((Inr (), m\<lparr>sn_steps := map step_at [''/r'', ''/r/snapshots/a''], sn_current := 1\<rparr>), w')"
    using removed_snapshot_found [OF w(3), of env0 m "''/f''"] d w(4) by (auto simp: const_defs sn_root_def)
  with w(1,2) show "\<exists>w s s' w'. esfs_setup ''/r'' world0 = (True, w)
     \<and> version_step env0 (New ''a'' 0) \<lparr>fs = w, fhs = []\<rparr> = Some (Inr Done, s)
     \<and> serve env0 (Rmdir SNDIR) s = Some (Inr Done, s') \<and> versions s' []
     \<and> sn_get_paths_to m \<lparr>is_there = Snpath_full, snp_id = ''/a'', inpath = ''/f''\<rparr> (fs s')
       = ((Inr (), m\<lparr>sn_steps := map step_at [''/r'', ''/r/snapshots/a''], sn_current := 1\<rparr>), w')"
    by blast
qed

section \<open>A hidden name\<close>

lemma read_sndir_dir:
  assumes "calm w" and "tree w (comps p) = Some Dir"
  shows "\<exists>w'. read_sndir_from_file buf p w = ((Inl EISDIR, buf), w')"
proof -
  obtain i where i: "lookup w (comps p) = Some i" "is_dir w i" using assms(2) by (auto simp: tree_Dir)
  have r: "resolve w (comps p) = Inr i" using assms(1) i(1) by (simp add: calm_def resolve_Inr)
  obtain fd w1 where w1: "alloc_fd i O_RDONLY w = (Inr fd, w1)" "calm w1" "tree w1 = tree w" "lookup w1 = lookup w"
      "get_fd w1 = (get_fd w)(fd \<mapsto> \<lparr>of_ino = i, of_flags = O_RDONLY, of_pos = 0\<rparr>)"
    by (rule alloc_fd_calm [OF assms(1) i(1)])
  have "is_dir w1 i" using w1(3,4) assms(2) i(1) by (auto simp: tree_def dest!: fun_cong [of _ _ "comps p"] split: if_splits)
  then have "sys_pread fd PATH_MAX 0 w1 = (Inl EISDIR, w1)"
    using w1(2,5) by (simp add: sys_pread_def pop_calm readable_def)
  moreover have "sys_open p O_RDONLY 0 w = (Inr fd, w1)"
    using assms(1) r i(2) w1(1) by (simp add: sys_open_def pop_calm has_flag_def writable_def)
  ultimately show ?thesis by (simp add: read_sndir_from_file_def)
qed

lemma sn_create_hid:
  assumes s: "snaps w [a]" and x: "x = a @ EXT_HID" and l: "length (sn_root (sn_dir w) x) + EXT_LEN < PATH_MAX"
  obtains w' where "sn_create (sn_root (sn_dir w) x) w = (Inr (), w')" and "calm w'" and "env_of w' = env_of w"
    and "tree w' (comps (sn_dir w) @ [x]) = Some Dir"
    and "tree w' (comps (sn_dir w) @ [x @ EXT_HID]) = Some (pointer (sn_dir w) a)"
    and "sn_lat_dir w' = sn_root (sn_dir w) x" and "sn_is_any w'"
proof -
  let ?D = "sn_dir w" and ?K = "comps (sn_dir w)"
  have o: "on_disk w [a]" and c: "calm w" "tree w ?K = Some Dir" "length ?D + EXT_LEN + 1 < PATH_MAX"
    and t: "tree w (?K @ [y]) = listing ?D [a] y" and m: "sn_is_any w" "sn_lat_dir w = sn_root ?D a" for y
    using s by (simp_all add: snaps_def on_disk_def)
  have a: "good_name a" "a \<noteq> []" "length (sn_root ?D a) < PATH_MAX" using chain_names [OF o, of a] by simp_all
  have af: "sn_filter_name a" using on_disk_filter [OF o] by simp
  have g: "good_name x" using good_hid [OF a(1)] x by simp
  have k: "comps (sn_root ?D x) = ?K @ [x]" using g by (rule comps_sn_root)
  have ne: "x \<noteq> a" "x @ EXT_HID \<noteq> a" "x \<noteq> EXT_HID" "x @ EXT_HID \<noteq> EXT_HID" "x @ EXT_HID \<noteq> x" "a \<noteq> EXT_HID"
    using af a(2) x filter_neq [OF af] by auto
  have new: "tree w (comps (sn_root ?D x)) = None" "tree w (butlast (comps (sn_root ?D x))) = Some Dir"
    using t k ne c(2) by (simp_all add: listing_def)
  obtain w1 where w1: "sys_mkdir (sn_root ?D x) S_IRWXU w = (Inr (), w1)" "calm w1"
      "tree w1 = (tree w)(comps (sn_root ?D x) \<mapsto> Dir)" "rest w1 = rest w"
    by (rule mkdir_new [OF c(1) new])
  have r: "os.more w1 = os.more w" "get_fd w1 = get_fd w" using rest_fields [OF w1(4)] by simp_all
  note f = more_fields [OF r(1)]
  have h: "tree w1 (comps (sn_dir w1)) = Some Dir" "length (sn_dir w1) + EXT_LEN + 1 < PATH_MAX"
      "tree w1 (comps (sn_dir w1) @ [EXT_HID]) \<noteq> Some Dir" "length (sn_root (sn_dir w1) x) + EXT_LEN < PATH_MAX"
      "tree w1 (comps (sn_dir w1) @ [x @ EXT_HID]) = None" "sn_is_any w1" "length (sn_lat_dir w1) < PATH_MAX"
    using c w1(3) k f t ne m l a(3) by (simp_all add: listing_def pointer_def)
  obtain w2 where "sn_create_body (sn_root ?D x) w1 = (Inr (), w2)" "calm w2" "env_of w2 = env_of w1"
      "tree w2 = (tree w1)(?K @ [x @ EXT_HID] \<mapsto> pointer ?D a, ?K @ [EXT_HID] \<mapsto> pointer ?D x)"
      "sn_lat_dir w2 = sn_root ?D x" "sn_is_any w2"
    using sn_create_body_next [OF w1(2) h(1-3) g h(4-7)] f(1,4) m(2) by (auto simp: pointer_def)
  then show ?thesis
    using that [of w2] w1(1,3) k ne env_more [OF r(2,1)] by (simp add: sn_create_def)
qed

text \<open>
  C16: a name that ends with the extension of the pointer files is not refused. When \<open>a\<close> is the only
  snapshot, making a snapshot \<open>a.hid\<close> succeeds, but its directory is where the program looks for the
  pointer of \<open>a\<close>: removing the earliest snapshot then fails with \<open>EISDIR\<close>, though no system call is
  made to fail.
\<close>

theorem hidden_name_blocks_rmdir:
  assumes "versions s [a]" and "length (sn_root (sn_dir (fs s)) (a @ EXT_HID)) + EXT_LEN < PATH_MAX"
  shows "\<exists>s1 s2. serve env (Mkdir (SNDIR @ DIRSEP @ a @ EXT_HID) md) s = Some (Inr Done, s1)
    \<and> serve env (Rmdir SNDIR) s1 = Some (Inl EISDIR, s2)"
proof -
  let ?w = "fs s" and ?x = "a @ EXT_HID" and ?p = "SNDIR @ DIRSEP @ a @ EXT_HID"
  have D: "sn_dir ?w = rootdir ?w @ SNDIR" "rootdir_len ?w = length (rootdir ?w)" "snaps ?w [a]"
    using assms(1) by (simp_all add: versions_def)
  have o: "on_disk ?w [a]" "calm ?w" using D(3) by (simp_all add: snaps_def on_disk_def)
  have a: "good_name ?x" using good_hid chain_names(2) [OF o(1), of a] by simp
  have n: "?x \<noteq> []" "CHR ''/'' \<notin> set ?x" "length (rootdir ?w @ ?p) < PATH_MAX"
    using a assms(2) by (simp_all add: good_name_def D(1) sn_root_def DIRSEP_def)
  have p: "rootdir ?w @ ?p = sn_root (sn_dir ?w) ?x" by (simp add: sn_root_def D(1) DIRSEP_def DIRSEPCH_def)
  obtain w1 where w1: "sn_create (sn_root (sn_dir ?w) ?x) ?w = (Inr (), w1)" "calm w1" "env_of w1 = env_of ?w"
      "tree w1 (comps (sn_dir ?w) @ [?x]) = Some Dir"
      "tree w1 (comps (sn_dir ?w) @ [?x @ EXT_HID]) = Some (pointer (sn_dir ?w) a)"
      "sn_lat_dir w1 = sn_root (sn_dir ?w) ?x" "sn_is_any w1"
    by (rule sn_create_hid [OF D(3) refl assms(2)])
  note f = env_fields [OF w1(3)]
  have m: "mkdir_op (garbage env) ?p md ?w = Some (Inr (), w1)"
    using if_path_sn_calm [OF o(2) D(2) n(3)] decompose_id [OF n(1,2)] w1(1) p by (simp add: mkdir_op_def)
  have h: "get_hid_path (sn_root (sn_dir ?w) ?x) = Inr (sn_root (sn_dir ?w) (?x @ EXT_HID))"
      "get_hid_path (sn_root (sn_dir ?w) a) = Inr (sn_root (sn_dir ?w) ?x)"
    using sn_hid_path [OF assms(2)] chain_names(6) [OF o(1), of a] by simp_all
  have k: "comps (sn_root (sn_dir ?w) (?x @ EXT_HID)) = comps (sn_dir ?w) @ [?x @ EXT_HID]"
    "comps (sn_root (sn_dir ?w) ?x) = comps (sn_dir ?w) @ [?x]"
    using comps_sn_root [OF good_hid [OF a]] comps_sn_root [OF a] by simp_all
  obtain w2 where w2: "read_sndir_from_file (sn_root (sn_dir ?w) ?x) (sn_root (sn_dir ?w) (?x @ EXT_HID)) w1
      = ((Inr (length (sn_root (sn_dir ?w) a)), sn_root (sn_dir ?w) a), w2)" "same w1 w2"
    by (rule read_pointer [OF w1(2)]) (use w1(5) k chain_names(4,5) [OF o(1), of a] in auto)
  obtain w3 where w3: "read_sndir_from_file (sn_root (sn_dir ?w) a) (sn_root (sn_dir ?w) ?x) w2
      = ((Inl EISDIR, sn_root (sn_dir ?w) a), w3)"
    using read_sndir_dir [of w2 "sn_root (sn_dir ?w) ?x"] same_fields(1,2) [OF w2(2)] w1(4) k(2) by auto
  have "earliest_loop 0 (sn_root (sn_dir ?w) ?x) [] w1 = earliest_loop 1 (sn_root (sn_dir ?w) a) (sn_root (sn_dir ?w) (?x @ EXT_HID)) w2"
    using earliest_loop_step [OF h(1) _ w2(1), of 0 "[]"] by (simp add: MAX_SNAPSHOTS_def)
  also have "\<dots> = ((Inl EISDIR, sn_root (sn_dir ?w) a, sn_root (sn_dir ?w) (?x @ EXT_HID)), w3)"
    using h(2) w3 by (subst earliest_loop.simps) (simp add: MAX_SNAPSHOTS_def)
  finally have "sn_destroy w1 = Some (Inl EISDIR, w3)"
    using w1(6,7) by (simp add: sn_destroy_def sn_get_earliest_def)
  moreover have "constants w1 = constants ?w" by (rule cst.sn_create_kept [OF w1(1)]) simp
  then have "rootdir_len w1 = length (rootdir w1)" using D(2) f(2) by (simp add: constants_def)
  moreover have "length (rootdir w1 @ SNDIR) < PATH_MAX" using o(1) f D(1) by (simp add: on_disk_def)
  ultimately have "rmdir_op SNDIR w1 = Some (Inl EISDIR, w3)"
    using if_path_sn_calm [OF w1(2), of SNDIR] by (simp add: rmdir_op_def decompose_root)
  with m show ?thesis by (simp add: serve_def reply_def)
qed

theorem hidden_name_blocks_rmdir_witness:
  "\<exists>w s s1 s2. esfs_setup ''/r'' world0 = (True, w)
     \<and> version_step env0 (New ''a'' 0) \<lparr>fs = w, fhs = []\<rparr> = Some (Inr Done, s)
     \<and> serve env0 (Mkdir (SNDIR @ DIRSEP @ ''a'' @ EXT_HID) 0) s = Some (Inr Done, s1)
     \<and> serve env0 (Rmdir SNDIR) s1 = Some (Inl EISDIR, s2)"
proof -
  obtain w s where w: "esfs_setup ''/r'' world0 = (True, w)"
      "version_step env0 (New ''a'' 0) \<lparr>fs = w, fhs = []\<rparr> = Some (Inr Done, s)" "versions s [''a'']" "rootdir (fs s) = ''/r''"
    by (rule world0_one)
  have "length (sn_root (sn_dir (fs s)) (''a'' @ EXT_HID)) + EXT_LEN < PATH_MAX"
    using w(4) versions_dir [OF w(3)] by (simp add: sn_root_def const_defs)
  from hidden_name_blocks_rmdir [OF w(3) this, of env0 0] w(1,2) show ?thesis by blast
qed

end
