(* ===== verification/Layers.thy ===== *)
theory Layers
  imports Versions Isolation
begin

text \<open>
  The files of a snapshot by their paths. A path in the main space is a list \<open>cs\<close> of names; the
  layer of the file in a snapshot is its map and dat file below the directory of the snapshot.
  \<open>version_view\<close> is the file as it is in a snapshot, through the layers of that snapshot and the later
  ones. \<open>grown\<close> is what opening a file does to the disk; it changes no view.
\<close>

section \<open>Paths, layers and views\<close>

definition map_key :: "string list \<Rightarrow> string list" where
  "map_key cs = butlast cs @ [last cs @ EXT_MAP]"

definition dat_key :: "string list \<Rightarrow> string list" where
  "dat_key cs = butlast cs @ [last cs @ EXT_DAT]"

text \<open>The names of directories that no map or dat file can have.\<close>

definition plain :: "string \<Rightarrow> bool" where
  "plain c \<longleftrightarrow> mfd_filter_name c = 1"

definition good_path :: "string list \<Rightarrow> bool" where
  "good_path cs \<longleftrightarrow> cs \<noteq> [] \<and> list_all good_name cs \<and> list_all plain (butlast cs) \<and> hd cs \<noteq> ''snapshots''"

definition file_of :: "node option \<Rightarrow> byte list option" where
  "file_of n = (case n of Some (File bs) \<Rightarrow> Some bs | _ \<Rightarrow> None)"

definition layer_at :: "(string list \<Rightarrow> node option) \<Rightarrow> string list \<Rightarrow> string list \<Rightarrow> layer option" where
  "layer_at t S cs =
     map_option (\<lambda>mb. (mb, case file_of (t (S @ dat_key cs)) of None \<Rightarrow> [] | Some db \<Rightarrow> db))
       (file_of (t (S @ map_key cs)))"

definition main_at :: "(string list \<Rightarrow> node option) \<Rightarrow> string list \<Rightarrow> string list \<Rightarrow> byte list option" where
  "main_at t R cs = file_of (t (R @ cs))"

text \<open>\<open>K\<close> is the directory of the snapshots, \<open>R\<close> the root of the main space, \<open>ids\<close> the list of snapshots.\<close>

definition version_view ::
  "nat \<Rightarrow> (string list \<Rightarrow> node option) \<Rightarrow> string list \<Rightarrow> string list \<Rightarrow> string list \<Rightarrow> string \<Rightarrow> string list
    \<Rightarrow> byte list option" where
  "version_view s t K R ids x cs =
     view s (map (\<lambda>y. layer_at t (K @ [y]) cs) (rev (up_to x ids))) (main_at t R cs)"

definition header_ok :: "mapheader \<Rightarrow> bool" where
  "header_ok h \<longleftrightarrow> mh_version h = 12000 \<and> mh_signature h = ESFS_SIGNATURE \<and> (mh_exists h = 0 \<or> mh_exists h = 1)"

text \<open>The tree of a snapshot: plain directories, and map and dat files; each layer is sound.\<close>

definition shape :: "(string list \<Rightarrow> node option) \<Rightarrow> string list \<Rightarrow> bool" where
  "shape t S \<longleftrightarrow>
     (\<forall>ds. t (S @ ds) = Some Dir \<longrightarrow> list_all plain ds) \<and>
     (\<forall>ds bs. t (S @ ds) = Some (File bs) \<longrightarrow> ds \<noteq> [] \<and> \<not> plain (last ds))"

text \<open>A layer for a file that was not empty has a dat file.\<close>

definition paired :: "(string list \<Rightarrow> node option) \<Rightarrow> string list \<Rightarrow> string list \<Rightarrow> bool" where
  "paired t S cs \<longleftrightarrow>
     (\<forall>mb. file_of (t (S @ map_key cs)) = Some mb \<longrightarrow>
        layer_size mb = None \<or> layer_size mb = Some 0 \<or> file_of (t (S @ dat_key cs)) \<noteq> None)"

definition sound :: "nat \<Rightarrow> (string list \<Rightarrow> node option) \<Rightarrow> string list \<Rightarrow> string list \<Rightarrow> string list \<Rightarrow> bool" where
  "sound s t S R cs \<longleftrightarrow> paired t S cs \<and>
     (\<forall>l. layer_at t S cs = Some l \<longrightarrow> header_ok (map_header (fst l)) \<and> layer_wf s l (main_at t R cs))"

section \<open>Strings and components\<close>

lemma plain_map [simp]: "x \<noteq> [] \<Longrightarrow> \<not> plain (x @ EXT_MAP)" "x \<noteq> [] \<Longrightarrow> \<not> plain (x @ EXT_DAT)"
  by (simp_all add: plain_def mfd_filter_name_def EXT_MAP_def EXT_DAT_def EXT_LEN_def)

lemma good_path_last: "good_path cs \<Longrightarrow> last cs \<noteq> [] \<and> good_name (last cs)"
  by (auto simp: good_path_def good_name_def list_all_iff)

lemma good_ext: "good_name a \<Longrightarrow> good_name (a @ EXT_MAP)" "good_name a \<Longrightarrow> good_name (a @ EXT_DAT)"
  by (auto simp: good_name_def EXT_MAP_def EXT_DAT_def append_eq_Cons_conv)

lemma good_keys:
  assumes "good_path cs"
  shows "list_all good_name (map_key cs)" "list_all good_name (dat_key cs)" "map_key cs \<noteq> dat_key cs"
    "map_key cs \<noteq> []" "dat_key cs \<noteq> []"
  using assms good_ext [of "last cs"] good_path_last [OF assms]
  by (auto simp: map_key_def dat_key_def good_path_def list_all_iff EXT_MAP_def EXT_DAT_def dest: in_set_butlastD)

lemma sub_path_append: "sub_path p (xs @ ys) = sub_path p xs @ sub_path [] ys"
  by (simp add: sub_path_def)

lemma sub_path_ext:
  assumes "cs \<noteq> []"
  shows "sub_path p (butlast cs @ [last cs @ x]) = p @ sub_path [] cs @ x"
  using sub_path_append [of p "butlast cs" "[last cs]"] assms by (simp add: sub_path_def)

lemma sub_path_not_Nil: "p \<noteq> [] \<Longrightarrow> sub_path p rel \<noteq> []"
  by (simp add: sub_path_def)

lemma strrchr_sub_path:
  assumes "CHR ''/'' \<notin> set c"
  shows "strrchr (sub_path p (rel @ [c])) DIRSEPCH = Some (length (sub_path p rel))"
proof -
  have n: "strrchr c CHR ''/'' = None" using assms by (induction c) auto
  have "strrchr (s @ CHR ''/'' # c) CHR ''/'' = Some (length s)" for s
    using n by (induction s) auto
  moreover have "sub_path p (rel @ [c]) = sub_path p rel @ CHR ''/'' # c" by (simp add: sub_path_def DIRSEP_def)
  ultimately show ?thesis by (simp add: DIRSEPCH_def)
qed

section \<open>Creating the directories of a path\<close>

definition with_dirs :: "string list \<Rightarrow> (string list \<Rightarrow> node option) \<Rightarrow> string list \<Rightarrow> node option" where
  "with_dirs k t x = (if prefix x k \<and> t x = None then Some Dir else t x)"

lemma tree_prefix:
  assumes "os_wf w" and "tree w k = Some n" and "prefix x k" and "x \<noteq> k"
  shows "tree w x = Some Dir"
proof -
  obtain i where i: "lookup w k = Some i" using assms(2) by (auto simp: tree_def)
  obtain y where y: "k = x @ y" "y \<noteq> []" using assms(3,4) by (auto simp: prefix_def)
  then show ?thesis using os_wf_prefix [OF assms(1) i, of "length x"] by (auto simp: tree_Dir)
qed

lemma with_dirs_triv: "os_wf w \<Longrightarrow> tree w k = Some Dir \<Longrightarrow> with_dirs k (tree w) = tree w"
  using tree_prefix [of w k Dir] by (fastforce simp: with_dirs_def fun_eq_iff)

lemma resolve_no_file:
  assumes "os_wf w" and "tree w k = None" and "\<And>x bs. prefix x k \<Longrightarrow> tree w x \<noteq> Some (File bs)"
  shows "resolve w k = Inl ENOENT"
proof (rule ccontr)
  assume "resolve w k \<noteq> Inl ENOENT"
  moreover have "lookup w k = None" using assms(2) by (simp add: tree_None)
  ultimately have "walk w [] k = Inl ENOTDIR" using assms(1) by (metis resolve_def resolve_missing)
  then obtain j n where "j < length k" "lookup w (take j k) = Some n" "\<not> is_dir w n"
    by (auto dest: walk_ENOTDIR)
  then show False using assms(3) [of "take j k" "fdata w n"] by (auto simp: tree_def take_is_prefix)
qed

lemma mkpath_calm:
  fixes w :: world
  assumes "calm w" and "tree w (comps p) = Some Dir" and "p \<noteq> []" and "list_all good_name rel" and "good_name c"
    and "\<forall>ds bs. prefix ds rel \<longrightarrow> tree w (comps p @ ds) \<noteq> Some (File bs)"
  shows "\<exists>r w'. mkpath (sub_path p (rel @ [c])) None md w = ((Inr r, None), w') \<and> calm w' \<and> rest w' = rest w
    \<and> tree w' = with_dirs (comps p @ rel) (tree w) \<and> (\<forall>k. tree w k \<noteq> None \<longrightarrow> lookup w' k = lookup w k)"
  using assms(4-6)
proof (induction rel arbitrary: c rule: rev_induct)
  case Nil
  have wf: "os_wf w" using assms(1) by (simp add: calm_def)
  have s: "strrchr (sub_path p ([] @ [c])) DIRSEPCH = Some (length p)"
    using strrchr_sub_path [of c p "[]"] Nil(2) by (simp add: good_name_def sub_path_def)
  obtain st where "sys_lstat p w = (Inr st, w)" "S_ISDIR (st_mode st)"
    using lstat_found [OF assms(1,2)] by blast
  then show ?case
    using s assms(1,3) with_dirs_triv [OF wf assms(2)]
    by (subst mkpath.simps) (simp add: sub_path_def)
next
  case (snoc d rel)
  let ?q = "sub_path p (rel @ [d])"
  have wf: "os_wf w" using assms(1) by (simp add: calm_def)
  have k: "comps ?q = comps p @ rel @ [d]" using snoc.prems(1) by (simp add: concat_dirsep_comps)
  have s: "strrchr (sub_path p ((rel @ [d]) @ [c])) DIRSEPCH = Some (length ?q)"
    using snoc.prems(2) by (intro strrchr_sub_path) (simp add: good_name_def)
  have q: "?q \<noteq> []" "take (length ?q) (sub_path p ((rel @ [d]) @ [c])) = ?q"
    using assms(3) sub_path_append [of p "rel @ [d]" "[c]"] by (simp_all add: sub_path_def)
  show ?case
  proof (cases "tree w (comps ?q)")
    case (Some n)
    then have n: "n = Dir" using snoc.prems(3) k by (cases n) auto
    then obtain st where "sys_lstat ?q w = (Inr st, w)" "S_ISDIR (st_mode st)"
      using lstat_found [OF assms(1), of ?q Dir] Some by auto
    then show ?thesis
      using s q assms(1) with_dirs_triv [OF wf, of "comps ?q"] Some n k
      by (subst mkpath.simps) simp
  next
    case None
    have nofile: "tree w x \<noteq> Some (File bs)" if "prefix x (comps ?q)" for x bs
    proof (cases "prefix (comps p) x")
      case True
      then obtain ds where "x = comps p @ ds" by (auto simp: prefix_def)
      then show ?thesis using that k snoc.prems(3) by auto
    next
      case False
      then have "prefix x (comps p)" "x \<noteq> comps p"
        using that k by (auto simp: prefix_append)
      then show ?thesis using tree_prefix [OF wf assms(2)] by simp
    qed
    have l: "sys_lstat ?q w = (Inl ENOENT, w)"
      using resolve_no_file [OF wf None] nofile assms(1) by (simp add: sys_lstat_def pop_calm)
    obtain r w1 where w1: "mkpath ?q None md w = ((Inr r, None), w1)" "calm w1" "rest w1 = rest w"
        "tree w1 = with_dirs (comps p @ rel) (tree w)" "\<forall>k. tree w k \<noteq> None \<longrightarrow> lookup w1 k = lookup w k"
      using snoc.IH [of d] snoc.prems by auto
    have "tree w1 (comps ?q) = None" "tree w1 (butlast (comps ?q)) = Some Dir"
      using w1(4) None k nofile [of "comps p @ rel"] assms(2) snoc.prems(3)
      by (auto simp: with_dirs_def butlast_append split: option.splits) (metis node.exhaust prefix_order.refl option.exhaust)+
    then obtain w2 where w2: "sys_mkdir ?q md w1 = (Inr (), w2)" "calm w2" "tree w2 = (tree w1)(comps ?q \<mapsto> Dir)"
        "rest w2 = rest w1" "\<forall>k. k \<noteq> comps ?q \<longrightarrow> lookup w2 k = lookup w1 k"
      by (rule mkdir_new [OF w1(2)])
    have "prefix x (comps p @ rel @ [d]) \<longleftrightarrow> x = comps p @ rel @ [d] \<or> prefix x (comps p @ rel)" for x
      using prefix_snoc [of x "comps p @ rel" d] by simp
    then have "tree w2 = with_dirs (comps p @ rel @ [d]) (tree w)"
      using w2(3) w1(4) None k by (auto simp: with_dirs_def fun_eq_iff)
    moreover have "\<forall>k. tree w k \<noteq> None \<longrightarrow> lookup w2 k = lookup w k" using w1(5) w2(5) None by metis
    ultimately show ?thesis
      using s q l w1(1,3) w2(1,2,4) by (subst mkpath.simps) simp
  qed
qed

section \<open>What opening a file does to the disk\<close>

definition new_map :: "byte list option \<Rightarrow> mapheader \<Rightarrow> bool" where
  "new_map m h \<longleftrightarrow> header_ok h \<and> mapheader_wf h \<and>
     (case m of None \<Rightarrow> mh_exists h = 0 | Some bs \<Rightarrow> mh_exists h = 1 \<and> st_size (mh_fstat h) = length bs)"

text \<open>
  Below the snapshot \<open>S\<close> there may be new directories on the way to the file, a new empty dat file, and
  a new map file with the attributes of the main file. Nothing that was there has changed.
\<close>

definition grown :: "(string list \<Rightarrow> node option) \<Rightarrow> (string list \<Rightarrow> node option) \<Rightarrow> string list \<Rightarrow> string list
    \<Rightarrow> string list \<Rightarrow> bool" where
  "grown t t' S R cs \<longleftrightarrow>
     (\<forall>x. t x \<noteq> None \<or> \<not> prefix S x \<longrightarrow> t' x = t x) \<and>
     (\<forall>ds n. t (S @ ds) = None \<longrightarrow> t' (S @ ds) = Some n \<longrightarrow>
        prefix ds (butlast cs) \<and> n = Dir
        \<or> ds = dat_key cs \<and> n = File []
        \<or> ds = map_key cs \<and> (\<exists>h. n = File (mapheader_bytes h) \<and> new_map (main_at t R cs) h))"

lemma key_inj:
  assumes "good_path cs" and "good_path cs'"
  shows "map_key cs = map_key cs' \<longleftrightarrow> cs = cs'" "dat_key cs = dat_key cs' \<longleftrightarrow> cs = cs'" "map_key cs \<noteq> dat_key cs'"
proof -
  have ne: "cs \<noteq> []" "cs' \<noteq> []" using assms by (simp_all add: good_path_def)
  then obtain xs x ys y where e: "cs = xs @ [x]" "cs' = ys @ [y]" by (metis rev_exhaust)
  show "map_key cs = map_key cs' \<longleftrightarrow> cs = cs'" "dat_key cs = dat_key cs' \<longleftrightarrow> cs = cs'"
    by (simp_all add: e map_key_def dat_key_def)
  show "map_key cs \<noteq> dat_key cs'" by (auto simp: map_key_def dat_key_def EXT_MAP_def EXT_DAT_def)
qed

lemma key_not_dir:
  assumes "good_path cs'" and "good_path cs"
  shows "\<not> prefix (map_key cs') (butlast cs)" "\<not> prefix (dat_key cs') (butlast cs)"
proof -
  have "x \<in> set (butlast cs)" if "prefix (ys @ [x]) (butlast cs)" for x ys
    using that by (auto simp: prefix_def)
  moreover have "list_all plain (butlast cs)" using assms(2) by (simp add: good_path_def)
  ultimately show "\<not> prefix (map_key cs') (butlast cs)" "\<not> prefix (dat_key cs') (butlast cs)"
    using plain_map [of "last cs'"] good_path_last [OF assms(1)]
    unfolding map_key_def dat_key_def list_all_iff by blast+
qed

lemma grown_refl: "grown t t S R cs"
  by (auto simp: grown_def)

lemma grown_old: "grown t t' S R cs \<Longrightarrow> t x = Some n \<Longrightarrow> t' x = Some n"
  by (simp add: grown_def)

lemma grown_outside: "grown t t' S R cs \<Longrightarrow> \<not> prefix S x \<Longrightarrow> t' x = t x"
  by (simp add: grown_def)

lemma grown_dat:
  assumes g: "grown t t' S R cs" and p: "good_path cs" "good_path cs'"
  shows "(case file_of (t' (S @ dat_key cs')) of None \<Rightarrow> [] | Some db \<Rightarrow> db)
    = (case file_of (t (S @ dat_key cs')) of None \<Rightarrow> [] | Some db \<Rightarrow> db)"
proof (cases "t (S @ dat_key cs')")
  case None
  then have "t' (S @ dat_key cs') = None \<or> t' (S @ dat_key cs') = Some (File [])"
    using g key_not_dir(2) [OF p(2,1)] key_inj(3) [OF p(1,2)] unfolding grown_def
    by (metis not_None_eq)
  with None show ?thesis by (auto simp: file_of_def)
next
  case (Some n)
  then show ?thesis using grown_old [OF g] by simp
qed

lemma grown_layer:
  assumes g: "grown t t' S R cs" and p: "good_path cs" "good_path cs'"
  shows "layer_at t' S cs' = layer_at t S cs' \<or>
    cs' = cs \<and> layer_at t S cs = None \<and> (\<exists>h db. layer_at t' S cs = Some (mapheader_bytes h, db) \<and> new_map (main_at t R cs) h)"
proof (cases "t (S @ map_key cs')")
  case None
  show ?thesis
  proof (cases "t' (S @ map_key cs')")
    case (Some n)
    then have "map_key cs' = map_key cs \<and> (\<exists>h. n = File (mapheader_bytes h) \<and> new_map (main_at t R cs) h)"
      using g None key_not_dir(1) [OF p(2,1)] key_inj(3) [OF p(2,1)] unfolding grown_def by metis
    then show ?thesis using None Some key_inj(1) [OF p(2,1)] by (auto simp: layer_at_def file_of_def)
  qed (use None in \<open>simp add: layer_at_def file_of_def\<close>)
next
  case (Some n)
  then show ?thesis using grown_old [OF g Some] grown_dat [OF assms] by (simp add: layer_at_def)
qed

lemma map_header_bytes: "mapheader_wf h \<Longrightarrow> map_header (mapheader_bytes h) = h"
  using map_header_append [of h "[]"] by simp

lemma new_layer:
  assumes "new_map m h"
  shows "layer_view s (Some (mapheader_bytes h, db)) m = m" "layer_wf s (mapheader_bytes h, db) m"
    "header_ok (map_header (mapheader_bytes h))"
proof -
  have h: "map_header (mapheader_bytes h) = h" "header_ok h" using assms by (simp_all add: new_map_def map_header_bytes)
  have get: "layer_get s (mapheader_bytes h, db) = (\<lambda>_. None)"
    by (simp add: layer_get_def ptr_at_header fun_eq_iff)
  have ok: "layer_ok s (mapheader_bytes h, db)"
    by (simp add: layer_ok_def ptr_at_header MAPHEADER_S_def BLP_S_def)
  show "header_ok (map_header (mapheader_bytes h))" using h by simp
  have "layer_view s (Some (mapheader_bytes h, db)) m = m \<and> layer_wf s (mapheader_bytes h, db) m"
  proof (cases m)
    case None
    then show ?thesis using assms h(1) ok by (simp add: new_map_def layer_size_def layer_wf_def)
  next
    case (Some bs)
    have "overlay (2 ^ s) (length bs) (\<lambda>_. None) bs = bs"
      by (rule nth_equalityI) (simp_all add: overlay_def overlay_byte_def)
    then show ?thesis
      using assms h(1) ok Some get by (simp add: new_map_def layer_size_def layer_wf_def covered_def)
  qed
  then show "layer_view s (Some (mapheader_bytes h, db)) m = m" "layer_wf s (mapheader_bytes h, db) m" by simp_all
qed

lemma grown_paired:
  assumes g: "grown t t' S R cs" and p: "good_path cs" "good_path cs'" and "cs' \<noteq> cs" and q: "paired t S cs'"
  shows "paired t' S cs'"
proof -
  have "file_of (t' (S @ map_key cs')) = file_of (t (S @ map_key cs'))"
  proof (cases "t (S @ map_key cs')")
    case None
    then have "t' (S @ map_key cs') = None \<or> t' (S @ map_key cs') = Some Dir"
      using g key_inj(1) [OF p(2,1)] key_inj(3) [OF p(2,1)] assms(4) unfolding grown_def by (metis not_None_eq)
    then show ?thesis using None by (auto simp: file_of_def)
  qed (simp add: grown_old [OF g])
  moreover have "file_of (t' (S @ dat_key cs')) \<noteq> None" if "file_of (t (S @ dat_key cs')) \<noteq> None"
    using that grown_old [OF g] by (cases "t (S @ dat_key cs')") (simp_all add: file_of_def)
  ultimately show ?thesis using q by (auto simp: paired_def)
qed

text \<open>The main space is not below a snapshot.\<close>

lemma not_below: "good_path cs \<Longrightarrow> \<not> prefix (R @ ''snapshots'' # S) (R @ cs)"
  by (cases cs) (auto simp: good_path_def)

lemma grown_main:
  "grown t t' (R @ ''snapshots'' # S) R cs \<Longrightarrow> good_path cs' \<Longrightarrow> main_at t' R cs' = main_at t R cs'"
  unfolding main_at_def by (subst grown_outside [OF _ not_below]) auto

lemma grown_view:
  assumes "grown t t' (R @ ''snapshots'' # S) R cs" and "good_path cs" and "good_path cs'"
  shows "layer_view s (layer_at t' (R @ ''snapshots'' # S) cs') (main_at t' R cs')
    = layer_view s (layer_at t (R @ ''snapshots'' # S) cs') (main_at t R cs')"
  using grown_layer [OF assms] grown_main [OF assms(1,3)] new_layer(1) by fastforce

lemma grown_sound:
  assumes "grown t t' (R @ ''snapshots'' # S) R cs" and "good_path cs" and "good_path cs'"
    and "sound s t (R @ ''snapshots'' # S) R cs'" and "cs' = cs \<Longrightarrow> paired t' (R @ ''snapshots'' # S) cs"
  shows "sound s t' (R @ ''snapshots'' # S) R cs'"
proof -
  have "paired t' (R @ ''snapshots'' # S) cs'"
    using grown_paired [OF assms(1-3)] assms(4,5) by (cases "cs' = cs") (simp_all add: sound_def)
  then show ?thesis
    using grown_layer [OF assms(1-3)] grown_main [OF assms(1,3)] new_layer(2,3) assms(4) by (fastforce simp: sound_def)
qed

lemma grown_shape:
  assumes g: "grown t t' S R cs" and p: "good_path cs" and sh: "shape t S"
  shows "shape t' S"
proof -
  have new: "prefix ds (butlast cs) \<and> n = Dir \<or> (\<exists>bs. n = File bs) \<and> (ds = dat_key cs \<or> ds = map_key cs)
      \<or> t (S @ ds) = Some n" if "t' (S @ ds) = Some n" for ds n
    using g that unfolding grown_def by (metis not_None_eq)
  have pl: "list_all plain ds" if "prefix ds (butlast cs)" for ds
    using that p by (auto simp: good_path_def prefix_def)
  have ext: "\<not> plain (last (dat_key cs))" "\<not> plain (last (map_key cs))" "dat_key cs \<noteq> []" "map_key cs \<noteq> []"
    using good_path_last [OF p] by (simp_all add: map_key_def dat_key_def)
  show ?thesis
    unfolding shape_def
  proof (intro conjI allI impI)
    fix ds assume d: "t' (S @ ds) = Some Dir"
    show "list_all plain ds" using new [OF d] pl sh by (auto simp: shape_def)
  next
    fix ds bs assume d: "t' (S @ ds) = Some (File bs)"
    show "ds \<noteq> []" "\<not> plain (last ds)" using new [OF d] ext sh by (auto simp: shape_def)
  qed
qed

end
