(* ===== verification/Opening.thy ===== *)
theory Opening
  imports Layers
begin

text \<open>
  Opening the snapshot part of a file of the main space (\<open>mfd_open_sn\<close>) on a disk without faults: the
  directories, the map file and the dat file it makes, and the descriptors in the handle. The lemmas
  hold whether or not the file exists, and whether or not the latest snapshot has a layer for it.
\<close>

section \<open>Handles\<close>

text \<open>\<open>S\<close> is the directory of the latest snapshot.\<close>

definition map_open :: "mfd \<Rightarrow> string list \<Rightarrow> string list \<Rightarrow> world \<Rightarrow> bool" where
  "map_open m S cs w \<longleftrightarrow>
     (\<exists>j fl mb. fd_view w (mapfd m) = Some (j, fl) \<and> readable fl \<and> writable fl \<and> \<not> has_flag fl O_APPEND
        \<and> lookup w (S @ map_key cs) = Some j \<and> tree w (S @ map_key cs) = Some (File mb)
        \<and> map_header mb = mapheader m)"

definition dat_open :: "mfd \<Rightarrow> string list \<Rightarrow> string list \<Rightarrow> world \<Rightarrow> bool" where
  "dat_open m S cs w \<longleftrightarrow>
     (if mh_exists (mapheader m) = 0 \<or> st_size (mh_fstat (mapheader m)) = 0
      then datfd m = MFD_FD_ENOENT \<or> datfd m = MFD_FD_ZLEN
      else \<exists>k fl db. fd_view w (datfd m) = Some (k, fl) \<and> writable fl \<and> has_flag fl O_APPEND
        \<and> lookup w (S @ dat_key cs) = Some k \<and> tree w (S @ dat_key cs) = Some (File db))"

text \<open>The descriptor \<open>fd\<close>, if it is one, is new.\<close>

definition adds :: "int \<Rightarrow> (int \<Rightarrow> ofile option) \<Rightarrow> (int \<Rightarrow> ofile option) \<Rightarrow> bool" where
  "adds fd g g' \<longleftrightarrow> (if fd < 0 then g' = g else g fd = None \<and> (\<exists>f. g' = g(fd \<mapsto> f)))"

text \<open>What is on the disk stays where it is.\<close>

definition stays :: "world \<Rightarrow> world \<Rightarrow> bool" where
  "stays w w' \<longleftrightarrow> (\<forall>k. tree w k \<noteq> None \<longrightarrow> lookup w' k = lookup w k)"

text \<open>
  What \<open>mfd_open_sn\<close> promises, in states \<open>w\<close> and \<open>w'\<close> before and after it: no view of the file has
  changed; without an error, the handle has the header of the layer and descriptors for its files.
\<close>

definition open_result ::
  "string list \<Rightarrow> string list \<Rightarrow> string list \<Rightarrow> mfd \<Rightarrow> world \<Rightarrow> unit res \<Rightarrow> mfd \<Rightarrow> world \<Rightarrow> bool" where
  "open_result S R cs m w r m' w' \<longleftrightarrow>
     calm w' \<and> os.more w' = os.more w \<and> grown (tree w) (tree w') S R cs \<and> stays w w' \<and>
     (case r of
        Inl e \<Rightarrow> get_fd w' = get_fd w \<and> tree w' (S @ map_key cs) = tree w (S @ map_key cs) \<and> (e = ENAMETOOLONG \<or> main_at (tree w) R cs = None)
      | Inr _ \<Rightarrow>
          map_open m' S cs w' \<and> dat_open m' S cs w' \<and> header_ok (mapheader m') \<and> 0 \<le> mapfd m'
          \<and> (\<exists>g. adds (mapfd m') (get_fd w) g \<and> adds (datfd m') g (get_fd w'))
          \<and> (\<exists>h x y. m' = m\<lparr>mapheader := h, mapfd := x, datfd := y\<rparr>))"

section \<open>Changes of the tree\<close>

lemma stays_refl: "stays w w"
  by (simp add: stays_def)

lemma stays_trans: "stays w w1 \<Longrightarrow> stays w1 w2 \<Longrightarrow> stays w w2"
  by (metis stays_def tree_None)

lemma stays_lookup: "lookup w' = lookup w \<Longrightarrow> stays w w'"
  by (simp add: stays_def)

lemma grown_dirs:
  assumes "os_wf w" and "tree w S = Some Dir"
  shows "grown (tree w) (with_dirs (S @ butlast cs) (tree w)) S R cs"
proof -
  have "prefix S x" if "prefix x (S @ butlast cs)" "tree w x = None" for x
    using that tree_prefix [OF assms, of x] by (auto simp: prefix_append)
  then show ?thesis by (auto simp: grown_def with_dirs_def)
qed

lemma grown_map:
  assumes "grown t t1 S R cs" and "t1 (S @ map_key cs) = None" and "new_map (main_at t R cs) h"
  shows "grown t (t1(S @ map_key cs \<mapsto> File (mapheader_bytes h))) S R cs"
  using assms by (auto simp: grown_def)

lemma grown_new_dat:
  assumes "grown t t1 S R cs" and "t1 (S @ dat_key cs) = None"
  shows "grown t (t1(S @ dat_key cs \<mapsto> File [])) S R cs"
  using assms by (auto simp: grown_def)

lemma grown_no_dir:
  assumes "grown t t1 S R cs" and "shape t S" and "good_path cs"
  shows "t1 (S @ map_key cs) \<noteq> Some Dir" "t1 (S @ dat_key cs) \<noteq> Some Dir"
proof -
  have "shape t1 S" by (rule grown_shape [OF assms(1,3,2)])
  moreover have "\<not> list_all plain (map_key cs)" "\<not> list_all plain (dat_key cs)"
    using good_path_last [OF assms(3)] by (simp_all add: map_key_def dat_key_def)
  ultimately show "t1 (S @ map_key cs) \<noteq> Some Dir" "t1 (S @ dat_key cs) \<noteq> Some Dir"
    unfolding shape_def by blast+
qed

section \<open>The names of the map and the dat file\<close>

lemma layer_paths:
  assumes "good_path cs" and "n = length L" and "n + length (sub_path [] cs) + EXT_LEN < PATH_MAX"
  shows "get_map_prefix_path (sub_path [] cs) L n = Inr (sub_path L (map_key cs))"
    "get_dat_prefix_path (sub_path [] cs) L n = Inr (sub_path L (dat_key cs))"
    "comps (sub_path L (map_key cs)) = comps L @ map_key cs" "comps (sub_path L (dat_key cs)) = comps L @ dat_key cs"
proof -
  have ne: "cs \<noteq> []" using assms(1) by (simp add: good_path_def)
  have "size_lt (length (sub_path [] cs)) (int PATH_MAX - int EXT_LEN - int n)"
    using assms(3) size_lt_nonneg [of "length (sub_path [] cs)" "int PATH_MAX - int EXT_LEN - int n"]
    by (simp add: PATH_MAX_def)
  moreover have "take EXT_LEN EXT_MAP = EXT_MAP" "take EXT_LEN EXT_DAT = EXT_DAT"
    by (simp_all add: EXT_MAP_def EXT_DAT_def EXT_LEN_def)
  ultimately show "get_map_prefix_path (sub_path [] cs) L n = Inr (sub_path L (map_key cs))"
    "get_dat_prefix_path (sub_path [] cs) L n = Inr (sub_path L (dat_key cs))"
    using assms(2) sub_path_ext [OF ne, of L]
    by (simp_all add: get_map_prefix_path_def get_dat_prefix_path_def map_key_def dat_key_def)
  show "comps (sub_path L (map_key cs)) = comps L @ map_key cs" "comps (sub_path L (dat_key cs)) = comps L @ dat_key cs"
    using good_keys [OF assms(1)] by (simp_all add: concat_dirsep_comps)
qed

lemma layer_paths_long:
  assumes "n + length (sub_path [] cs) + EXT_LEN \<ge> PATH_MAX" and "n + EXT_LEN \<le> PATH_MAX"
    and "length (sub_path [] cs) < 2 ^ 64"
  shows "get_map_prefix_path (sub_path [] cs) L n = Inl ENAMETOOLONG"
  using assms size_lt_nonneg [of "length (sub_path [] cs)" "int PATH_MAX - int EXT_LEN - int n"]
  by (simp add: get_map_prefix_path_def)

lemma key_parent: "butlast (S @ map_key cs) = S @ butlast cs" "butlast (S @ dat_key cs) = S @ butlast cs"
  by (simp_all add: map_key_def dat_key_def butlast_append)

section \<open>The dat file\<close>

lemma open_dat_calm:
  fixes w :: world
  assumes "calm w" and "sn_lat_dir_len w = length (sn_lat_dir w)" and "comps (sn_lat_dir w) = S" and "good_path cs"
    and "sn_lat_dir_len w + length (sub_path [] cs) + EXT_LEN < PATH_MAX"
    and "tree w (S @ butlast cs) = Some Dir" and "tree w (S @ dat_key cs) \<noteq> Some Dir"
  obtains x w' where "mfd_open_dat_file m (sub_path [] cs) w = ((Inr (), m\<lparr>datfd := x\<rparr>), w')"
    and "calm w'" and "os.more w' = os.more w" and "dat_open (m\<lparr>datfd := x\<rparr>) S cs w'" and "adds x (get_fd w) (get_fd w')"
    and "tree w' = tree w \<or> tree w (S @ dat_key cs) = None \<and> tree w' = (tree w)(S @ dat_key cs \<mapsto> File [])"
    and "\<forall>k. k \<noteq> S @ dat_key cs \<longrightarrow> lookup w' k = lookup w k" and "stays w w'"
proof (cases "mh_exists (mapheader m) = 0 \<or> st_size (mh_fstat (mapheader m)) = 0")
  case True
  let ?x = "if mh_exists (mapheader m) = 0 then MFD_FD_ENOENT else MFD_FD_ZLEN"
  have "mfd_open_dat_file m (sub_path [] cs) w = ((Inr (), m\<lparr>datfd := ?x\<rparr>), w)"
    using True by (auto simp: mfd_open_dat_file_def)
  moreover have "dat_open (m\<lparr>datfd := ?x\<rparr>) S cs w" using True by (simp add: dat_open_def)
  moreover have "adds ?x (get_fd w) (get_fd w)" by (simp add: adds_def)
  ultimately show ?thesis using that assms(1) stays_refl by blast
next
  case False
  let ?fl = "O_WRONLY OR O_CREAT OR O_APPEND OR O_NOATIME :: oflags"
  let ?p = "sub_path (sn_lat_dir w) (dat_key cs)" and ?k = "S @ dat_key cs"
  note p = layer_paths [OF assms(4,2,5)]
  have k: "comps ?p = ?k" using p(4) assms(3) by simp
  have fl: "has_flag ?fl O_CREAT" "has_flag ?fl O_APPEND" "writable ?fl" "\<not> has_flag ?fl O_EXCL" "\<not> has_flag ?fl O_TRUNC"
    by (simp_all add: has_flag_def writable_def)
  obtain fd i w' where o: "sys_open ?p ?fl S_IRWXU w = (Inr fd, w')" "calm w'"
      "tree w' = tree w \<or> tree w ?k = None \<and> tree w' = (tree w)(?k \<mapsto> File [])"
      "\<exists>db. tree w' ?k = Some (File db)" "lookup w' ?k = Some i"
      "get_fd w' = (get_fd w)(fd \<mapsto> \<lparr>of_ino = i, of_flags = ?fl, of_pos = 0\<rparr>)" "get_fd w fd = None"
      "os.more w' = os.more w" "\<forall>k. k \<noteq> ?k \<longrightarrow> lookup w' k = lookup w k" "stays w w'"
  proof (cases "tree w ?k")
    case None
    then have "tree w (comps ?p) = None" "tree w (butlast (comps ?p)) = Some Dir"
      using k assms(6) key_parent(2) [of S cs] by simp_all
    from open_new [OF assms(1) this fl(1), of S_IRWXU]
    obtain fd i w' where "sys_open ?p ?fl S_IRWXU w = (Inr fd, w')" "calm w'" "tree w' = (tree w)(?k \<mapsto> File [])"
        "get_fd w' = (get_fd w)(fd \<mapsto> \<lparr>of_ino = i, of_flags = ?fl, of_pos = 0\<rparr>)" "get_fd w fd = None"
        "os.more w' = os.more w" "lookup w' = (lookup w)(?k \<mapsto> i)"
      unfolding k by blast
    then show ?thesis using that None by (simp add: stays_def)
  next
    case (Some n)
    then obtain db where db: "tree w (comps ?p) = Some (File db)" using assms(7) k by (cases n) auto
    obtain fd i w' where "sys_open ?p ?fl S_IRWXU w = (Inr fd, w')" "calm w'"
        "tree w' = (tree w)(comps ?p \<mapsto> File (if has_flag ?fl O_TRUNC then [] else db))" "lookup w' (comps ?p) = Some i"
        "get_fd w' = (get_fd w)(fd \<mapsto> \<lparr>of_ino = i, of_flags = ?fl, of_pos = 0\<rparr>)" "get_fd w fd = None"
        "os.more w' = os.more w" "lookup w' = lookup w"
      by (rule open_file [OF assms(1) db, of ?fl S_IRWXU]) (use fl(4) in simp)
    then show ?thesis using that [of fd w' i] k fl(5) db by (simp add: fun_upd_idem stays_def)
  qed
  have x: "0 \<le> fd" using fd_view_nonneg [of w' fd "(i, ?fl)"] o(6) by (simp add: fd_view_def)
  have "mfd_open_dat_file m (sub_path [] cs) w = ((Inr (), m\<lparr>datfd := fd\<rparr>), w')"
    using False p(2) o(1) by (simp add: mfd_open_dat_file_def)
  moreover have "dat_open (m\<lparr>datfd := fd\<rparr>) S cs w'"
    using False o(4,5,6) fl by (auto simp: dat_open_def fd_view_def)
  moreover have "adds fd (get_fd w) (get_fd w')" using o(6,7) x by (auto simp: adds_def)
  ultimately show ?thesis using that o by blast
qed

section \<open>The map file\<close>

lemma load_calm:
  fixes w :: world
  assumes "calm w" and "fd_view w fd = Some (j, fl)" and "readable fl" and "lookup w k = Some j"
    and "tree w k = Some (File mb)" and "MAPHEADER_S \<le> length mb" and "header_ok (map_header mb)"
  shows "mfd_load_mapheader h fd w = ((Inr (), map_header mb), w)"
proof -
  obtain f where f: "get_fd w fd = Some f" "of_ino f = j" "of_flags f = fl" using assms(2) by (auto simp: fd_view_def)
  have "length (read_at mb MAPHEADER_S 0) = MAPHEADER_S" using assms(6) by (simp add: read_at_def)
  then show ?thesis
    using pread_calm [OF assms(1) f(1), of k mb MAPHEADER_S 0] f assms(3-5,7)
    by (simp add: mfd_load_mapheader_def map_header_def header_ok_def)
qed

lemma lstat_calm:
  fixes w :: world
  assumes "calm w" and "tree w (comps p) = None"
  shows "\<exists>e. sys_lstat p w = (Inl e, w)"
proof -
  have "resolve w (comps p) \<noteq> Inr i" for i
    using assms by (simp add: resolve_Inr calm_def tree_None)
  then show ?thesis using assms(1) by (auto simp: sys_lstat_def pop_calm split: sum.splits)
qed

lemma new_header_calm:
  fixes w :: world
  assumes "calm w" and "fd_view w (mapfd m) = Some (j, fl)" and "writable fl" and "\<not> has_flag fl O_APPEND"
    and "lookup w k = Some j" and "tree w k = Some (File [])" and "comps p \<noteq> k"
    and "st_size (mh_fstat (mapheader m)) < 2 ^ 64"
  obtains (error) e m' where "mfd_new_header m p w = ((Inl e, m'), w)" and "file_of (tree w (comps p)) = None"
  | (header) h w' where "mfd_new_header m p w = ((Inr (), m\<lparr>mapheader := h\<rparr>), w')" and "new_map (file_of (tree w (comps p))) h"
    and "calm w'" and "tree w' = (tree w)(k \<mapsto> File (mapheader_bytes h))" and "get_fd w' = get_fd w"
    and "os.more w' = os.more w" and "lookup w' = lookup w"
proof -
  obtain f where f: "get_fd w (mapfd m) = Some f" "of_ino f = j" "of_flags f = fl"
    using assms(2) by (auto simp: fd_view_def)
  have fd: "0 \<le> mapfd m" using fd_view_nonneg [OF assms(2)] .
  have save: "\<exists>w'. mfd_save_mapheader (m\<lparr>mapheader := h\<rparr>) w = (Inr (), w') \<and> calm w'
      \<and> tree w' = (tree w)(k \<mapsto> File (mapheader_bytes h)) \<and> get_fd w' = get_fd w \<and> os.more w' = os.more w
      \<and> lookup w' = lookup w" for h
  proof -
    have "0 + length (mapheader_bytes h) \<le> MAX_OFF" by (simp add: MAPHEADER_S_def)
    from pwrite_calm [OF assms(1) f(1) _ _ _ assms(6) this] f assms(3-5)
    obtain w' where w': "sys_pwrite (mapfd m) (mapheader_bytes h) 0 w = (Inr MAPHEADER_S, w')" "calm w'"
        "tree w' = (tree w)(k \<mapsto> File (mapheader_bytes h))" "get_fd w' = get_fd w" "os.more w' = os.more w"
        "lookup w' = lookup w"
      by (auto simp: write_at_new)
    then show ?thesis using fd by (simp add: mfd_save_mapheader_def)
  qed
  let ?h = "(mapheader m)\<lparr>mh_version := 12000, mh_signature := ESFS_SIGNATURE, mh_exists := 1\<rparr>"
  show ?thesis
  proof (cases "tree w (comps p)")
    case None
    obtain e where e: "sys_lstat p w = (Inl e, w)" using lstat_calm [OF assms(1) None] by blast
    let ?g = "?h\<lparr>mh_exists := 0\<rparr>"
    have g: "new_map (file_of (tree w (comps p))) ?g"
      using assms(8) None by (simp add: new_map_def header_ok_def mapheader_wf_def file_of_def ESFS_SIGNATURE_def)
    show ?thesis
    proof (cases "e = ENOENT \<and> \<not> S_ISDIR (st_mode (mh_fstat (mapheader m)))")
      case True
      then show ?thesis using header [OF _ g] save [of ?g] e by (auto simp: mfd_new_header_def Let_def)
    next
      case False
      then have "\<exists>e m'. mfd_new_header m p w = ((Inl e, m'), w)"
        using e by (cases "e = ENOENT") (simp_all add: mfd_new_header_def Let_def)
      then show ?thesis using error None by (auto simp: file_of_def)
    qed
  next
    case (Some n)
    obtain st where st: "sys_lstat p w = (Inr st, w)" "S_ISDIR (st_mode st) \<longleftrightarrow> n = Dir"
        "\<And>bs. n = File bs \<Longrightarrow> st_size st = length bs"
      using lstat_found [OF assms(1) Some] by blast
    show ?thesis
    proof (cases n)
      case Dir
      then have "\<exists>m'. mfd_new_header m p w = ((Inl EISDIR, m'), w)"
        using st(1,2) by (simp add: mfd_new_header_def Let_def)
      then show ?thesis using error Some Dir by (auto simp: file_of_def)
    next
      case (File bs)
      let ?g = "?h\<lparr>mh_fstat := st\<rparr>"
      have "length bs \<le> MAX_OFF"
        using assms(1) Some File by (auto simp: tree_File calm_def sizes_ok_def)
      then have g: "new_map (file_of (tree w (comps p))) ?g"
        using Some File st(3) by (simp add: new_map_def header_ok_def mapheader_wf_def file_of_def ESFS_SIGNATURE_def)
      then show ?thesis using header [OF _ g] save [of ?g] st(1,2) File by (auto simp: mfd_new_header_def Let_def)
    qed
  qed
qed

section \<open>Under the lock\<close>

text \<open>The latest snapshot, \<open>S\<close>, of the main space \<open>R\<close>; no lock is held.\<close>

definition latest :: "world \<Rightarrow> string list \<Rightarrow> string list \<Rightarrow> bool" where
  "latest w S R \<longleftrightarrow> calm w \<and> mflocks w = table0 \<and> sn_is_any w \<and> sn_lat_dir_len w = length (sn_lat_dir w)
     \<and> sn_lat_dir w \<noteq> [] \<and> comps (sn_lat_dir w) = S \<and> sn_lat_dir_len w + EXT_LEN \<le> PATH_MAX
     \<and> tree w S = Some Dir \<and> shape (tree w) S \<and> (\<exists>a. S = R @ ''snapshots'' # a)"

abbreviation locked :: "locklabel \<Rightarrow> world \<Rightarrow> world" where
  "locked lb w \<equiv> w\<lparr>mflocks := taken lb (self w)\<rparr>"

lemma lookup_locks [simp]: "lookup (w\<lparr>mflocks := T\<rparr>) = lookup w" for w :: world
  by (simp add: lookup_def fun_eq_iff)

lemma more_locks:
  assumes "os.more w1 = os.more (locked lb w)" and "mflocks w = table0"
  shows "os.more (w1\<lparr>mflocks := table0\<rparr>) = os.more w" "mflock_unlock 0 w1 = Some (Inr (), w1\<lparr>mflocks := table0\<rparr>)"
proof -
  show "os.more (w1\<lparr>mflocks := table0\<rparr>) = os.more w" using assms by (cases w; cases w1) simp
  show "mflock_unlock 0 w1 = Some (Inr (), w1\<lparr>mflocks := table0\<rparr>)"
    using more_fields(8) [OF assms(1)] by (simp add: mflock_unlock_def unlock_idle)
qed

lemma map_open_adds:
  assumes "map_open m S cs w" and "adds x (get_fd w) (get_fd w')" and "lookup w' (S @ map_key cs) = lookup w (S @ map_key cs)"
    and "tree w' (S @ map_key cs) = tree w (S @ map_key cs)"
  shows "map_open (m\<lparr>datfd := x\<rparr>) S cs w'"
proof -
  have "fd_view w' (mapfd m) = fd_view w (mapfd m)"
    using assms(1,2) by (auto simp: map_open_def adds_def fd_view_def split: if_splits)
  then show ?thesis using assms by (auto simp: map_open_def)
qed

text \<open>With the map file open and its header in the handle: the lock is released and the dat file opened.\<close>

lemma open_tail:
  assumes "latest w S R" and "good_path cs" and "sn_lat_dir_len w + length (sub_path [] cs) + EXT_LEN < PATH_MAX"
    and "calm w1" and "os.more w1 = os.more (locked lb w)" and "grown (tree w) (tree w1) S R cs"
    and "adds (mapfd m) (get_fd w) (get_fd w1)" and "map_open m S cs w1" and "header_ok (mapheader m)" and "stays w w1"
  shows "\<exists>x w'. mfd_open_dat_file m (sub_path [] cs) (w1\<lparr>mflocks := table0\<rparr>) = ((Inr (), m\<lparr>datfd := x\<rparr>), w')
    \<and> open_result S R cs m w (Inr ()) (m\<lparr>datfd := x\<rparr>) w'"
proof -
  let ?w = "w1\<lparr>mflocks := table0\<rparr>"
  have l: "mflocks w = table0" "sn_lat_dir_len w = length (sn_lat_dir w)" "comps (sn_lat_dir w) = S" "shape (tree w) S"
    using assms(1) by (simp_all add: latest_def)
  have mo: "os.more ?w = os.more w" by (rule more_locks(1) [OF assms(5) l(1)])
  have c: "calm ?w" using assms(4) by simp
  have wf: "os_wf w1" using assms(4) by (simp add: calm_def)
  have g: "tree ?w = tree w1" "get_fd ?w = get_fd w1" "lookup ?w = lookup w1" by (simp_all add: get_fd_locks)
  obtain mb where "tree w1 (S @ map_key cs) = Some (File mb)" using assms(8) by (auto simp: map_open_def)
  then have d: "tree ?w (S @ butlast cs) = Some Dir"
    using tree_parent [OF wf, of "S @ map_key cs"] key_parent(1) [of S cs] good_keys(4) [OF assms(2)] by simp
  have nd: "tree ?w (S @ dat_key cs) \<noteq> Some Dir" using grown_no_dir(2) [OF assms(6) l(4) assms(2)] by simp
  have p: "sn_lat_dir_len ?w = length (sn_lat_dir ?w)" "comps (sn_lat_dir ?w) = S"
      "sn_lat_dir_len ?w + length (sub_path [] cs) + EXT_LEN < PATH_MAX"
    unfolding more_fields(4,5) [OF mo] by (rule l(2), rule l(3), rule assms(3))
  obtain x w' where w': "mfd_open_dat_file m (sub_path [] cs) ?w = ((Inr (), m\<lparr>datfd := x\<rparr>), w')"
      "calm w'" "os.more w' = os.more ?w" "dat_open (m\<lparr>datfd := x\<rparr>) S cs w'" "adds x (get_fd ?w) (get_fd w')"
      "tree w' = tree ?w \<or> tree ?w (S @ dat_key cs) = None \<and> tree w' = (tree ?w)(S @ dat_key cs \<mapsto> File [])"
      "\<forall>k. k \<noteq> S @ dat_key cs \<longrightarrow> lookup w' k = lookup ?w k" "stays ?w w'"
    by (rule open_dat_calm [OF c p(1,2) assms(2) p(3) d nd])
  have ne: "map_key cs \<noteq> dat_key cs" using good_keys(3) [OF assms(2)] .
  have "grown (tree w) (tree w') S R cs"
    using w'(6) grown_new_dat [OF assms(6)] assms(6) unfolding g(1) by metis
  moreover have "lookup w' (S @ map_key cs) = lookup w1 (S @ map_key cs)" "tree w' (S @ map_key cs) = tree w1 (S @ map_key cs)"
    using w'(6,7) ne unfolding g by auto
  then have "map_open (m\<lparr>datfd := x\<rparr>) S cs w'"
    by (rule map_open_adds [OF assms(8) w'(5) [unfolded g(2)]])
  moreover have "0 \<le> mapfd m" using assms(8) fd_view_nonneg by (auto simp: map_open_def)
  moreover have "\<exists>g. adds (mapfd m) (get_fd w) g \<and> adds x g (get_fd w')" using assms(7) w'(5) g(2) by auto
  moreover have "\<exists>h y z. m\<lparr>datfd := x\<rparr> = m\<lparr>mapheader := h, mapfd := y, datfd := z\<rparr>"
    by (rule exI [of _ "mapheader m"], rule exI [of _ "mapfd m"], rule exI [of _ x]) simp
  moreover have "stays w w'"
    by (rule stays_trans [OF assms(10) stays_trans [OF stays_lookup [OF g(3)] w'(8)]])
  ultimately have "open_result S R cs m w (Inr ()) (m\<lparr>datfd := x\<rparr>) w'"
    using w'(2-4) mo assms(9) by (simp add: open_result_def)
  with w'(1) show ?thesis by blast
qed

lemma open_result_handle:
  "open_result S R cs (m\<lparr>mapfd := a, mapheader := b\<rparr>) w r m' w' \<Longrightarrow> open_result S R cs m w r m' w'"
  by (auto simp: open_result_def split: sum.splits)

lemma open_old_calm:
  assumes "latest w S R" and "good_path cs" and "sn_lat_dir_len w + length (sub_path [] cs) + EXT_LEN < PATH_MAX"
    and "calm w1" and "os.more w1 = os.more (locked lb w)" and "grown (tree w) (tree w1) S R cs"
    and "get_fd w1 = get_fd w" and "tree w (S @ map_key cs) = Some (File mb)" and "sound (bl_slog w) (tree w) S R cs"
    and "comps fmap = S @ map_key cs" and "stays w w1"
  shows "\<exists>m' w'. mfd_open_old m (sub_path [] cs) fmap 0 w1 = Some ((Inr (), m'), w') \<and> open_result S R cs m w (Inr ()) m' w'"
proof -
  have l: "layer_at (tree w) S cs \<noteq> None" "\<And>x. layer_at (tree w) S cs = Some x \<Longrightarrow> fst x = mb"
    using assms(8) by (auto simp: layer_at_def file_of_def)
  then have h: "header_ok (map_header mb)" "MAPHEADER_S \<le> length mb"
    using assms(9) by (auto simp: sound_def layer_wf_def layer_ok_def)
  have t: "tree w1 (comps fmap) = Some (File mb)" using grown_old [OF assms(6,8)] assms(10) by simp
  obtain fd j w2 where o: "sys_open fmap O_RDWR 0 w1 = (Inr fd, w2)" "calm w2"
      "tree w2 = (tree w1)(comps fmap \<mapsto> File (if has_flag O_RDWR O_TRUNC then [] else mb))" "lookup w2 (comps fmap) = Some j"
      "get_fd w2 = (get_fd w1)(fd \<mapsto> \<lparr>of_ino = j, of_flags = O_RDWR, of_pos = 0\<rparr>)" "get_fd w1 fd = None"
      "os.more w2 = os.more w1" "lookup w2 = lookup w1"
    by (rule open_file [OF assms(4) t, of O_RDWR 0]) (simp add: has_flag_def)
  have t2: "tree w2 = tree w1" using o(3) t by (simp add: has_flag_def fun_upd_idem)
  have v: "fd_view w2 fd = Some (j, O_RDWR)" using o(5) by (simp add: fd_view_def)
  have fl: "readable O_RDWR" "writable O_RDWR" "\<not> has_flag O_RDWR O_APPEND"
    by (simp_all add: readable_def writable_def has_flag_def)
  let ?m = "m\<lparr>mapfd := fd, mapheader := map_header mb\<rparr>"
  have ld: "mfd_load_mapheader h fd w2 = ((Inr (), map_header mb), w2)" for h
    by (rule load_calm [OF o(2) v fl(1) o(4) _ h(2,1)]) (use t t2 in simp)
  have mo: "os.more w2 = os.more (locked lb w)" using o(7) assms(5) by (rule trans)
  have "map_open ?m S cs w2" using v fl o(4) t t2 assms(10) by (auto simp: map_open_def)
  moreover have "adds (mapfd ?m) (get_fd w) (get_fd w2)"
    using o(5,6) assms(7) fd_view_nonneg [OF v] by (auto simp: adds_def)
  moreover have "grown (tree w) (tree w2) S R cs" using assms(6) t2 by simp
  ultimately obtain x w' where x: "mfd_open_dat_file ?m (sub_path [] cs) (w2\<lparr>mflocks := table0\<rparr>) = ((Inr (), ?m\<lparr>datfd := x\<rparr>), w')"
      "open_result S R cs ?m w (Inr ()) (?m\<lparr>datfd := x\<rparr>) w'"
    using open_tail [OF assms(1-3) o(2) mo, of ?m] h(1) stays_trans [OF assms(11) stays_lookup [OF o(8)]] by auto
  have "mflocks w = table0" using assms(1) by (simp add: latest_def)
  note u = more_locks(2) [OF mo this]
  have "mfd_open_old m (sub_path [] cs) fmap 0 w1 = Some ((Inr (), ?m\<lparr>datfd := x\<rparr>), w')"
    using o(1) ld u x(1) by (simp add: mfd_open_old_def mfd_open_end_def Let_def)
  with open_result_handle [OF x(2)] show ?thesis by blast
qed

lemma drop_new_map:
  fixes w1 w2 :: world
  assumes "calm w2" and "get_fd w2 = (get_fd w1)(fd \<mapsto> f)" and "get_fd w1 fd = None"
    and "tree w2 = (tree w1)(comps p \<mapsto> File [])" and "tree w1 (comps p) = None"
  obtains w3 w4 where "sys_close fd w2 = (Inr (), w3)" and "sys_unlink p w3 = (Inr (), w4)" and "calm w4"
    and "tree w4 = tree w1" and "get_fd w4 = get_fd w1" and "os.more w4 = os.more w2"
    and "\<forall>k. k \<noteq> comps p \<longrightarrow> lookup w4 k = lookup w2 k"
proof -
  have "get_fd w2 fd = Some f" using assms(2) by simp
  then obtain w3 where w3: "sys_close fd w2 = (Inr (), w3)" "calm w3" "tree w3 = tree w2"
      "get_fd w3 = (get_fd w2)(fd := None)" "os.more w3 = os.more w2" "lookup w3 = lookup w2"
    by (rule close_calm [OF assms(1)])
  have "tree w3 (comps p) = Some (File [])" using w3(3) assms(4) by simp
  then obtain w4 where w4: "sys_unlink p w3 = (Inr (), w4)" "calm w4" "tree w4 = (tree w3)(comps p := None)" "rest w4 = rest w3"
      "\<forall>k. k \<noteq> comps p \<longrightarrow> lookup w4 k = lookup w3 k"
    by (rule unlink_file [OF w3(2)])
  have "tree w4 = tree w1" using w4(3) w3(3) assms(4,5) by auto
  moreover have "get_fd w4 = get_fd w1" using rest_fields [OF w4(4)] w3(4) assms(2,3) by auto
  ultimately show ?thesis using that w3(1,5,6) w4(1,2,5) rest_fields [OF w4(4)] by simp
qed

lemma open_new_calm:
  assumes "latest w S R" and "good_path cs" and "sn_lat_dir_len w + length (sub_path [] cs) + EXT_LEN < PATH_MAX"
    and "calm w1" and "os.more w1 = os.more (locked lb w)" and "grown (tree w) (tree w1) S R cs"
    and "get_fd w1 = get_fd w" and "tree w1 (comps fmap) = None" and "comps fmap = S @ map_key cs"
    and "calm w2" and "tree w2 = (tree w1)(comps fmap \<mapsto> File [])" and "lookup w2 (comps fmap) = Some j"
    and "get_fd w2 = (get_fd w1)(fd \<mapsto> \<lparr>of_ino = j, of_flags = fl, of_pos = 0\<rparr>)" and "get_fd w1 fd = None"
    and "os.more w2 = os.more w1" and "comps fpath = R @ cs" and "st_size (mh_fstat (mapheader m)) < 2 ^ 64"
    and "readable fl" and "writable fl" and "\<not> has_flag fl O_APPEND"
    and "stays w w1" and "lookup w2 = (lookup w1)(comps fmap \<mapsto> j)"
  shows "\<exists>r m' w'. mfd_open_new m (sub_path [] cs) fpath fmap fd 0 w2 = Some ((r, m'), w') \<and> open_result S R cs m w r m' w'"
proof -
  obtain a where S: "S = R @ ''snapshots'' # a" using assms(1) by (auto simp: latest_def)
  have l0: "mflocks w = table0" using assms(1) by (simp add: latest_def)
  have v: "fd_view w2 fd = Some (j, fl)" using assms(13) by (simp add: fd_view_def)
  have "prefix S (comps fmap)" using assms(9) by simp
  moreover have "\<not> prefix S (comps fpath)" using not_below [OF assms(2)] unfolding S assms(16) .
  ultimately have ne: "comps fpath \<noteq> comps fmap" by auto
  have main: "file_of (tree w2 (comps fpath)) = main_at (tree w) R cs"
    using grown_main [OF assms(6) [unfolded S] assms(2)] ne assms(11,16) by (simp add: main_at_def)
  have mo: "os.more w2 = os.more (locked lb w)" using assms(15,5) by (rule trans)
  have "stays w1 w2" using assms(8,22) by (auto simp: stays_def)
  then have st: "stays w w2" by (rule stays_trans [OF assms(21)])
  let ?m = "m\<lparr>mapfd := fd\<rparr>"
  have hyp: "fd_view w2 (mapfd ?m) = Some (j, fl)" "tree w2 (comps fmap) = Some (File [])"
      "st_size (mh_fstat (mapheader ?m)) < 2 ^ 64"
    using v assms(11,17) by simp_all
  from assms(10) hyp(1) assms(19,20,12) hyp(2) ne hyp(3) show ?thesis
  proof (cases rule: new_header_calm)
    case (error e m')
    obtain w3 w4 where w: "sys_close fd w2 = (Inr (), w3)" "sys_unlink fmap w3 = (Inr (), w4)" "calm w4"
        "tree w4 = tree w1" "get_fd w4 = get_fd w1" "os.more w4 = os.more w2"
        "\<forall>k. k \<noteq> comps fmap \<longrightarrow> lookup w4 k = lookup w2 k"
      by (rule drop_new_map [OF assms(10,13,14,11,8)])
    have m4: "os.more w4 = os.more (locked lb w)" using w(6) mo by (rule trans)
    note u = more_locks [OF m4 l0]
    have r: "mfd_open_new m (sub_path [] cs) fpath fmap fd 0 w2 = Some ((Inl e, m'), w4\<lparr>mflocks := table0\<rparr>)"
      using error(1) w(1,2) u(2) by (simp add: mfd_open_new_def mfd_open_end_def)
    have "stays w1 w4" unfolding stays_def using w(7) assms(8,22) by (metis fun_upd_other)
    then have "stays w (w4\<lparr>mflocks := table0\<rparr>)"
      by (rule stays_trans [OF assms(21) stays_trans [OF _ stays_lookup [OF lookup_locks]]])
    moreover have "tree w (S @ map_key cs) = None" using grown_old [OF assms(6)] assms(8,9) by (cases "tree w (S @ map_key cs)") auto
    ultimately have "open_result S R cs m w (Inl e) m' (w4\<lparr>mflocks := table0\<rparr>)"
      using u(1) w(3-5) assms(6-9) error(2) main by (simp add: open_result_def get_fd_locks)
    then show ?thesis using r by blast
  next
    case (header h w3)
    let ?n = "m\<lparr>mapfd := fd, mapheader := h\<rparr>"
    have nm: "new_map (main_at (tree w) R cs) h" using header(2) main by simp
    have m3: "os.more w3 = os.more (locked lb w)" using header(6) mo by (rule trans)
    have h: "map_header (mapheader_bytes h) = h" "header_ok h" using nm by (simp_all add: new_map_def map_header_bytes)
    have "tree w3 = (tree w1)(S @ map_key cs \<mapsto> File (mapheader_bytes h))" using header(4) assms(9,11) by simp
    then have "grown (tree w) (tree w3) S R cs" using grown_map [OF assms(6) _ nm] assms(8,9) by simp
    moreover have "map_open ?n S cs w3"
      using v assms(9,12,18-20) header(4,5,7) h(1) by (auto simp: map_open_def fd_view_def)
    moreover have "adds (mapfd ?n) (get_fd w) (get_fd w3)"
      using header(5) assms(7,13,14) fd_view_nonneg [OF v] by (auto simp: adds_def)
    ultimately obtain x w' where x: "mfd_open_dat_file ?n (sub_path [] cs) (w3\<lparr>mflocks := table0\<rparr>) = ((Inr (), ?n\<lparr>datfd := x\<rparr>), w')"
        "open_result S R cs ?n w (Inr ()) (?n\<lparr>datfd := x\<rparr>) w'"
      using open_tail [OF assms(1-3) header(3) m3, of ?n] h(2) stays_trans [OF st stays_lookup [OF header(7)]] by auto
    have "mfd_open_new m (sub_path [] cs) fpath fmap fd 0 w2 = Some ((Inr (), ?n\<lparr>datfd := x\<rparr>), w')"
      using header(1) more_locks(2) [OF m3 l0] x(1) by (simp add: mfd_open_new_def mfd_open_end_def)
    with open_result_handle [OF x(2)] show ?thesis by blast
  qed
qed

lemma open_result_paired:
  assumes "open_result S R cs m w r m' w'" and "paired (tree w) S cs"
  shows "paired (tree w') S cs"
proof (cases r)
  case (Inl e)
  then have g: "grown (tree w) (tree w') S R cs" "tree w' (S @ map_key cs) = tree w (S @ map_key cs)"
    using assms(1) by (simp_all add: open_result_def)
  have "file_of (tree w' (S @ dat_key cs)) \<noteq> None" if "file_of (tree w (S @ dat_key cs)) \<noteq> None"
    using that grown_old [OF g(1)] by (cases "tree w (S @ dat_key cs)") (simp_all add: file_of_def)
  then show ?thesis using assms(2) g(2) by (auto simp: paired_def)
next
  case (Inr u)
  then have "map_open m' S cs w'" "dat_open m' S cs w'" using assms(1) by (simp_all add: open_result_def)
  then show ?thesis by (auto simp: paired_def map_open_def dat_open_def file_of_def layer_size_def split: if_splits)
qed

section \<open>Opening the snapshot part\<close>

definition fresh :: "mfd \<Rightarrow> string list \<Rightarrow> string \<Rightarrow> world \<Rightarrow> mfd" where
  "fresh m cs fpath w = m\<lparr>mfd_sn_number := sn_number w, is_main := Mfd_main, mfd_locklabel := string2locklabel fpath,
     latest_written_block_cache := 0, vpath := sub_path [] cs\<rparr>"

lemma open_locked_calm:
  assumes "latest w S R" and "good_path cs" and "sn_lat_dir_len w + length (sub_path [] cs) + EXT_LEN < PATH_MAX"
    and "calm w1" and "os.more w1 = os.more (locked lb w)" and "tree w1 = with_dirs (S @ butlast cs) (tree w)"
    and "get_fd w1 = get_fd w" and "sound (bl_slog w) (tree w) S R cs" and "comps fmap = S @ map_key cs"
    and "comps fpath = R @ cs" and "st_size (mh_fstat (mapheader m)) < 2 ^ 64" and "stays w w1"
  shows "\<exists>r m' w'. mfd_open_locked m (sub_path [] cs) fpath fmap 0 w1 = Some ((r, m'), w') \<and> open_result S R cs m w r m' w'"
proof -
  let ?fl = "O_RDWR OR O_CREAT OR O_EXCL OR O_NOATIME :: oflags"
  have l: "calm w" "tree w S = Some Dir" "shape (tree w) S" using assms(1) by (simp_all add: latest_def)
  have g: "grown (tree w) (tree w1) S R cs"
    unfolding assms(6) by (rule grown_dirs) (use l in \<open>simp_all add: calm_def\<close>)
  have fl: "has_flag ?fl O_CREAT" "has_flag ?fl O_EXCL" "readable ?fl" "writable ?fl" "\<not> has_flag ?fl O_APPEND"
    by (simp_all add: has_flag_def readable_def writable_def)
  have nk: "\<not> prefix (S @ map_key cs) (S @ butlast cs)" using key_not_dir(1) [OF assms(2,2)] by simp
  then have t: "tree w1 (comps fmap) = tree w (S @ map_key cs)" using assms(6,9) by (simp add: with_dirs_def)
  show ?thesis
  proof (cases "tree w (S @ map_key cs)")
    case (Some n)
    then obtain mb where mb: "tree w (S @ map_key cs) = Some (File mb)"
      using grown_no_dir(1) [OF grown_refl l(3) assms(2)] by (cases n) auto
    have "sys_open fmap ?fl S_IRWXU w1 = (Inl EEXIST, w1)" using open_excl [OF assms(4) _ fl(1,2)] t Some by simp
    then show ?thesis
      using open_old_calm [OF assms(1-5) g assms(7) mb assms(8,9,12), of m] by (auto simp: mfd_open_locked_def)
  next
    case None
    have "tree w1 (S @ butlast cs) = Some Dir"
    proof (cases "tree w (S @ butlast cs)")
      case (Some n)
      moreover have "n \<noteq> File bs" for bs
      proof
        assume "n = File bs"
        then have "butlast cs \<noteq> [] \<and> \<not> plain (last (butlast cs))" using Some l(3) by (auto simp: shape_def)
        then show False using assms(2) by (auto simp: good_path_def list_all_iff)
      qed
      ultimately have "tree w (S @ butlast cs) = Some Dir" by (metis node.exhaust)
      then show ?thesis using assms(6) by (simp add: with_dirs_def)
    qed (simp add: assms(6) with_dirs_def)
    then have p: "tree w1 (butlast (comps fmap)) = Some Dir" using assms(9) key_parent(1) [of S cs] by simp
    have n: "tree w1 (comps fmap) = None" using t None by simp
    obtain fd j w2 where w2: "sys_open fmap ?fl S_IRWXU w1 = (Inr fd, w2)" "calm w2"
        "tree w2 = (tree w1)(comps fmap \<mapsto> File [])" "lookup w2 (comps fmap) = Some j"
        "get_fd w2 = (get_fd w1)(fd \<mapsto> \<lparr>of_ino = j, of_flags = ?fl, of_pos = 0\<rparr>)"
        "get_fd w1 fd = None" "os.more w2 = os.more w1" "lookup w2 = (lookup w1)(comps fmap \<mapsto> j)"
      by (rule open_new [OF assms(4) n p fl(1), of S_IRWXU])
    then show ?thesis
      using open_new_calm [OF assms(1-5) g assms(7) n assms(9) w2(2-7) assms(10,11) fl(3-5) assms(12) w2(8)]
      by (simp add: mfd_open_locked_def)
  qed
qed

lemma open_sn_calm:
  assumes "latest w S R" and "good_path cs" and "sound (bl_slog w) (tree w) S R cs"
    and "(case fp of None \<Rightarrow> map_path (sub_path [] cs) w | Some f \<Rightarrow> Inr f) = Inr fpath" and "comps fpath = R @ cs"
    and "st_size (mh_fstat (mapheader m)) < 2 ^ 64" and "length (sub_path [] cs) < 2 ^ 64"
  shows "\<exists>r m' w'. mfd_open_sn m (sub_path [] cs) fp w = Some ((r, m'), w') \<and> open_result S R cs (fresh m cs fpath w) w r m' w'"
proof -
  have l: "calm w" "sn_is_any w" "sn_lat_dir_len w = length (sn_lat_dir w)" "sn_lat_dir w \<noteq> []" "comps (sn_lat_dir w) = S"
      "tree w S = Some Dir" "shape (tree w) S" "mflocks w = table0" "sn_lat_dir_len w + EXT_LEN \<le> PATH_MAX"
    using assms(1) by (simp_all add: latest_def)
  let ?m = "fresh m cs fpath w" and ?k = "sub_path (sn_lat_dir w) (map_key cs)"
  show ?thesis
  proof (cases "sn_lat_dir_len w + length (sub_path [] cs) + EXT_LEN < PATH_MAX")
    case False
    then have "get_map_prefix_path (sub_path [] cs) (sn_lat_dir w) (sn_lat_dir_len w) = Inl ENAMETOOLONG"
      using layer_paths_long [of "sn_lat_dir_len w"] l(9) assms(7) by simp
    then have "mfd_open_sn m (sub_path [] cs) fp w = Some ((Inl ENAMETOOLONG, ?m), w)"
      using assms(4) l(2) by (simp add: mfd_open_sn_def fresh_def)
    then show ?thesis using l(1) grown_refl stays_refl by (auto simp: open_result_def)
  next
    case True
    note p = layer_paths [OF assms(2) l(3) True]
    have "list_all good_name (butlast cs)" "good_name (last cs @ EXT_MAP)"
      using good_keys(1) [OF assms(2)] by (simp_all add: map_key_def)
    moreover have "tree w (comps (sn_lat_dir w)) = Some Dir" using l(5,6) by simp
    moreover have "\<forall>ds bs. prefix ds (butlast cs) \<longrightarrow> tree w (comps (sn_lat_dir w) @ ds) \<noteq> Some (File bs)"
      unfolding l(5)
    proof (intro allI impI notI)
      fix ds bs assume d: "prefix ds (butlast cs)" "tree w (S @ ds) = Some (File bs)"
      then have "ds \<noteq> []" "\<not> plain (last ds)" using l(7) by (auto simp: shape_def)
      moreover have "list_all plain ds" using d(1) assms(2) by (auto simp: good_path_def prefix_def)
      ultimately show False by (simp add: list_all_iff)
    qed
    ultimately obtain r w1 where w1: "mkpath ?k None S_IRWXU w = ((Inr r, None), w1)" "calm w1" "rest w1 = rest w"
        "tree w1 = with_dirs (S @ butlast cs) (tree w)" "\<forall>k. tree w k \<noteq> None \<longrightarrow> lookup w1 k = lookup w k"
      using mkpath_calm [OF l(1) _ l(4), of "butlast cs" "last cs @ EXT_MAP" S_IRWXU] l(5) by (auto simp: map_key_def)
    note f = rest_fields [OF w1(3)]
    let ?lb = "mfd_locklabel ?m" and ?w = "w1\<lparr>mflocks := taken (mfd_locklabel ?m) (self w)\<rparr>"
    have lk: "mflock_lock ?lb w1 = Some (Inr 0, ?w)"
      using more_fields(8,9) [of w1 w] f l(8) by (simp add: mflock_lock_def lock_idle)
    have "calm ?w" "tree ?w = with_dirs (S @ butlast cs) (tree w)" "get_fd ?w = get_fd w"
      using w1(2,4) f by (simp_all add: get_fd_locks)
    moreover have "os.more ?w = os.more (locked ?lb w)" using f by (cases w; cases w1) simp
    moreover have "stays w ?w" using w1(5) by (simp add: stays_def)
    ultimately have "\<exists>r m' w'. mfd_open_locked ?m (sub_path [] cs) fpath ?k 0 ?w = Some ((r, m'), w') \<and> open_result S R cs ?m w r m' w'"
      by (intro open_locked_calm [OF assms(1,2) True]) (use assms(3,5,6) p(3) l(5) in \<open>simp_all add: fresh_def\<close>)
    moreover have "mfd_open_sn m (sub_path [] cs) fp w = mfd_open_locked ?m (sub_path [] cs) fpath ?k 0 ?w"
      using assms(4) l(2) p(1) w1(1) lk by (simp add: mfd_open_sn_def fresh_def)
    ultimately show ?thesis by simp
  qed
qed

end
