(* ===== verification/Sessions.thy ===== *)
theory Sessions
  imports Opening
begin

text \<open>
  Sessions on a file of the main space, from \<open>open\<close> to \<open>release\<close>, on a disk without faults. \<open>settled\<close>
  is the invariant of the latest snapshot between sessions; \<open>evolves\<close> says of two states that the
  invariant holds in the second and that the latest snapshot, with the main space below it, shows the
  same in both.
\<close>

section \<open>Definitions\<close>

definition settled :: "string list \<Rightarrow> string list \<Rightarrow> world \<Rightarrow> bool" where
  "settled S R w \<longleftrightarrow> latest w S R \<and> length (block_buffer w) = BL_S w
     \<and> comps (rootdir w) = R \<and> rootdir_len w = length (rootdir w)
     \<and> (\<forall>cs. good_path cs \<longrightarrow> sound (bl_slog w) (tree w) S R cs)"

definition fields :: "world \<Rightarrow> string \<times> nat \<times> string \<times> nat \<times> string \<times> nat \<times> bool \<times> tid \<times> nat" where
  "fields w = (rootdir w, rootdir_len w, sn_dir w, sn_number w, sn_lat_dir w, sn_lat_dir_len w, sn_is_any w, self w,
     bl_slog w)"

definition shown :: "string list \<Rightarrow> string list \<Rightarrow> world \<Rightarrow> string list \<Rightarrow> byte list option" where
  "shown S R w cs = layer_view (bl_slog w) (layer_at (tree w) S cs) (main_at (tree w) R cs)"

definition evolves :: "string list \<Rightarrow> string list \<Rightarrow> world \<Rightarrow> world \<Rightarrow> bool" where
  "evolves S R w w' \<longleftrightarrow> settled S R w' \<and> fields w' = fields w
     \<and> (\<forall>cs. good_path cs \<longrightarrow> shown S R w' cs = shown S R w cs)
     \<and> (\<forall>x. prefix (R @ [''snapshots'']) x \<and> \<not> prefix S x \<longrightarrow> tree w' x = tree w x)"

section \<open>Changes that show nothing\<close>

lemma field_eqs:
  assumes "fields w' = fields w"
  shows "rootdir w' = rootdir w" "rootdir_len w' = rootdir_len w" "sn_dir w' = sn_dir w" "sn_number w' = sn_number w"
    "sn_lat_dir w' = sn_lat_dir w" "sn_lat_dir_len w' = sn_lat_dir_len w" "sn_is_any w' = sn_is_any w"
    "self w' = self w" "bl_slog w' = bl_slog w"
  using assms by (simp_all add: fields_def)

lemma fields_more: "os.more w' = os.more w \<Longrightarrow> fields w' = fields w"
  using more_fields [of w' w] by (simp add: fields_def)

lemma fields_frame: "frame A w w' \<Longrightarrow> fields w' = fields w"
  by (simp add: fields_def frame_def)

lemma evolves_refl: "settled S R w \<Longrightarrow> evolves S R w w"
  by (simp add: evolves_def)

lemma evolves_trans: "evolves S R w w1 \<Longrightarrow> evolves S R w1 w2 \<Longrightarrow> evolves S R w w2"
  by (simp add: evolves_def)

lemma evolves_same_fields: "evolves S R w w' \<Longrightarrow> fields w' = fields w"
  by (simp add: evolves_def)

lemmas evolves_fields = field_eqs [OF evolves_same_fields]

lemma settled_root: "settled S R w \<Longrightarrow> \<exists>a. S = R @ ''snapshots'' # a"
  by (simp add: settled_def latest_def)

lemma latest_fields:
  assumes "latest w S R" and "fields w' = fields w" and "calm w'" and "mflocks w' = table0"
    and "tree w' S = Some Dir" and "shape (tree w') S"
  shows "latest w' S R"
  using assms field_eqs [OF assms(2)] by (simp add: latest_def)

lemma evolves_more:
  assumes "settled S R w" and "calm w'" and "os.more w' = os.more w" and "tree w' = tree w"
  shows "evolves S R w w'"
proof -
  note f = more_fields [OF assms(3)]
  have "latest w' S R"
    by (rule latest_fields [OF _ fields_more [OF assms(3)]]) (use assms f in \<open>auto simp: settled_def latest_def\<close>)
  then show ?thesis
    using assms f fields_more [OF assms(3)] by (simp add: evolves_def settled_def shown_def BL_S_def)
qed

lemma evolves_open:
  assumes "settled S R w" and "good_path cs" and "open_result S R cs m w r m' w'"
  shows "evolves S R w w'"
proof -
  obtain a where S: "S = R @ ''snapshots'' # a" using settled_root [OF assms(1)] by blast
  have o: "calm w'" "os.more w' = os.more w" "grown (tree w) (tree w') S R cs"
    using assms(3) by (simp_all add: open_result_def)
  note f = more_fields [OF o(2)]
  have l: "latest w S R" using assms(1) by (simp add: settled_def)
  then have "tree w S = Some Dir" "shape (tree w) S" "mflocks w = table0" by (simp_all add: latest_def)
  then have "latest w' S R"
    using latest_fields [OF l fields_more [OF o(2)] o(1)] grown_old [OF o(3)] grown_shape [OF o(3) assms(2)] f(8) by simp
  moreover have "paired (tree w) S cs" using assms(1,2) by (simp add: settled_def sound_def)
  from open_result_paired [OF assms(3) this]
  have "sound (bl_slog w') (tree w') S R c" "shown S R w' c = shown S R w c" if "good_path c" for c
    using grown_sound [OF o(3) [unfolded S] assms(2) that] grown_view [OF o(3) [unfolded S] assms(2) that]
      assms(1) that f(10) by (simp_all add: settled_def shown_def S)
  ultimately show ?thesis
    using assms(1) fields_more [OF o(2)] f(2,3,10,11) grown_outside [OF o(3)]
    by (simp add: evolves_def settled_def BL_S_def)
qed

text \<open>New contents of a file and its layer, or the removal of the file.\<close>

lemma evolves_content:
  assumes "settled S R w" and cs: "good_path cs" and "calm w'" and "mflocks w' = table0" and "fields w' = fields w"
    and "length (block_buffer w') = BL_S w'"
    and same: "\<And>x. x \<noteq> R @ cs \<Longrightarrow> x \<noteq> S @ map_key cs \<Longrightarrow> x \<noteq> S @ dat_key cs \<Longrightarrow> tree w' x = tree w x"
    and kind: "\<And>x. x = S @ map_key cs \<or> x = S @ dat_key cs \<Longrightarrow>
      tree w' x = tree w x \<or> (\<exists>a b. tree w x = Some (File a) \<and> tree w' x = Some (File b))"
    and "sound (bl_slog w) (tree w') S R cs" and "shown S R w' cs = shown S R w cs"
  shows "evolves S R w w'"
proof -
  obtain a where S: "S = R @ ''snapshots'' # a" using settled_root [OF assms(1)] by blast
  have below: "R @ cs \<noteq> S @ x" for x using not_below [OF cs, of R a] unfolding S by (metis prefixI)
  have l: "latest w S R" "shape (tree w) S" "tree w S = Some Dir" using assms(1) by (simp_all add: settled_def latest_def)
  have k: "tree w' (S @ x) = tree w (S @ x) \<or> (\<exists>a b. tree w (S @ x) = Some (File a) \<and> tree w' (S @ x) = Some (File b))" for x
    using same [of "S @ x"] kind [of "S @ x"] below [of x] by metis
  have sh: "shape (tree w') S"
    unfolding shape_def
  proof (intro conjI allI impI)
    show "list_all plain ds" if "tree w' (S @ ds) = Some Dir" for ds
      using k [of ds] that l(2) by (auto simp: shape_def)
    fix ds bs assume "tree w' (S @ ds) = Some (File bs)"
    then obtain b where "tree w (S @ ds) = Some (File b)" using k [of ds] by metis
    then show "ds \<noteq> []" "\<not> plain (last ds)" using l(2) unfolding shape_def by blast+
  qed
  have "tree w' S = Some Dir" using k [of "[]"] l(3) by auto
  then have lat: "latest w' S R" by (rule latest_fields [OF l(1) assms(5,3,4) _ sh])
  have other: "layer_at (tree w') S c = layer_at (tree w) S c" "main_at (tree w') R c = main_at (tree w) R c"
      "paired (tree w') S c = paired (tree w) S c"
    if c: "good_path c" "c \<noteq> cs" for c
  proof -
    have "R @ c \<noteq> S @ x" for x using not_below [OF c(1), of R a] unfolding S by (metis prefixI)
    then show "main_at (tree w') R c = main_at (tree w) R c" using same [of "R @ c"] c(2) by (simp add: main_at_def)
    show "layer_at (tree w') S c = layer_at (tree w) S c" "paired (tree w') S c = paired (tree w) S c"
      using same [of "S @ map_key c"] same [of "S @ dat_key c"] key_inj [OF c(1) cs] key_inj(3) [OF cs c(1)] c(2)
        below [of "map_key c"] below [of "dat_key c"] by (simp_all add: layer_at_def paired_def)
  qed
  have b: "bl_slog w' = bl_slog w" using field_eqs [OF assms(5)] by simp
  have snd: "sound (bl_slog w') (tree w') S R c" if "good_path c" for c
  proof (cases "c = cs")
    case False
    then show ?thesis using other [OF that False] assms(1) that b by (simp add: settled_def sound_def)
  qed (use assms(9) b in simp)
  have "shown S R w' c = shown S R w c" if "good_path c" for c
    using assms(10) other [OF that] b by (cases "c = cs") (simp_all add: shown_def)
  moreover have "tree w' x = tree w x" if "prefix (R @ [''snapshots'']) x" "\<not> prefix S x" for x
  proof -
    have "x \<noteq> R @ cs" using not_below [OF cs, of R "[]"] that(1) by auto
    moreover have "x \<noteq> S @ map_key cs" "x \<noteq> S @ dat_key cs" using that(2) by auto
    ultimately show ?thesis by (rule same)
  qed
  ultimately show ?thesis
    using lat snd assms(1,5,6) field_eqs(1,2) [OF assms(5)] by (simp add: evolves_def settled_def)
qed

section \<open>Opening the main file\<close>

definition edit_flags :: "oflags \<Rightarrow> bool" where
  "edit_flags fl \<longleftrightarrow> fl AND O_ACCMODE \<noteq> O_RDONLY \<and> \<not> has_flag fl O_CREAT \<and> \<not> has_flag fl O_TRUNC"

text \<open>A handle on the file \<open>cs\<close> that is up to date.\<close>

definition attached :: "mfd \<Rightarrow> string list \<Rightarrow> string list \<Rightarrow> string list \<Rightarrow> world \<Rightarrow> bool" where
  "attached m cs S R w \<longleftrightarrow> is_main m = Mfd_main \<and> mfd_sn_number m = sn_number w \<and> latest_written_block_cache m = 0
     \<and> mfd_locklabel m \<noteq> 0 \<and> map_open m S cs w \<and> dat_open m S cs w \<and> header_ok (mapheader m)
     \<and> (\<exists>i fl bs. fd_view w (mainfd m) = Some (i, fl) \<and> lookup w (R @ cs) = Some i
          \<and> tree w (R @ cs) = Some (File bs))
     \<and> mainfd m \<noteq> mapfd m \<and> mainfd m \<noteq> datfd m \<and> mapfd m \<noteq> datfd m"

text \<open>The layer keeps its header.\<close>

definition same_header :: "string list \<Rightarrow> string list \<Rightarrow> world \<Rightarrow> world \<Rightarrow> bool" where
  "same_header S cs w w' \<longleftrightarrow>
     (\<forall>mb. tree w (S @ map_key cs) = Some (File mb) \<longrightarrow>
        (\<exists>mb'. tree w' (S @ map_key cs) = Some (File mb') \<and> map_header mb' = map_header mb)) \<and>
     (\<forall>db. tree w (S @ dat_key cs) = Some (File db) \<longrightarrow> (\<exists>db'. tree w' (S @ dat_key cs) = Some (File db')))"

text \<open>The descriptors without those of the handle.\<close>

definition detached :: "mfd \<Rightarrow> world \<Rightarrow> int \<Rightarrow> (nat \<times> oflags) option" where
  "detached m w = (fd_view w)(datfd m := None, mapfd m := None, mainfd m := None)"

lemma rdwr_flags_other:
  assumes "f AND 3 = 0"
  shows "has_flag (rdwr_flags fl) f = has_flag fl f"
proof -
  have b: "\<not> (bit f n \<and> bit (3 :: oflags) n)" for n using assms by (metis bit_and_iff bit_0_eq bot_apply bot_bool_def)
  have two: "bit (2 :: oflags) n \<Longrightarrow> bit (3 :: oflags) n" for n
    using bit_and_iff [of "2 :: oflags" 3 n] by simp
  have "((((fl OR 3) XOR 3) OR 2) AND f) = fl AND f"
    by (rule bit_word_eqI) (use b two in \<open>auto simp: bit_and_iff bit_or_iff bit_xor_iff\<close>)
  then show ?thesis by (simp add: rdwr_flags_def has_flag_def)
qed

lemma rdwr_flags_modes:
  shows "readable (rdwr_flags fl)" and "fl AND 3 \<noteq> 0 \<Longrightarrow> writable (rdwr_flags fl)"
proof -
  have z: "((fl OR F) XOR F) AND F = 0" for F :: oflags
    by (rule bit_word_eqI) (auto simp: bit_and_iff bit_or_iff bit_xor_iff)
  have "(((fl OR 3) XOR 3) OR 2) AND 3 = (((fl OR 3) XOR 3) AND 3) OR (2 AND 3 :: oflags)"
    by (rule bit.conj_disj_distrib2)
  then have "(((fl OR 3) XOR 3) OR 2) AND 3 = (2 :: oflags)" using z [of 3] by simp
  then show "readable (rdwr_flags fl)" "fl AND 3 \<noteq> 0 \<Longrightarrow> writable (rdwr_flags fl)"
    by (simp_all add: rdwr_flags_def readable_def writable_def)
qed

lemma open_existing:
  fixes w :: world
  assumes "calm w" and "\<not> has_flag fl O_CREAT" and "\<not> has_flag fl O_TRUNC" and "writable fl \<or> tree w (comps p) \<noteq> Some Dir"
  obtains (error) e where "sys_open p fl md w = (Inl e, w)" and "file_of (tree w (comps p)) = None"
  | (found) fd i bs w' where "sys_open p fl md w = (Inr fd, w')" and "calm w'" and "tree w' = tree w"
    and "tree w (comps p) = Some (File bs)" and "lookup w (comps p) = Some i"
    and "get_fd w' = (get_fd w)(fd \<mapsto> \<lparr>of_ino = i, of_flags = fl, of_pos = 0\<rparr>)"
    and "get_fd w fd = None" and "os.more w' = os.more w" and "lookup w' = lookup w"
proof (cases "file_of (tree w (comps p))")
  case None
  have "\<exists>e. sys_open p fl md w = (Inl e, w)"
  proof (cases "tree w (comps p)")
    case None
    then have "resolve w (comps p) \<noteq> Inr i" for i using assms(1) by (simp add: resolve_Inr calm_def tree_None)
    then show ?thesis using assms(1,2) by (auto simp: sys_open_def pop_calm Let_def split: sum.splits)
  next
    case (Some n)
    then have "n = Dir" using None by (cases n) (auto simp: file_of_def)
    then obtain i where "lookup w (comps p) = Some i" "is_dir w i" using Some by (auto simp: tree_Dir)
    then have "resolve w (comps p) = Inr i" using assms(1) by (simp add: resolve_Inr calm_def)
    then show ?thesis
      using assms(1,2,4) Some \<open>n = Dir\<close> \<open>is_dir w i\<close> by (simp add: sys_open_def pop_calm Let_def)
  qed
  then show ?thesis using error None by blast
next
  case (Some bs)
  then have t: "tree w (comps p) = Some (File bs)" by (auto simp: file_of_def split: option.splits node.splits)
  obtain fd i w' where o: "sys_open p fl md w = (Inr fd, w')" "calm w'"
      "tree w' = (tree w)(comps p \<mapsto> File (if has_flag fl O_TRUNC then [] else bs))" "lookup w' (comps p) = Some i"
      "get_fd w' = (get_fd w)(fd \<mapsto> \<lparr>of_ino = i, of_flags = fl, of_pos = 0\<rparr>)" "get_fd w fd = None"
      "os.more w' = os.more w" "lookup w' = lookup w"
    by (rule open_file [OF assms(1) t, of fl md]) (use assms(2) in simp)
  have "tree w' = tree w" using o(3) t assms(3) by (simp add: fun_upd_idem)
  then show ?thesis using found [OF o(1,2) _ t _ o(5,6,7,8)] o(4,8) by simp
qed

lemma close_quiet:
  fixes w :: world
  assumes "calm w"
  obtains r w' where "sys_close fd w = (r, w')" and "calm w'" and "tree w' = tree w" and "os.more w' = os.more w"
    and "get_fd w' = (get_fd w)(fd := None)" and "get_fd w fd \<noteq> None \<longrightarrow> r = Inr ()" and "lookup w' = lookup w"
proof (cases "get_fd w fd")
  case None
  then have "sys_close fd w = (Inl EBADF, w)" using assms by (simp add: sys_close_def pop_calm)
  then show ?thesis using that assms None by (simp add: fun_upd_idem)
next
  case (Some f)
  then show ?thesis by (rule close_calm [OF assms]) (use that in simp)
qed

lemma close_if_quiet:
  fixes w :: world
  assumes "calm w"
  obtains r w' where "close_if fd e w = (r, w')" and "calm w'" and "tree w' = tree w" and "os.more w' = os.more w"
    and "get_fd w' = (get_fd w)(fd := None)" and "fd < 0 \<or> get_fd w fd \<noteq> None \<longrightarrow> r = e" and "lookup w' = lookup w"
proof (cases "0 \<le> fd")
  case True
  obtain r w' where "sys_close fd w = (r, w')" "calm w'" "tree w' = tree w" "os.more w' = os.more w"
      "get_fd w' = (get_fd w)(fd := None)" "get_fd w fd \<noteq> None \<longrightarrow> r = Inr ()" "lookup w' = lookup w"
    by (rule close_quiet [OF assms, of fd])
  then show ?thesis using that True by (cases r) (auto simp: close_if_def)
next
  case False
  then show ?thesis using that assms by (simp add: close_if_def get_fd_def fun_upd_idem)
qed

lemma close_sn_quiet:
  fixes w :: world
  assumes "calm w"
  obtains r w' where "mfd_close_sn m w = (r, w')" and "calm w'" and "tree w' = tree w" and "os.more w' = os.more w"
    and "get_fd w' = (get_fd w)(datfd m := None, mapfd m := None)"
    and "get_fd w (mapfd m) \<noteq> None \<and> (datfd m < 0 \<or> get_fd w (datfd m) \<noteq> None) \<and> mapfd m \<noteq> datfd m \<longrightarrow> r = Inr ()"
    and "lookup w' = lookup w"
proof -
  obtain r1 w1 where 1: "close_if (datfd m) (Inr ()) w = (r1, w1)" "calm w1" "tree w1 = tree w" "os.more w1 = os.more w"
      "get_fd w1 = (get_fd w)(datfd m := None)" "datfd m < 0 \<or> get_fd w (datfd m) \<noteq> None \<longrightarrow> r1 = Inr ()"
      "lookup w1 = lookup w"
    by (rule close_if_quiet [OF assms])
  obtain r2 w2 where 2: "close_if (mapfd m) r1 w1 = (r2, w2)" "calm w2" "tree w2 = tree w1" "os.more w2 = os.more w1"
      "get_fd w2 = (get_fd w1)(mapfd m := None)" "mapfd m < 0 \<or> get_fd w1 (mapfd m) \<noteq> None \<longrightarrow> r2 = r1"
      "lookup w2 = lookup w1"
    by (rule close_if_quiet [OF 1(2)])
  show ?thesis using that [of r2 w2] 1 2 by (auto simp: mfd_close_sn_def)
qed

lemma get_fd_neg: "fd < 0 \<Longrightarrow> get_fd w fd = None"
  by (simp add: get_fd_def)

lemma adds_remove: "adds fd g g' \<Longrightarrow> fd < 0 \<longrightarrow> g fd = None \<Longrightarrow> g'(fd := None) = g"
  by (auto simp: adds_def fun_upd_idem split: if_splits)

lemma opened_fds:
  assumes "open_result S R cs m w (Inr ()) m1 w1"
  shows "mapfd m1 \<noteq> datfd m1" and "(get_fd w1)(datfd m1 := None, mapfd m1 := None) = get_fd w"
proof -
  obtain g where g: "0 \<le> mapfd m1" "adds (mapfd m1) (get_fd w) g" "adds (datfd m1) g (get_fd w1)"
    using assms by (auto simp: open_result_def)
  show ne: "mapfd m1 \<noteq> datfd m1" using g by (auto simp: adds_def split: if_splits)
  have "datfd m1 < 0 \<longrightarrow> g (datfd m1) = None" using g(1,2) ne get_fd_neg [of "datfd m1" w] by (auto simp: adds_def)
  from adds_remove [OF g(3) this] adds_remove [OF g(2)] g(1)
  show "(get_fd w1)(datfd m1 := None, mapfd m1 := None) = get_fd w" by simp
qed

text \<open>The main file is opened after its snapshot part.\<close>

lemma same_header_tree: "tree w' = tree w \<Longrightarrow> same_header S cs w w'"
  by (simp add: same_header_def)

lemma attach_main:
  assumes o: "open_result S R cs (fresh m cs p w) w (Inr ()) m1 w1"
    and f: "fd_view w2 = (fd_view w1)(fd \<mapsto> (i, fl))" "fd_view w1 fd = None"
    and "lookup w2 (R @ cs) = Some i" and "tree w2 (R @ cs) = Some (File bs)" and "sn_number w2 = sn_number w1"
    and "stays w1 w2" and "same_header S cs w1 w2"
  shows "attached (m1\<lparr>mainfd := fd\<rparr>) cs S R w2" and "detached (m1\<lparr>mainfd := fd\<rparr>) w2 = fd_view w"
proof -
  have m: "map_open m1 S cs w1" "dat_open m1 S cs w1" "header_ok (mapheader m1)"
      "\<exists>h x y. m1 = (fresh m cs p w)\<lparr>mapheader := h, mapfd := x, datfd := y\<rparr>" "os.more w1 = os.more w"
    using o by (auto simp: open_result_def)
  have fd: "0 \<le> fd" using fd_view_nonneg [of w2 fd "(i, fl)"] f(1) by simp
  then have new: "fd \<noteq> mapfd m1" "fd \<noteq> datfd m1"
    using f m(1,2) by (auto simp: map_open_def dat_open_def split: if_splits)
  have "map_open (m1\<lparr>mainfd := fd\<rparr>) S cs w2"
  proof -
    obtain j fj mb where j: "fd_view w1 (mapfd m1) = Some (j, fj)" "readable fj" "writable fj" "\<not> has_flag fj O_APPEND"
        "lookup w1 (S @ map_key cs) = Some j" "tree w1 (S @ map_key cs) = Some (File mb)" "map_header mb = mapheader m1"
      using m(1) by (auto simp: map_open_def)
    moreover obtain mb' where "tree w2 (S @ map_key cs) = Some (File mb')" "map_header mb' = map_header mb"
      using assms(8) j(6) by (auto simp: same_header_def)
    ultimately show ?thesis using f(1) new(1) assms(7) by (simp add: map_open_def stays_def)
  qed
  moreover have "dat_open (m1\<lparr>mainfd := fd\<rparr>) S cs w2"
    using m(2) f(1) new(2) assms(7,8) by (auto simp: dat_open_def stays_def same_header_def split: if_splits)
  moreover have "mfd_sn_number m1 = sn_number w2" "latest_written_block_cache m1 = 0" "mfd_locklabel m1 \<noteq> 0"
      "is_main m1 = Mfd_main"
    using m(4) assms(6) more_fields(7) [OF m(5)] string2locklabel_nonzero by (auto simp: fresh_def)
  ultimately show "attached (m1\<lparr>mainfd := fd\<rparr>) cs S R w2"
    using assms(4,5) f(1) m(3) opened_fds(1) [OF o] new by (auto simp: attached_def)
  have "fd_view w = (fd_view w1)(datfd m1 := None, mapfd m1 := None)"
    using opened_fds(2) [OF o, symmetric] by (auto simp: fd_view_def fun_eq_iff)
  then show "detached (m1\<lparr>mainfd := fd\<rparr>) w2 = fd_view w" using f new by (auto simp: detached_def fun_eq_iff)
qed

lemma fd_view_add:
  assumes "get_fd w2 = (get_fd w1)(fd \<mapsto> \<lparr>of_ino = i, of_flags = fl, of_pos = 0\<rparr>)" and "get_fd w1 fd = None"
  shows "fd_view w2 = (fd_view w1)(fd \<mapsto> (i, fl))" "fd_view w1 fd = None"
  using assms by (auto simp: fd_view_def fun_eq_iff)

lemma open_main_calm:
  assumes "settled S R w" and "good_path cs" and "comps fpath = R @ cs" and "edit_flags flags"
    and "st_size garb < 2 ^ 64" and "length (sub_path [] cs) < 2 ^ 64"
  shows "\<exists>r mo w'. open_main garb (sub_path [] cs) fpath flags w = Some ((r, mo), w') \<and> evolves S R w w'
    \<and> (case mo of None \<Rightarrow> fd_view w' = fd_view w | Some m \<Rightarrow> attached m cs S R w' \<and> detached m w' = fd_view w)"
proof -
  have c: "calm w" "latest w S R" "sound (bl_slog w) (tree w) S R cs"
    using assms(1,2) by (auto simp: settled_def latest_def)
  have fl: "flags AND 3 \<noteq> 0" "\<not> has_flag (rdwr_flags flags) O_CREAT" "\<not> has_flag (rdwr_flags flags) O_TRUNC"
      "writable (rdwr_flags flags)"
    using assms(4) rdwr_flags_modes by (simp_all add: edit_flags_def rdwr_flags_other)
  let ?m = "fresh (mfd_garbage garb) cs fpath w"
  obtain r m1 w1 where o: "mfd_open_sn (mfd_garbage garb) (sub_path [] cs) (Some fpath) w = Some ((r, m1), w1)"
      "open_result S R cs ?m w r m1 w1"
    using open_sn_calm [OF c(2) assms(2) c(3) _ assms(3), of "Some fpath" "mfd_garbage garb"] assms(5,6)
    by (auto simp: mfd_garbage_def)
  have ev: "evolves S R w w1" by (rule evolves_open [OF assms(1,2) o(2)])
  show ?thesis
  proof (cases r)
    case (Inl e)
    then have "get_fd w1 = get_fd w" using o(2) by (simp add: open_result_def)
    then show ?thesis
      using o(1) Inl ev c(1) fl(1) by (auto simp: open_main_def fd_view_def fun_eq_iff)
  next
    case (Inr u)
    then have res: "open_result S R cs ?m w (Inr ()) m1 w1" using o(2) by simp
    have c1: "calm w1" "is_main m1 = Mfd_main" using res by (auto simp: open_result_def fresh_def)
    have s1: "settled S R w1" using ev by (simp add: evolves_def)
    have open1: "open_main garb (sub_path [] cs) fpath flags w =
      (case sys_open fpath (rdwr_flags flags) 0 w1 of
         (Inl e, w2) \<Rightarrow> Some ((Inl e, None), snd (mfd_close_sn m1 w2))
       | (Inr fd, w2) \<Rightarrow> Some ((Inr (), Some (m1\<lparr>mainfd := fd\<rparr>)), w2))"
      using o(1) Inr c(1) c1(2) fl(1) by (simp add: open_main_def split_beta Let_def split: sum.split)
    have "writable (rdwr_flags flags) \<or> tree w1 (comps fpath) \<noteq> Some Dir" using fl(4) by simp
    from c1(1) fl(2,3) this show ?thesis
    proof (cases rule: open_existing [where md = 0])
      case (error e)
      obtain q w2 where w2: "mfd_close_sn m1 w1 = (q, w2)" "calm w2" "tree w2 = tree w1" "os.more w2 = os.more w1"
          "get_fd w2 = (get_fd w1)(datfd m1 := None, mapfd m1 := None)"
        by (rule close_sn_quiet [OF c1(1), of m1]) blast
      have "evolves S R w w2" by (rule evolves_trans [OF ev evolves_more [OF s1 w2(2,4,3)]])
      then show ?thesis
        using open1 error(1) w2(1,5) opened_fds(2) [OF res] by (auto simp: fd_view_def fun_eq_iff)
    next
      case (found fd i bs w2)
      have "evolves S R w w2" by (rule evolves_trans [OF ev evolves_more [OF s1 found(2,8,3)]])
      then show ?thesis
        using open1 found(1) attach_main [OF res fd_view_add [OF found(6,7)]] found(3,4,5,9) assms(3)
          more_fields(7) [OF found(8)] stays_lookup [OF found(9)] same_header_tree [OF found(3)] by simp
    qed
  qed
qed

section \<open>Writing and truncating\<close>

lemma frame_lookup: "frame A w w' \<Longrightarrow> lookup w' = lookup w"
  by (simp add: frame_def lookup_def fun_eq_iff)

lemma frame_tree:
  assumes "frame A w w'"
  shows "(\<And>n. lookup w x = Some n \<Longrightarrow> n \<notin> A) \<Longrightarrow> tree w' x = tree w x"
    and "lookup w x = Some n \<Longrightarrow> tree w x = Some (File bs) \<Longrightarrow> tree w' x = Some (File (fdata w' n))"
proof -
  note f = frame_lookup [OF assms] frame_is_dir [OF assms]
  show "tree w' x = tree w x" if "\<And>n. lookup w x = Some n \<Longrightarrow> n \<notin> A"
    using that frame_fdata [OF assms] by (cases "lookup w x") (simp_all add: tree_def f)
  show "tree w' x = Some (File (fdata w' n))" if "lookup w x = Some n" "tree w x = Some (File bs)"
    using that by (auto simp: tree_def f split: if_splits)
qed

lemma run_ops_kept:
  fixes w :: world
  shows "run_ops xs m w = Some (m', w') \<Longrightarrow> calm w \<Longrightarrow> calm w'"
proof (induction xs arbitrary: m w)
  case (Cons x xs)
  then obtain m1 w1 where "run_op x m w = Some (m1, w1)" "run_ops xs m1 w1 = Some (m', w')"
    by (auto split: Option.bind_splits)
  moreover from this(1) have "calm w1" using Cons.prems(2)
    by (cases x) (auto simp: run_op_def dest: clm.write_op_kept clm.ftruncate_op_kept)
  ultimately show ?case using Cons.IH by blast
qed simp

text \<open>With no layer to fill, only the main file changes.\<close>

lemma more_set_data [simp]: "os.more (set_data i bs w) = os.more w" "no_short (set_data i bs w) = no_short w"
  by (simp_all add: set_data_def no_short_def)

lemma run_op_idle:
  assumes "datfd m < 0" and "mfd_sn_number m = sn_number w" and "is_main m = Mfd_main" and "no_short w"
    and "fd_view w (mainfd m) = Some (i, fl)"
  shows "\<exists>w'. run_op x m w = Some (m, w') \<and> frame {i} w w' \<and> os.more w' = os.more w \<and> no_short w'"
proof (cases x)
  case (Write buf off)
  obtain r w' where p: "sys_pwrite (mainfd m) buf off w = (r, w')" by fastforce
  then have "frame {i} w w' \<and> os.more w' = os.more w \<and> no_short w'"
    by (rule sys_pwrite_cases [OF _ assms(4,5)]) (use assms(4) in simp_all)
  then show ?thesis
    using assms p Write by (simp add: run_op_def write_op_def mfd_validate_def b_write_def)
next
  case (Truncate n)
  obtain r w' where p: "sys_ftruncate (mainfd m) n w = (r, w')" by fastforce
  then have "frame {i} w w' \<and> os.more w' = os.more w \<and> no_short w'"
    by (rule sys_ftruncate_cases [OF _ assms(5)]) (use assms(4) in simp_all)
  then show ?thesis
    using assms p Truncate by (simp add: run_op_def ftruncate_op_def mfd_validate_def b_truncate_def b_write_def)
qed

lemma run_ops_idle:
  assumes "datfd m < 0" and "mfd_sn_number m = sn_number w" and "is_main m = Mfd_main" and "no_short w"
    and "fd_view w (mainfd m) = Some (i, fl)"
  shows "\<exists>w'. run_ops xs m w = Some (m, w') \<and> frame {i} w w' \<and> os.more w' = os.more w"
  using assms(2,4,5)
proof (induction xs arbitrary: w)
  case (Cons x xs)
  obtain w1 where w1: "run_op x m w = Some (m, w1)" "frame {i} w w1" "os.more w1 = os.more w" "no_short w1"
    using run_op_idle [OF assms(1) Cons.prems(1) assms(3) Cons.prems(2,3)] by blast
  have "mfd_sn_number m = sn_number w1" "fd_view w1 (mainfd m) = Some (i, fl)"
    using Cons.prems w1(2) by (simp_all add: frame_def)
  from Cons.IH [OF this(1) w1(4) this(2)] w1 show ?case by (auto intro: frame_trans)
qed simp

text \<open>The files of a handle.\<close>

lemma layer_keys:
  assumes "settled S R w" and "good_path cs"
  shows "R @ cs \<noteq> S @ map_key cs" "R @ cs \<noteq> S @ dat_key cs" "S @ map_key cs \<noteq> S @ dat_key cs"
proof -
  obtain a where S: "S = R @ ''snapshots'' # a" using settled_root [OF assms(1)] by blast
  have "\<not> prefix S (R @ cs)" unfolding S by (rule not_below [OF assms(2)])
  then show "R @ cs \<noteq> S @ map_key cs" "R @ cs \<noteq> S @ dat_key cs" by auto
  show "S @ map_key cs \<noteq> S @ dat_key cs" using good_keys(3) [OF assms(2)] by simp
qed

lemma attached_cow:
  assumes "settled S R w" and "good_path cs" and "attached m cs S R w"
    and "mh_exists (mapheader m) \<noteq> 0" and "st_size (mh_fstat (mapheader m)) \<noteq> 0"
  obtains i j k where "cow_ok m i j k w" and "lookup w (R @ cs) = Some i" and "lookup w (S @ map_key cs) = Some j"
    and "lookup w (S @ dat_key cs) = Some k" and "tree w (R @ cs) = Some (File (fdata w i))"
    and "tree w (S @ map_key cs) = Some (File (fdata w j))" and "tree w (S @ dat_key cs) = Some (File (fdata w k))"
proof -
  obtain i fl bs where i: "fd_view w (mainfd m) = Some (i, fl)" "lookup w (R @ cs) = Some i"
      "tree w (R @ cs) = Some (File bs)"
    using assms(3) by (auto simp: attached_def)
  obtain j fj mb where j: "fd_view w (mapfd m) = Some (j, fj)" "readable fj" "writable fj" "\<not> has_flag fj O_APPEND"
      "lookup w (S @ map_key cs) = Some j" "tree w (S @ map_key cs) = Some (File mb)" "map_header mb = mapheader m"
    using assms(3) by (auto simp: attached_def map_open_def)
  obtain k fk db where k: "fd_view w (datfd m) = Some (k, fk)" "writable fk" "has_flag fk O_APPEND"
      "lookup w (S @ dat_key cs) = Some k" "tree w (S @ dat_key cs) = Some (File db)"
    using assms(3-5) by (auto simp: attached_def dat_open_def)
  have c: "calm w" "os_wf w" using assms(1) by (simp_all add: settled_def latest_def calm_def)
  have d: "bs = fdata w i" "mb = fdata w j" "db = fdata w k" using i(2,3) j(5,6) k(4,5) by (auto simp: tree_File)
  have ne: "i \<noteq> j" "i \<noteq> k" "j \<noteq> k"
    using layer_keys [OF assms(1,2)] lookup_inj [OF c(2)] i(2) j(5) k(4) by metis+
  have "saving_fds m i j k w" unfolding saving_fds_def using i j k ne by blast
  moreover have l: "layer_at (tree w) S cs = Some (mb, db)" "main_at (tree w) R cs = Some bs"
    using i(3) j(6) k(5) by (simp_all add: layer_at_def main_at_def file_of_def)
  have "sound (bl_slog w) (tree w) S R cs" using assms(1,2) by (simp add: settled_def)
  then have "layer_wf (bl_slog w) (fdata w j, fdata w k) (Some (fdata w i))" using l d by (simp add: sound_def)
  moreover have "mh_exists (mapheader m) = 1" using assms(3,4) by (auto simp: attached_def header_ok_def)
  ultimately have "cow_ok m i j k w"
    using assms(1,3) c(1) j(7) d(2) by (auto simp: cow_ok_def layer_inv_def settled_def calm_def no_short_def attached_def)
  then show ?thesis using that i(2,3) j(5,6) k(4,5) d by blast
qed

lemma evolves_cow:
  assumes "settled S R w" and "good_path cs" and "frame {i, j, k} w w'" and "cow_ok m' i j k w'"
    and "snap_file i j k w' = snap_file i j k w" and "calm w'" and "mflocks w' = table0" and "header_ok (mapheader m')"
    and "lookup w (R @ cs) = Some i" and "lookup w (S @ map_key cs) = Some j" and "lookup w (S @ dat_key cs) = Some k"
    and "tree w (R @ cs) = Some (File (fdata w i))" and "tree w (S @ map_key cs) = Some (File (fdata w j))"
    and "tree w (S @ dat_key cs) = Some (File (fdata w k))"
  shows "evolves S R w w'"
proof -
  have wf: "os_wf w" using assms(1) by (simp add: settled_def latest_def calm_def)
  note t = frame_tree [OF assms(3)]
  have n: "tree w' (R @ cs) = Some (File (fdata w' i))" "tree w' (S @ map_key cs) = Some (File (fdata w' j))"
      "tree w' (S @ dat_key cs) = Some (File (fdata w' k))"
    by (rule t(2) [OF assms(9,12)], rule t(2) [OF assms(10,13)], rule t(2) [OF assms(11,14)])
  have l: "layer_at (tree w') S cs = Some (fdata w' j, fdata w' k)" "main_at (tree w') R cs = Some (fdata w' i)"
      "layer_at (tree w) S cs = Some (fdata w j, fdata w k)" "main_at (tree w) R cs = Some (fdata w i)"
    using n assms(12-14) by (simp_all add: layer_at_def main_at_def file_of_def)
  have b: "bl_slog w' = bl_slog w" using assms(3) by (simp add: frame_def)
  show ?thesis
  proof (rule evolves_content [OF assms(1,2,6,7) fields_frame [OF assms(3)]])
    show "length (block_buffer w') = BL_S w'" using assms(4) by (simp add: cow_ok_def)
    show "tree w' x = tree w x" if "x \<noteq> R @ cs" "x \<noteq> S @ map_key cs" "x \<noteq> S @ dat_key cs" for x
      by (rule t(1)) (use that lookup_inj [OF wf] assms(9-11) in blast)
    show "tree w' x = tree w x \<or> (\<exists>a b. tree w x = Some (File a) \<and> tree w' x = Some (File b))"
      if "x = S @ map_key cs \<or> x = S @ dat_key cs" for x
      using that n assms(13,14) by auto
    show "sound (bl_slog w) (tree w') S R cs"
      using assms(4,8) l b n(3) by (auto simp: sound_def paired_def file_of_def cow_ok_def layer_inv_def)
    show "shown S R w' cs = shown S R w cs" using assms(5) l by (simp add: shown_def snap_file_def)
  qed
qed

text \<open>A change of the main file only, where the layer has every byte that is no longer there.\<close>

abbreviation bytes_of :: "byte list option \<Rightarrow> byte list" where
  "bytes_of x \<equiv> (case x of None \<Rightarrow> [] | Some bs \<Rightarrow> bs)"

lemma evolves_main:
  assumes "settled S R w" and "good_path cs" and "calm w'" and "mflocks w' = table0" and "fields w' = fields w"
    and "length (block_buffer w') = BL_S w'" and same: "\<And>x. x \<noteq> R @ cs \<Longrightarrow> tree w' x = tree w x"
    and l: "layer_at (tree w) S cs = Some l"
    and keep: "\<And>n p. layer_size (fst l) = Some n \<Longrightarrow> p < n \<Longrightarrow> layer_get (bl_slog w) l (p div 2 ^ bl_slog w) = None \<Longrightarrow>
      p < length (bytes_of (main_at (tree w') R cs)) \<and> bytes_of (main_at (tree w') R cs) ! p = bytes_of (main_at (tree w) R cs) ! p"
  shows "evolves S R w w'"
proof -
  have l': "layer_at (tree w') S cs = Some l"
    using l same [of "S @ map_key cs"] same [of "S @ dat_key cs"] layer_keys [OF assms(1,2)] by (simp add: layer_at_def)
  have snd: "sound (bl_slog w) (tree w) S R cs" using assms(1,2) by (simp add: settled_def)
  have b: "bl_slog w' = bl_slog w" using field_eqs [OF assms(5)] by simp
  show ?thesis
  proof (rule evolves_content [OF assms(1-6)])
    show "sound (bl_slog w) (tree w') S R cs"
      using snd l l' keep same [of "S @ map_key cs"] same [of "S @ dat_key cs"] layer_keys [OF assms(1,2)]
      by (auto simp: sound_def paired_def layer_wf_def covered_def)
    have "overlay (2 ^ bl_slog w) n (layer_get (bl_slog w) l) (bytes_of (main_at (tree w') R cs))
        = overlay (2 ^ bl_slog w) n (layer_get (bl_slog w) l) (bytes_of (main_at (tree w) R cs))"
      if "layer_size (fst l) = Some n" for n
      by (rule overlay_below) (use keep [OF that] in blast)
    then show "shown S R w' cs = shown S R w cs"
      using l l' b by (cases "layer_size (fst l)") (simp_all add: shown_def)
  qed (use same layer_keys [OF assms(1,2)] in metis)+
qed

lemma run_ops_attached:
  assumes "settled S R w" and "good_path cs" and "attached m cs S R w"
  shows "\<exists>m' w'. run_ops xs m w = Some (m', w') \<and> evolves S R w w' \<and> fd_view w' = fd_view w \<and> same_handle m m'"
proof (cases "mh_exists (mapheader m) = 0 \<or> st_size (mh_fstat (mapheader m)) = 0")
  case True
  have c: "calm w" "no_short w" using assms(1) by (simp_all add: settled_def latest_def calm_def no_short_def)
  obtain i fl bs where i: "fd_view w (mainfd m) = Some (i, fl)" "lookup w (R @ cs) = Some i"
    using assms(3) by (auto simp: attached_def)
  obtain j mb where j: "tree w (S @ map_key cs) = Some (File mb)" "map_header mb = mapheader m"
    using assms(3) by (auto simp: attached_def map_open_def)
  have "datfd m < 0" "mfd_sn_number m = sn_number w" "is_main m = Mfd_main"
    using assms(3) True by (auto simp: attached_def dat_open_def)
  from run_ops_idle [OF this c(2) i(1)]
  obtain w' where w': "run_ops xs m w = Some (m, w')" "frame {i} w w'" "os.more w' = os.more w" by blast
  note f = more_fields [OF w'(3)]
  obtain l where l: "layer_at (tree w) S cs = Some l" "fst l = mb"
    using j(1) by (auto simp: layer_at_def file_of_def)
  have n: "n = 0" if "layer_size (fst l) = Some n" for n
    using that True l(2) j(2) by (auto simp: layer_size_def split: if_splits)
  have "evolves S R w w'"
  proof (rule evolves_main [OF assms(1,2) run_ops_kept [OF w'(1) c(1)] _ fields_frame [OF w'(2)] _ _ l(1)])
    show "mflocks w' = table0" "length (block_buffer w') = BL_S w'"
      using assms(1) f(8,10,11) by (simp_all add: settled_def latest_def BL_S_def)
    show "tree w' x = tree w x" if "x \<noteq> R @ cs" for x
      by (rule frame_tree(1) [OF w'(2)])
        (use that i(2) c(1) lookup_inj [of w "R @ cs" i x] in \<open>auto simp: calm_def\<close>)
  qed (use n in blast)
  then show ?thesis using w' by (auto simp: frame_def)
next
  case False
  obtain i j k where h: "cow_ok m i j k w" "lookup w (R @ cs) = Some i" "lookup w (S @ map_key cs) = Some j"
      "lookup w (S @ dat_key cs) = Some k" "tree w (R @ cs) = Some (File (fdata w i))"
      "tree w (S @ map_key cs) = Some (File (fdata w j))" "tree w (S @ dat_key cs) = Some (File (fdata w k))"
    by (rule attached_cow [OF assms]) (use False in auto)
  have c: "calm w" "mflocks w = table0" using assms(1) by (simp_all add: settled_def latest_def)
  have a: "mfd_sn_number m = sn_number w" "mfd_locklabel m \<noteq> 0" "header_ok (mapheader m)"
    using assms(3) by (simp_all add: attached_def)
  have "lock_free (mfd_locklabel m) (mflocks w)" using lock_free_idle [OF a(2)] c(2) by (simp add: table0_def)
  from run_ops_step [OF h(1) this a(1), of xs]
  obtain m' w' where w': "run_ops xs m w = Some (m', w')" "cow_ok m' i j k w'" "frame {i, j, k} w w'"
      "snap_file i j k w' = snap_file i j k w" "mflocks w' = mflocks w" "same_handle m m'"
    by blast
  have hd: "header_ok (mapheader m')" "mflocks w' = table0"
    using a(3) same_handle_fields(4) [OF w'(6)] w'(5) c(2) by simp_all
  have "evolves S R w w'"
    by (rule evolves_cow [OF assms(1,2) w'(3,2,4) run_ops_kept [OF w'(1) c(1)] hd(2,1) h(2-7)])
  then show ?thesis using w' by (auto simp: frame_def)
qed

section \<open>Sessions\<close>

definition session ::
  "((unit res \<times> mfd option) \<times> world) option \<Rightarrow> file_op list \<Rightarrow> (unit res \<times> world) option" where
  "session op xs =
     do {
       ((r, mo), w) \<leftarrow> op;
       case mo of
         None \<Rightarrow> Some (r, w)
       | Some m \<Rightarrow> do { (m, w) \<leftarrow> run_ops xs m w; Some (release_op m w) }
     }"

text \<open>What a request on the main space has to leave alone.\<close>

definition harmless :: "string list \<Rightarrow> string list \<Rightarrow> (world \<Rightarrow> ('a \<times> world) option) \<Rightarrow> world \<Rightarrow> bool" where
  "harmless S R f w \<longleftrightarrow> (\<exists>r w'. f w = Some (r, w') \<and> evolves S R w w' \<and> fd_view w' = fd_view w)"

lemma main_path:
  assumes "good_path cs"
  shows "\<not> is_path_in_sn (sub_path [] cs)" "sub_path [] cs \<noteq> []"
proof -
  obtain c ds where cs: "cs = c # ds" using assms by (cases cs) (simp_all add: good_path_def)
  have c: "CHR ''/'' \<notin> set c" "c \<noteq> ''snapshots''" using assms by (simp_all add: cs good_path_def good_name_def)
  have p: "sub_path [] cs = CHR ''/'' # c @ sub_path [] ds" by (simp add: cs sub_path_def DIRSEP_def)
  have ds: "sub_path [] ds = [] \<or> hd (sub_path [] ds) = CHR ''/''" by (cases ds) (simp_all add: sub_path_def DIRSEP_def)
  have t: "takeWhile (\<lambda>x. x \<noteq> CHR ''/'') (c @ sub_path [] ds) = c"
    using c(1) ds by (cases "sub_path [] ds") (auto simp: takeWhile_append)
  show "\<not> is_path_in_sn (sub_path [] cs)"
  proof
    assume "is_path_in_sn (sub_path [] cs)"
    then obtain q where "c @ sub_path [] ds = ''snapshots'' @ q" "q = [] \<or> hd q = CHR ''/''"
      by (auto simp: is_path_in_sn_iff p SNDIR_def)
    then have "takeWhile (\<lambda>x. x \<noteq> CHR ''/'') (c @ sub_path [] ds) = ''snapshots''" by (cases q) auto
    then show False using t c(2) by simp
  qed
  show "sub_path [] cs \<noteq> []" by (simp add: p)
qed

text \<open>The root of the main space.\<close>

definition rooted :: "string list \<Rightarrow> world \<Rightarrow> bool" where
  "rooted R w \<longleftrightarrow> comps (rootdir w) = R \<and> rootdir_len w = length (rootdir w)"

lemma settled_rooted: "settled S R w \<Longrightarrow> rooted R w"
  by (simp add: settled_def rooted_def)

lemma main_route:
  assumes "rooted R w" and "good_path cs" and "length (sub_path [] cs) < 2 ^ 64"
  obtains (long) "map_path (sub_path [] cs) w = Inl ENAMETOOLONG"
  | (short) fpath where "map_path (sub_path [] cs) w = Inr fpath" and "comps fpath = R @ cs" and "fpath = rootdir w @ sub_path [] cs"
proof (cases "map_path (sub_path [] cs) w")
  case (Inl e)
  then show ?thesis using long by (auto simp: map_path_def split: if_splits)
next
  case (Inr p)
  have r: "comps (rootdir w) = R" "rootdir_len w = length (rootdir w)" using assms(1) by (simp_all add: rooted_def)
  have p: "p = rootdir w @ sub_path [] cs" using Inr r(2) by (auto simp: map_path_def split: if_splits)
  then have "p = sub_path (rootdir w) cs" by (simp add: sub_path_def)
  then have "comps p = R @ cs" using assms(2) r(1) by (simp add: concat_dirsep_comps good_path_def)
  then show ?thesis using short Inr p by blast
qed

lemma release_calm:
  fixes w :: world
  assumes "calm w" and "is_main m = Mfd_main"
  obtains r w' where "release_op m w = (r, w')" and "calm w'" and "tree w' = tree w" and "os.more w' = os.more w"
    and "fd_view w' = detached m w"
proof -
  obtain r1 w1 where 1: "mfd_close_sn m w = (r1, w1)" "calm w1" "tree w1 = tree w" "os.more w1 = os.more w"
      "get_fd w1 = (get_fd w)(datfd m := None, mapfd m := None)"
    by (rule close_sn_quiet [OF assms(1), of m]) blast
  obtain r2 w2 where 2: "sys_close (mainfd m) w1 = (r2, w2)" "calm w2" "tree w2 = tree w1" "os.more w2 = os.more w1"
      "get_fd w2 = (get_fd w1)(mainfd m := None)"
    by (rule close_quiet [OF 1(2), of "mainfd m"]) blast
  have "fd_view w2 = detached m w" using 1(5) 2(5) by (auto simp: fd_view_def detached_def fun_eq_iff)
  then show ?thesis using that 1(1,3,4) 2 assms(2) by (simp add: release_op_def split_beta)
qed

lemma session_harmless:
  assumes "good_path cs" and w1: "f w = Some ((r, mo), w1)" "evolves S R w w1"
      "case mo of None \<Rightarrow> fd_view w1 = fd_view w | Some m \<Rightarrow> attached m cs S R w1 \<and> detached m w1 = fd_view w"
  shows "harmless S R (\<lambda>w. session (f w) xs) w"
proof (cases mo)
  case None
  then show ?thesis using w1 by (simp add: session_def harmless_def)
next
  case (Some m)
  then have m: "attached m cs S R w1" "detached m w1 = fd_view w" using w1(3) by simp_all
  have s1: "settled S R w1" using w1(2) by (simp add: evolves_def)
  obtain m' w2 where w2: "run_ops xs m w1 = Some (m', w2)" "evolves S R w1 w2" "fd_view w2 = fd_view w1" "same_handle m m'"
    using run_ops_attached [OF s1 assms(1) m(1)] by blast
  have s2: "settled S R w2" using w2(2) by (simp add: evolves_def)
  have c: "calm w2" "is_main m' = Mfd_main"
    using s2 m(1) same_handle_fields(6) [OF w2(4)] by (simp_all add: settled_def latest_def attached_def)
  obtain q w3 where w3: "release_op m' w2 = (q, w3)" "calm w3" "tree w3 = tree w2" "os.more w3 = os.more w2"
      "fd_view w3 = detached m' w2"
    by (rule release_calm [OF c])
  have "evolves S R w w3"
    using evolves_trans [OF w1(2) evolves_trans [OF w2(2) evolves_more [OF s2 w3(2,4,3)]]] .
  moreover have "detached m' w2 = fd_view w"
    using m(2) w2(3) same_handle_fields [OF w2(4)] by (simp add: detached_def)
  ultimately show ?thesis using w1(1) Some w2(1) w3(1,5) by (simp add: session_def harmless_def)
qed

lemma edit_harmless:
  assumes "settled S R w" and "good_path cs" and "edit_flags flags" and "st_size garb < 2 ^ 64"
    and "length (sub_path [] cs) < 2 ^ 64"
  shows "harmless S R (\<lambda>w. session (open_op garb (sub_path [] cs) flags w) xs) w"
  using settled_rooted [OF assms(1)] assms(2,5)
proof (cases rule: main_route)
  case long
  then have "open_op garb (sub_path [] cs) flags w = Some ((Inl ENAMETOOLONG, None), w)"
    by (simp add: open_op_def if_path_sn_def)
  then show ?thesis using evolves_refl [OF assms(1)] by (simp add: session_def harmless_def)
next
  case (short fpath)
  have o: "open_op garb (sub_path [] cs) flags w = open_main garb (sub_path [] cs) fpath flags w"
    using short(1) main_path(1) [OF assms(2)] by (simp add: open_op_def if_path_sn_def)
  obtain r mo w1 where w1: "open_main garb (sub_path [] cs) fpath flags w = Some ((r, mo), w1)" "evolves S R w w1"
      "case mo of None \<Rightarrow> fd_view w1 = fd_view w | Some m \<Rightarrow> attached m cs S R w1 \<and> detached m w1 = fd_view w"
    using open_main_calm [OF assms(1,2) short(2) assms(3-5)] by blast
  show ?thesis by (rule session_harmless [OF assms(2) _ w1(2,3)]) (use o w1(1) in simp)
qed

end
