(* ===== verification/Events.thy ===== *)
theory Events
  imports Sessions
begin

text \<open>
  The requests that change the main space by a path, on a disk without faults: \<open>truncate\<close>, \<open>unlink\<close>,
  \<open>create\<close>, \<open>mkdir\<close>, \<open>rmdir\<close>, \<open>chmod\<close>, \<open>chown\<close> and \<open>utimens\<close>. None of them changes what the latest snapshot
  shows.
\<close>

section \<open>Definitions\<close>

text \<open>The layer has all the bytes of the file from the position \<open>n\<close>.\<close>

definition saved :: "nat \<Rightarrow> string list \<Rightarrow> string list \<Rightarrow> world \<Rightarrow> bool" where
  "saved n S cs w \<longleftrightarrow>
     (\<exists>l. layer_at (tree w) S cs = Some l \<and>
        (\<forall>sz p. layer_size (fst l) = Some sz \<longrightarrow> n \<le> p \<longrightarrow> p < sz \<longrightarrow>
           layer_get (bl_slog w) l (p div 2 ^ bl_slog w) \<noteq> None))"

text \<open>Only the latest snapshot's own files may have changed, and they show the same.\<close>

definition behind :: "string list \<Rightarrow> string list \<Rightarrow> string list \<Rightarrow> world \<Rightarrow> world \<Rightarrow> bool" where
  "behind S R cs w w' \<longleftrightarrow> evolves S R w w' \<and> stays w w' \<and> tree w' (R @ cs) = tree w (R @ cs) \<and> same_header S cs w w'"

section \<open>Saving what is cut off\<close>

lemma same_header_trans: "same_header S cs w w1 \<Longrightarrow> same_header S cs w1 w2 \<Longrightarrow> same_header S cs w w2"
  unfolding same_header_def by metis

lemma same_header_grown: "grown (tree w) (tree w') S R cs \<Longrightarrow> same_header S cs w w'"
  using grown_old [of "tree w" "tree w'"] by (simp add: same_header_def)

lemma saved_tree: "saved n S cs w \<Longrightarrow> tree w' = tree w \<Longrightarrow> bl_slog w' = bl_slog w \<Longrightarrow> saved n S cs w'"
  by (simp add: saved_def)

lemma behind_refl: "settled S R w \<Longrightarrow> behind S R cs w w"
  by (simp add: behind_def evolves_refl stays_refl same_header_tree)

lemma behind_trans: "behind S R cs w w1 \<Longrightarrow> behind S R cs w1 w2 \<Longrightarrow> behind S R cs w w2"
  by (auto simp: behind_def intro: evolves_trans stays_trans same_header_trans)

lemma behind_settled: "behind S R cs w w' \<Longrightarrow> settled S R w'"
  by (simp add: behind_def evolves_def)

lemma behind_more:
  assumes "settled S R w" and "calm w'" and "os.more w' = os.more w" and "tree w' = tree w" and "lookup w' = lookup w"
  shows "behind S R cs w w'"
  using evolves_more [OF assms(1-4)] stays_lookup [OF assms(5)] assms(4) by (simp add: behind_def same_header_tree)

lemma behind_open:
  assumes "settled S R w" and "good_path cs" and "open_result S R cs m w r m' w'"
  shows "behind S R cs w w'"
proof -
  have g: "grown (tree w) (tree w') S R cs" "stays w w'" using assms(3) by (simp_all add: open_result_def)
  obtain a where S: "S = R @ ''snapshots'' # a" using settled_root [OF assms(1)] by blast
  have "tree w' (R @ cs) = tree w (R @ cs)" using grown_outside [OF g(1)] not_below [OF assms(2)] unfolding S by blast
  then show ?thesis
    using evolves_open [OF assms] g same_header_grown [OF g(1)] by (simp add: behind_def)
qed

text \<open>If there is no file, the layer has every byte.\<close>

lemma saved_missing:
  assumes "settled S R w" and "good_path cs" and "layer_at (tree w) S cs = Some l" and "main_at (tree w) R cs = None"
  shows "saved n S cs w"
proof -
  have "sound (bl_slog w) (tree w) S R cs" using assms(1,2) by (simp add: settled_def)
  then show ?thesis using assms(3,4) by (auto simp: sound_def saved_def layer_wf_def covered_def)
qed

lemma map_open_layer:
  "map_open m S cs w \<Longrightarrow> \<exists>l. layer_at (tree w) S cs = Some l \<and> map_header (fst l) = mapheader m"
  by (auto simp: map_open_def layer_at_def file_of_def)

lemma saved_empty:
  assumes "map_open m S cs w" and "mh_exists (mapheader m) = 0 \<or> st_size (mh_fstat (mapheader m)) = 0"
  shows "saved n S cs w"
proof -
  obtain l where l: "layer_at (tree w) S cs = Some l" "map_header (fst l) = mapheader m"
    using map_open_layer [OF assms(1)] by blast
  moreover have "layer_size (fst l) = None \<or> layer_size (fst l) = Some 0"
    using l(2) assms(2) by (auto simp: layer_size_def)
  ultimately show ?thesis by (auto simp: saved_def)
qed

lemma cut_attached:
  assumes "settled S R w" and "good_path cs" and "attached m cs S R w"
  shows "\<exists>r m' w'. b_truncate m n False w = Some ((r, m'), w') \<and> behind S R cs w w' \<and> fd_view w' = fd_view w
    \<and> same_handle m m' \<and> (r = Inr () \<longrightarrow> saved n S cs w')"
proof (cases "mh_exists (mapheader m) = 0 \<or> st_size (mh_fstat (mapheader m)) = 0")
  case True
  have "saved n S cs w" using assms(3) by (intro saved_empty [OF _ True]) (simp add: attached_def)
  moreover have "b_truncate m n False w = Some ((Inr (), m), w)" using True by (auto simp: b_truncate_def)
  ultimately show ?thesis using behind_refl [OF assms(1)] by auto
next
  case False
  obtain i j k where h: "cow_ok m i j k w" "lookup w (R @ cs) = Some i" "lookup w (S @ map_key cs) = Some j"
      "lookup w (S @ dat_key cs) = Some k" "tree w (R @ cs) = Some (File (fdata w i))"
      "tree w (S @ map_key cs) = Some (File (fdata w j))" "tree w (S @ dat_key cs) = Some (File (fdata w k))"
    by (rule attached_cow [OF assms]) (use False in auto)
  have c: "calm w" "mflocks w = table0" using assms(1) by (simp_all add: settled_def latest_def)
  have a: "mfd_locklabel m \<noteq> 0" "header_ok (mapheader m)" using assms(3) by (simp_all add: attached_def)
  have "lock_free (mfd_locklabel m) (mflocks w)" using lock_free_idle [OF a(1)] c(2) by (simp add: table0_def)
  then obtain r m' w' where b: "b_truncate m n False w = Some ((r, m'), w')" "mflocks w' = mflocks w"
    using b_truncate_total by blast
  note st = b_truncate_step [OF h(1) b(1)]
  then have sh: "same_handle m m'" and fr: "frame {j, k} w w'" "snap_file i j k w' = snap_file i j k w" "cow_ok m' i j k w'"
    by (auto simp: cow_step_def)
  have fr3: "frame {i, j, k} w w'" using fr(1) by (rule frame_mono) auto
  have "calm w'" by (rule clm.b_truncate_kept [OF b(1) c(1)])
  then have "evolves S R w w'"
    using evolves_cow [OF assms(1,2) fr3 fr(3,2) _ _ _ h(2-7)] b(2) c(2) a(2) same_handle_fields(4) [OF sh] by simp
  moreover have "stays w w'" by (rule stays_lookup [OF frame_lookup [OF fr(1)]])
  moreover have "i \<noteq> j" "i \<noteq> k" using h(1) by (auto simp: cow_ok_def saving_fds_def)
  then have "tree w' (R @ cs) = tree w (R @ cs)" by (intro frame_tree(1) [OF fr(1)]) (use h(2) in auto)
  moreover have n: "tree w' (S @ map_key cs) = Some (File (fdata w' j))" "tree w' (S @ dat_key cs) = Some (File (fdata w' k))"
    by (rule frame_tree(2) [OF fr(1) h(3,6)], rule frame_tree(2) [OF fr(1) h(4,7)])
  have hd: "map_header (fdata w' j) = mapheader m" "map_header (fdata w j) = mapheader m"
    using fr(3) h(1) same_handle_fields(4) [OF sh] by (auto simp: cow_ok_def layer_inv_def)
  then have "same_header S cs w w'" using n h(6,7) by (simp add: same_header_def)
  moreover have "saved n S cs w'" if "r = Inr ()"
  proof -
    have l: "layer_at (tree w') S cs = Some (fdata w' j, fdata w' k)" using n by (simp add: layer_at_def file_of_def)
    have "layer_size (fdata w' j) = Some (sn_size m)"
      using layer_size_header [of m' i j k w'] fr(3) same_handle_fields(4) [OF sh] by (simp add: cow_ok_def)
    moreover have "bl_slog w' = bl_slog w" using fr(1) by (simp add: frame_def)
    ultimately show ?thesis using l st that by (auto simp: saved_def layer_get_def BL_S_def Let_def)
  qed
  ultimately show ?thesis using b(1) sh fr(1) by (auto simp: frame_def behind_def)
qed

text \<open>The end of \<open>open_truncate_close\<close>: the files of the layer are closed.\<close>

lemma otc_end:
  assumes res: "open_result S R cs m w (Inr ()) m1 w1" and m2: "same_handle (m1\<lparr>mainfd := x\<rparr>) m2"
    and b2: "behind S R cs w w2" and v2: "fd_view w2 = fd_view w1" and P: "P \<longrightarrow> saved n S cs w2"
  shows "\<exists>q w3. mfd_close_sn m2 w2 = (q, w3) \<and> behind S R cs w w3 \<and> fd_view w3 = fd_view w \<and> (P \<longrightarrow> saved n S cs w3)"
proof -
  have s2: "settled S R w2" by (rule behind_settled [OF b2])
  then have c2: "calm w2" by (simp add: settled_def latest_def)
  obtain q w3 where w3: "mfd_close_sn m2 w2 = (q, w3)" "calm w3" "tree w3 = tree w2" "os.more w3 = os.more w2"
      "get_fd w3 = (get_fd w2)(datfd m2 := None, mapfd m2 := None)" "lookup w3 = lookup w2"
    by (rule close_sn_quiet [OF c2, of m2]) blast
  have f: "datfd m2 = datfd m1" "mapfd m2 = mapfd m1" using same_handle_fields [OF m2] by simp_all
  have "fd_view w3 = (fd_view w2)(datfd m1 := None, mapfd m1 := None)"
    using w3(5) f by (auto simp: fd_view_def fun_eq_iff)
  also have "\<dots> = fd_view w"
    unfolding v2 using opened_fds(2) [OF res, symmetric] by (auto simp: fd_view_def fun_eq_iff)
  finally have "fd_view w3 = fd_view w" .
  moreover have "behind S R cs w w3" by (rule behind_trans [OF b2 behind_more [OF s2 w3(2,4,3,6)]])
  moreover have "P \<longrightarrow> saved n S cs w3" using P saved_tree [OF _ w3(3) more_fields(10) [OF w3(4)]] by blast
  ultimately show ?thesis using w3(1) by blast
qed

text \<open>The main file is opened for reading, and what is to be cut off is saved.\<close>

lemma otc_save:
  assumes res: "open_result S R cs (fresh m cs p w) w (Inr ()) m1 w1" and "good_path cs"
    and b1: "behind S R cs w w1" and "calm w2" and "tree w2 = tree w1"
    and main: "tree w1 (R @ cs) = Some (File bs)" "lookup w1 (R @ cs) = Some i"
    and fd: "get_fd w2 = (get_fd w1)(fd \<mapsto> \<lparr>of_ino = i, of_flags = fl, of_pos = 0\<rparr>)" "get_fd w1 fd = None"
    and "os.more w2 = os.more w1" and "lookup w2 = lookup w1"
  shows "\<exists>t m3 w3 u w4. b_truncate (m1\<lparr>mainfd := fd\<rparr>) n False w2 = Some ((t, m3), w3) \<and> sys_close (mainfd m3) w3 = (u, w4)
    \<and> same_handle (m1\<lparr>mainfd := fd\<rparr>) m3 \<and> behind S R cs w w4 \<and> fd_view w4 = fd_view w1
    \<and> (t = Inr () \<longrightarrow> saved n S cs w4)"
proof -
  let ?n = "m1\<lparr>mainfd := fd\<rparr>"
  have b2: "behind S R cs w w2"
    by (rule behind_trans [OF b1 behind_more [OF behind_settled [OF b1] assms(4,10,5,11)]])
  have at: "attached ?n cs S R w2"
    using attach_main [OF res fd_view_add [OF fd]] main assms(5,11) more_fields(7) [OF assms(10)]
      stays_lookup [OF assms(11)] same_header_tree [OF assms(5)] by simp
  obtain t m3 w3 where w3: "b_truncate ?n n False w2 = Some ((t, m3), w3)" "behind S R cs w2 w3"
      "fd_view w3 = fd_view w2" "same_handle ?n m3" "t = Inr () \<longrightarrow> saved n S cs w3"
    using cut_attached [OF behind_settled [OF b2] assms(2) at] by blast
  have s3: "settled S R w3" by (rule behind_settled [OF w3(2)])
  then have c3: "calm w3" by (simp add: settled_def latest_def)
  obtain u w4 where w4: "sys_close (mainfd m3) w3 = (u, w4)" "calm w4" "tree w4 = tree w3" "os.more w4 = os.more w3"
      "get_fd w4 = (get_fd w3)(mainfd m3 := None)" "lookup w4 = lookup w3"
    by (rule close_quiet [OF c3, of "mainfd m3"]) blast
  have "behind S R cs w w4"
    by (rule behind_trans [OF behind_trans [OF b2 w3(2)] behind_more [OF s3 w4(2,4,3,6)]])
  moreover have "fd_view w4 = (fd_view w3)(fd := None)"
    using w4(5) same_handle_fields(1) [OF w3(4)] by (auto simp: fd_view_def fun_eq_iff)
  then have "fd_view w4 = fd_view w1"
    unfolding w3(3) using fd by (auto simp: fd_view_def fun_eq_iff)
  moreover have "t = Inr () \<longrightarrow> saved n S cs w4"
    using w3(5) saved_tree [OF _ w4(3) more_fields(10) [OF w4(4)]] by blast
  ultimately show ?thesis using w3(1,4) w4(1) by blast
qed

lemma otc_calm:
  assumes "settled S R w" and "good_path cs" and "comps fpath = R @ cs" and "tree w (R @ cs) \<noteq> Some Dir"
    and "st_size garb < 2 ^ 64" and "length (sub_path [] cs) < 2 ^ 64"
  shows "\<exists>r w'. open_truncate_close garb (sub_path [] cs) fpath n w = Some (r, w') \<and> behind S R cs w w'
    \<and> fd_view w' = fd_view w \<and> (r = Inr () \<longrightarrow> saved n S cs w')"
proof -
  have c: "latest w S R" "sound (bl_slog w) (tree w) S R cs" using assms(1,2) by (auto simp: settled_def)
  let ?m = "fresh (mfd_garbage garb) cs fpath w"
  obtain r m1 w1 where o: "mfd_open_sn (mfd_garbage garb) (sub_path [] cs) (Some fpath) w = Some ((r, m1), w1)"
      "open_result S R cs ?m w r m1 w1"
    using open_sn_calm [OF c(1) assms(2) c(2) _ assms(3), of "Some fpath" "mfd_garbage garb"] assms(5,6)
    by (auto simp: mfd_garbage_def)
  have b1: "behind S R cs w w1" by (rule behind_open [OF assms(1,2) o(2)])
  have s1: "settled S R w1" by (rule behind_settled [OF b1])
  show ?thesis
  proof (cases r)
    case (Inl e)
    then have "get_fd w1 = get_fd w" using o(2) by (simp add: open_result_def)
    then show ?thesis using o(1) Inl b1 by (auto simp: open_truncate_close_def fd_view_def fun_eq_iff)
  next
    case (Inr u)
    then have res: "open_result S R cs ?m w (Inr ()) m1 w1" using o(2) by simp
    have c1: "calm w1" "is_main m1 = Mfd_main" "mapfd m1 \<noteq> MFD_FD_NOSN" "map_open m1 S cs w1"
      using res by (auto simp: open_result_def fresh_def)
    have same1: "same_handle (m1\<lparr>mainfd := mainfd m1\<rparr>) m1" by simp
    show ?thesis
    proof (cases "mh_exists (mapheader m1) = 0")
      case True
      then have "saved n S cs w1" by (intro saved_empty [OF c1(4)]) simp
      then obtain q w3 where "mfd_close_sn m1 w1 = (q, w3)" "behind S R cs w w3" "fd_view w3 = fd_view w" "saved n S cs w3"
        using otc_end [OF res same1 b1 refl, of True] by blast
      then show ?thesis using o(1) Inr True by (cases q) (auto simp: open_truncate_close_def)
    next
      case False
      have nd: "writable O_RDONLY \<or> tree w1 (comps fpath) \<noteq> Some Dir" using b1 assms(3,4) by (simp add: behind_def)
      have fl: "\<not> has_flag O_RDONLY O_CREAT" "\<not> has_flag O_RDONLY O_TRUNC" by (simp_all add: has_flag_def)
      from c1(1) fl nd show ?thesis
      proof (cases rule: open_existing [where md = 0])
        case (error e)
        have "main_at (tree w1) R cs = None" using error(2) assms(3) by (simp add: main_at_def)
        then have "saved n S cs w1" using map_open_layer [OF c1(4)] saved_missing [OF s1 assms(2)] by blast
        then obtain q w3 where "mfd_close_sn m1 w1 = (q, w3)" "behind S R cs w w3" "fd_view w3 = fd_view w" "saved n S cs w3"
          using otc_end [OF res same1 b1 refl, of True] by blast
        then show ?thesis using o(1) Inr False c1(3) error(1) by (auto simp: open_truncate_close_def)
      next
        case (found fd i bs w2)
        obtain t m3 w3 v w4 where s: "b_truncate (m1\<lparr>mainfd := fd\<rparr>) n False w2 = Some ((t, m3), w3)"
            "sys_close (mainfd m3) w3 = (v, w4)" "same_handle (m1\<lparr>mainfd := fd\<rparr>) m3" "behind S R cs w w4"
            "fd_view w4 = fd_view w1" "t = Inr () \<longrightarrow> saved n S cs w4"
          using otc_save [OF res assms(2) b1 found(2,3)] found(4-9) assms(3) by metis
        from otc_end [OF res s(3-6)]
        obtain q w5 where "mfd_close_sn m3 w4 = (q, w5)" "behind S R cs w w5" "fd_view w5 = fd_view w"
            "t = Inr () \<longrightarrow> saved n S cs w5"
          by blast
        then show ?thesis
          using o(1) Inr False c1(3) found(1) s(1,2) by (cases q) (auto simp: open_truncate_close_def)
      qed
    qed
  qed
qed

section \<open>Changing the main file\<close>

lemma evolves_cut:
  assumes "settled S R w" and "good_path cs" and "saved n S cs w" and "calm w'" and "os.more w' = os.more w"
    and "\<And>x. x \<noteq> R @ cs \<Longrightarrow> tree w' x = tree w x"
    and keep: "\<And>p. p < n \<Longrightarrow> p < length (bytes_of (main_at (tree w) R cs)) \<Longrightarrow>
      p < length (bytes_of (main_at (tree w') R cs)) \<and> bytes_of (main_at (tree w') R cs) ! p = bytes_of (main_at (tree w) R cs) ! p"
  shows "evolves S R w w'"
proof -
  note f = more_fields [OF assms(5)]
  obtain l where l: "layer_at (tree w) S cs = Some l"
      "\<And>sz p. layer_size (fst l) = Some sz \<Longrightarrow> n \<le> p \<Longrightarrow> p < sz \<Longrightarrow>
        layer_get (bl_slog w) l (p div 2 ^ bl_slog w) \<noteq> None"
    using assms(3) by (auto simp: saved_def)
  have "sound (bl_slog w) (tree w) S R cs" using assms(1,2) by (simp add: settled_def)
  then have cov: "p < length (bytes_of (main_at (tree w) R cs))"
    if "layer_size (fst l) = Some sz" "p < sz" "layer_get (bl_slog w) l (p div 2 ^ bl_slog w) = None" for sz p
    using that l(1) by (auto simp: sound_def layer_wf_def covered_def)
  show ?thesis
  proof (rule evolves_main [OF assms(1,2,4) _ fields_more [OF assms(5)] _ assms(6) l(1)])
    show "mflocks w' = table0" "length (block_buffer w') = BL_S w'"
      using assms(1) f(8,10,11) by (simp_all add: settled_def latest_def BL_S_def)
    fix sz p assume h: "layer_size (fst l) = Some sz" "p < sz" "layer_get (bl_slog w) l (p div 2 ^ bl_slog w) = None"
    then have "p < n" using l(2) [OF h(1)] by (metis not_le)
    then show "p < length (bytes_of (main_at (tree w') R cs))
        \<and> bytes_of (main_at (tree w') R cs) ! p = bytes_of (main_at (tree w) R cs) ! p"
      using keep cov [OF h] by blast
  qed
qed

text \<open>A directory made or removed in the main space.\<close>

lemma evolves_node:
  assumes "settled S R w" and "good_path cs" and "calm w'" and "os.more w' = os.more w"
    and same: "\<And>x. x \<noteq> R @ cs \<Longrightarrow> tree w' x = tree w x" and main: "main_at (tree w') R cs = main_at (tree w) R cs"
  shows "evolves S R w w'"
proof -
  note f = more_fields [OF assms(4)] and k = layer_keys [OF assms(1,2)]
  have l: "layer_at (tree w') S cs = layer_at (tree w) S cs" "paired (tree w') S cs = paired (tree w) S cs"
    using same [of "S @ map_key cs"] same [of "S @ dat_key cs"] k by (simp_all add: layer_at_def paired_def)
  show ?thesis
  proof (rule evolves_content [OF assms(1-3) _ fields_more [OF assms(4)]])
    show "mflocks w' = table0" "length (block_buffer w') = BL_S w'"
      using assms(1) f(8,10,11) by (simp_all add: settled_def latest_def BL_S_def)
    show "sound (bl_slog w) (tree w') S R cs" "shown S R w' cs = shown S R w cs"
      using assms(1,2) l main f(10) by (simp_all add: settled_def sound_def shown_def)
    show "tree w' x = tree w x" if "x \<noteq> R @ cs" for x by (rule same [OF that])
    show "tree w' x = tree w x \<or> (\<exists>a b. tree w x = Some (File a) \<and> tree w' x = Some (File b))"
      if "x = S @ map_key cs \<or> x = S @ dat_key cs" for x
      using that same [of x] k by metis
  qed
qed

section \<open>System calls on the main file\<close>

lemma unlink_quiet:
  fixes w :: world
  assumes "calm w"
  obtains r w' where "sys_unlink p w = (r, w')" and "calm w'" and "os.more w' = os.more w" and "get_fd w' = get_fd w"
    and "\<forall>x. x \<noteq> comps p \<longrightarrow> tree w' x = tree w x"
    and "tree w' (comps p) = tree w (comps p) \<or> tree w' (comps p) = None"
proof (cases "file_of (tree w (comps p))")
  case None
  have "resolve w (comps p) = Inr i \<Longrightarrow> is_dir w i" for i
    using None assms by (auto simp: file_of_def tree_def calm_def resolve_Inr split: if_splits)
  then have "\<exists>e. sys_unlink p w = (Inl e, w)"
    using assms by (auto simp: sys_unlink_def pop_calm Let_def split: sum.splits)
  then show ?thesis using that assms by blast
next
  case (Some bs)
  then have "tree w (comps p) = Some (File bs)" by (auto simp: file_of_def split: option.splits node.splits)
  then obtain w' where w': "sys_unlink p w = (Inr (), w')" "calm w'" "tree w' = (tree w)(comps p := None)" "rest w' = rest w"
      "\<forall>k. k \<noteq> comps p \<longrightarrow> lookup w' k = lookup w k"
    by (rule unlink_file [OF assms])
  then show ?thesis using that [OF w'(1,2)] rest_fields [OF w'(4)] by simp
qed

lemma truncate_quiet:
  fixes w :: world
  assumes "calm w"
  obtains (error) e where "sys_truncate p n w = (Inl e, w)"
  | (cut) bs w' where "sys_truncate p n w = (Inr (), w')" and "calm w'" and "os.more w' = os.more w"
    and "get_fd w' = get_fd w" and "tree w (comps p) = Some (File bs)"
    and "tree w' = (tree w)(comps p \<mapsto> File (resize_to bs n))"
proof (cases "resolve w (comps p)")
  case (Inl e)
  then show ?thesis using error assms by (auto simp: sys_truncate_def pop_calm)
next
  case (Inr i)
  show ?thesis
  proof (cases "is_dir w i \<or> n > MAX_OFF")
    case True
    then have "\<exists>e. sys_truncate p n w = (Inl e, w)" using assms Inr by (auto simp: sys_truncate_def pop_calm)
    then show ?thesis using error by blast
  next
    case False
    let ?w = "set_data i (resize_to (fdata w i) n) w"
    have l: "lookup w (comps p) = Some i" "os_wf w" using assms Inr by (simp_all add: calm_def resolve_Inr)
    have r: "sys_truncate p n w = (Inr (), ?w)" using False assms Inr by (simp add: sys_truncate_def pop_calm)
    have "calm ?w" using clm.sys_truncate_kept [OF r assms] .
    moreover have "tree w (comps p) = Some (File (fdata w i))" using l False by (auto simp: tree_File)
    ultimately show ?thesis using cut [OF r] tree_set_data [OF l(2,1)] False by simp
  qed
qed

section \<open>The requests\<close>

lemma main_only:
  assumes "rooted R w" and "good_path cs" and "length (sub_path [] cs) < 2 ^ 64"
  obtains (long) "if_path_main_only (sub_path [] cs) w = Inl ENAMETOOLONG"
  | (short) fpath where "if_path_main_only (sub_path [] cs) w = Inr fpath" and "comps fpath = R @ cs"
  using assms
proof (cases rule: main_route)
  case long
  then show ?thesis using main_path(1) [OF assms(2)] that(1) by (simp add: if_path_main_only_def)
next
  case (short fpath)
  then show ?thesis using main_path(1) [OF assms(2)] that(2) by (simp add: if_path_main_only_def)
qed

lemma unlink_harmless:
  assumes "settled S R w" and "good_path cs" and "tree w (R @ cs) \<noteq> Some Dir"
    and "st_size garb < 2 ^ 64" and "length (sub_path [] cs) < 2 ^ 64"
  shows "harmless S R (unlink_op garb (sub_path [] cs)) w"
  using settled_rooted [OF assms(1)] assms(2,5)
proof (cases rule: main_only)
  case long
  then show ?thesis using evolves_refl [OF assms(1)] by (simp add: unlink_op_def harmless_def)
next
  case (short fpath)
  obtain r w1 where w1: "open_truncate_close garb (sub_path [] cs) fpath 0 w = Some (r, w1)" "behind S R cs w w1"
      "fd_view w1 = fd_view w" "r = Inr () \<longrightarrow> saved 0 S cs w1"
    using otc_calm [OF assms(1,2) short(2) assms(3-5)] by blast
  have e1: "evolves S R w w1" using w1(2) by (simp add: behind_def)
  show ?thesis
  proof (cases r)
    case (Inl e)
    then show ?thesis using short(1) w1(1,3) e1 by (auto simp: unlink_op_def harmless_def)
  next
    case (Inr u)
    have s1: "settled S R w1" by (rule behind_settled [OF w1(2)])
    then have c1: "calm w1" by (simp add: settled_def latest_def)
    obtain q w2 where w2: "sys_unlink fpath w1 = (q, w2)" "calm w2" "os.more w2 = os.more w1" "get_fd w2 = get_fd w1"
        "\<forall>x. x \<noteq> comps fpath \<longrightarrow> tree w2 x = tree w1 x"
        "tree w2 (comps fpath) = tree w1 (comps fpath) \<or> tree w2 (comps fpath) = None"
      by (rule unlink_quiet [OF c1])
    have "evolves S R w1 w2"
      by (rule evolves_cut [OF s1 assms(2) _ w2(2,3)]) (use w1(4) Inr w2(5) short(2) in auto)
    then have "evolves S R w w2" by (rule evolves_trans [OF e1])
    moreover have "fd_view w2 = fd_view w" using w2(4) w1(3) by (simp add: fd_view_def fun_eq_iff)
    ultimately show ?thesis using short(1) w1(1) Inr w2(1) by (simp add: unlink_op_def harmless_def)
  qed
qed

lemma truncate_harmless:
  assumes "settled S R w" and "good_path cs" and "tree w (R @ cs) \<noteq> Some Dir"
    and "st_size garb < 2 ^ 64" and "length (sub_path [] cs) < 2 ^ 64"
  shows "harmless S R (truncate_op garb (sub_path [] cs) n) w"
  using settled_rooted [OF assms(1)] assms(2,5)
proof (cases rule: main_only)
  case long
  then show ?thesis using evolves_refl [OF assms(1)] by (simp add: truncate_op_def harmless_def)
next
  case (short fpath)
  obtain r w1 where w1: "open_truncate_close garb (sub_path [] cs) fpath n w = Some (r, w1)" "behind S R cs w w1"
      "fd_view w1 = fd_view w" "r = Inr () \<longrightarrow> saved n S cs w1"
    using otc_calm [OF assms(1,2) short(2) assms(3-5)] by blast
  have e1: "evolves S R w w1" using w1(2) by (simp add: behind_def)
  show ?thesis
  proof (cases r)
    case (Inl e)
    then show ?thesis using short(1) w1(1,3) e1 by (auto simp: truncate_op_def harmless_def)
  next
    case (Inr u)
    have s1: "settled S R w1" by (rule behind_settled [OF w1(2)])
    then have "calm w1" by (simp add: settled_def latest_def)
    then show ?thesis
    proof (cases rule: truncate_quiet [where p = fpath and n = n])
      case (error e)
      then show ?thesis using short(1) w1(1,3) e1 Inr by (simp add: truncate_op_def harmless_def)
    next
      case (cut bs w2)
      have m: "main_at (tree w1) R cs = Some bs" "main_at (tree w2) R cs = Some (resize_to bs n)"
        using cut(5,6) short(2) by (simp_all add: main_at_def file_of_def)
      have "evolves S R w1 w2"
        by (rule evolves_cut [OF s1 assms(2) _ cut(2,3)])
          (use w1(4) Inr cut(6) short(2) m in \<open>auto simp: resize_to_def nth_append\<close>)
      then have "evolves S R w w2" by (rule evolves_trans [OF e1])
      moreover have "fd_view w2 = fd_view w" using cut(4) w1(3) by (simp add: fd_view_def fun_eq_iff)
      ultimately show ?thesis using short(1) w1(1) Inr cut(1) by (simp add: truncate_op_def harmless_def)
    qed
  qed
qed

text \<open>Requests that only save the attributes of the file before a system call.\<close>

lemma init_calm:
  assumes "settled S R w" and "good_path cs" and "comps fpath = R @ cs"
    and "st_size garb < 2 ^ 64" and "length (sub_path [] cs) < 2 ^ 64"
  shows "\<exists>r w'. mfd_init_sn garb (sub_path [] cs) fpath w = Some (r, w') \<and> behind S R cs w w' \<and> fd_view w' = fd_view w"
proof -
  have c: "latest w S R" "sound (bl_slog w) (tree w) S R cs" using assms(1,2) by (auto simp: settled_def)
  obtain r m1 w1 where o: "mfd_open_sn (mfd_garbage garb) (sub_path [] cs) (Some fpath) w = Some ((r, m1), w1)"
      "open_result S R cs (fresh (mfd_garbage garb) cs fpath w) w r m1 w1"
    using open_sn_calm [OF c(1) assms(2) c(2) _ assms(3), of "Some fpath" "mfd_garbage garb"] assms(4,5)
    by (auto simp: mfd_garbage_def)
  have b1: "behind S R cs w w1" by (rule behind_open [OF assms(1,2) o(2)])
  show ?thesis
  proof (cases r)
    case (Inl e)
    then have "get_fd w1 = get_fd w" using o(2) by (simp add: open_result_def)
    then show ?thesis using o(1) Inl b1 by (simp add: mfd_init_sn_def fd_view_def fun_eq_iff)
  next
    case (Inr u)
    then have res: "open_result S R cs (fresh (mfd_garbage garb) cs fpath w) w (Inr ()) m1 w1" using o(2) by simp
    have "same_handle (m1\<lparr>mainfd := mainfd m1\<rparr>) m1" by simp
    from otc_end [OF res this b1 refl, of False] show ?thesis using o(1) Inr by (auto simp: mfd_init_sn_def)
  qed
qed

lemma init_harmless:
  assumes "settled S R w" and "good_path cs" and "comps fpath = R @ cs"
    and "st_size garb < 2 ^ 64" and "length (sub_path [] cs) < 2 ^ 64"
    and call: "\<And>w1. behind S R cs w w1 \<Longrightarrow> harmless S R (\<lambda>w. Some (f w)) w1"
  shows "harmless S R (\<lambda>w. do { (r, w) \<leftarrow> mfd_init_sn garb (sub_path [] cs) fpath w;
    case r of Inl e \<Rightarrow> Some (Inl e, w) | Inr _ \<Rightarrow> Some (f w) }) w"
proof -
  obtain r w1 where w1: "mfd_init_sn garb (sub_path [] cs) fpath w = Some (r, w1)" "behind S R cs w w1" "fd_view w1 = fd_view w"
    using init_calm [OF assms(1-5)] by blast
  have e1: "evolves S R w w1" using w1(2) by (simp add: behind_def)
  show ?thesis
  proof (cases r)
    case (Inl e)
    then show ?thesis using w1(1,3) e1 by (simp add: harmless_def)
  next
    case (Inr u)
    obtain q w2 where "f w1 = (q, w2)" "evolves S R w1 w2" "fd_view w2 = fd_view w1"
      using call [OF w1(2)] by (auto simp: harmless_def)
    then show ?thesis using w1(1,3) Inr evolves_trans [OF e1] by (simp add: harmless_def)
  qed
qed

lemma attr_quiet:
  fixes w :: world
  assumes "calm w" and "calm (w\<lparr>inodes := (inodes w)(i := x)\<rparr>)" and "i_data x = i_data (inodes w i)"
    and "i_mode x AND S_IFMT = i_mode (inodes w i) AND S_IFMT"
  shows "tree (w\<lparr>inodes := (inodes w)(i := x)\<rparr>) = tree w"
proof -
  have "is_dir (w\<lparr>inodes := (inodes w)(i := x)\<rparr>) j = is_dir w j" "fdata (w\<lparr>inodes := (inodes w)(i := x)\<rparr>) j = fdata w j" for j
    using assms(3,4) by (simp_all add: is_dir_def S_ISDIR_def fdata_def)
  then show ?thesis by (simp add: tree_def lookup_def fun_eq_iff cong: if_cong)
qed

lemma chmod_quiet:
  fixes w :: world
  assumes "calm w"
  obtains r w' where "sys_chmod p md w = (r, w')" and "calm w'" and "os.more w' = os.more w" and "get_fd w' = get_fd w"
    and "tree w' = tree w"
proof (cases "resolve w (comps p)")
  case (Inl e)
  then show ?thesis using that assms by (simp add: sys_chmod_def pop_calm)
next
  case (Inr i)
  let ?x = "(inodes w i)\<lparr>i_mode := (i_mode (inodes w i) AND S_IFMT) OR (md AND NOT S_IFMT)\<rparr>"
  let ?w = "w\<lparr>inodes := (inodes w)(i := ?x)\<rparr>"
  have r: "sys_chmod p md w = (Inr (), ?w)" using Inr assms by (simp add: sys_chmod_def pop_calm)
  have c: "calm ?w" by (rule clm.sys_chmod_kept [OF r assms])
  have "tree ?w = tree w" by (rule attr_quiet [OF assms c]) (use mode_type [of "i_mode (inodes w i)" S_IFMT md] in simp_all)
  then show ?thesis using that r c by (simp add: get_fd_def fun_eq_iff)
qed

lemma chown_quiet:
  fixes w :: world
  assumes "calm w"
  obtains r w' where "sys_chown p u g w = (r, w')" and "calm w'" and "os.more w' = os.more w" and "get_fd w' = get_fd w"
    and "tree w' = tree w"
proof (cases "resolve w (comps p)")
  case (Inl e)
  then show ?thesis using that assms by (simp add: sys_chown_def pop_calm)
next
  case (Inr i)
  let ?x = "(inodes w i)\<lparr>i_uid := (if u = -1 then i_uid (inodes w i) else u),
    i_gid := (if g = -1 then i_gid (inodes w i) else g)\<rparr>"
  let ?w = "w\<lparr>inodes := (inodes w)(i := ?x)\<rparr>"
  have r: "sys_chown p u g w = (Inr (), ?w)" using Inr assms by (simp add: sys_chown_def pop_calm)
  have c: "calm ?w" by (rule clm.sys_chown_kept [OF r assms])
  have "tree ?w = tree w" by (rule attr_quiet [OF assms c]) simp_all
  then show ?thesis using that r c by (simp add: get_fd_def fun_eq_iff)
qed

lemma more_harmless:
  assumes "settled S R w" and "f w = (r, w')" and "calm w'" and "os.more w' = os.more w" and "get_fd w' = get_fd w"
    and "tree w' = tree w"
  shows "harmless S R (\<lambda>w. Some (f w)) w"
  using assms(2,5) evolves_more [OF assms(1,3,4,6)] by (simp add: harmless_def fd_view_def fun_eq_iff)

lemma settled_calm: "settled S R w \<Longrightarrow> calm w"
  by (simp add: settled_def latest_def)

lemma chmod_harmless:
  assumes "settled S R w" and "good_path cs" and "st_size garb < 2 ^ 64" and "length (sub_path [] cs) < 2 ^ 64"
  shows "harmless S R (chmod_op garb (sub_path [] cs) md) w"
  using settled_rooted [OF assms(1)] assms(2,4)
proof (cases rule: main_only)
  case long
  then show ?thesis using evolves_refl [OF assms(1)] by (simp add: chmod_op_def harmless_def)
next
  case (short fpath)
  have "harmless S R (\<lambda>w. Some (sys_chmod fpath md w)) w1" if "behind S R cs w w1" for w1
    using chmod_quiet [OF settled_calm [OF behind_settled [OF that]], of fpath md]
      more_harmless [OF behind_settled [OF that], of "sys_chmod fpath md"] by metis
  from init_harmless [OF assms(1,2) short(2) assms(3,4) this] show ?thesis
    using short(1) by (simp add: chmod_op_def harmless_def)
qed

lemma chown_harmless:
  assumes "settled S R w" and "good_path cs" and "st_size garb < 2 ^ 64" and "length (sub_path [] cs) < 2 ^ 64"
  shows "harmless S R (chown_op garb (sub_path [] cs) u g) w"
  using settled_rooted [OF assms(1)] assms(2,4)
proof (cases rule: main_only)
  case long
  then show ?thesis using evolves_refl [OF assms(1)] by (simp add: chown_op_def harmless_def)
next
  case (short fpath)
  have "harmless S R (\<lambda>w. Some (sys_chown fpath u g w)) w1" if "behind S R cs w w1" for w1
    using chown_quiet [OF settled_calm [OF behind_settled [OF that]], of fpath u g]
      more_harmless [OF behind_settled [OF that], of "sys_chown fpath u g"] by metis
  from init_harmless [OF assms(1,2) short(2) assms(3,4) this] show ?thesis
    using short(1) by (simp add: chown_op_def harmless_def)
qed

lemma mkdir_quiet:
  fixes w :: world
  assumes "calm w"
  obtains r w' where "sys_mkdir p md w = (r, w')" and "calm w'" and "os.more w' = os.more w" and "get_fd w' = get_fd w"
    and "\<forall>x. x \<noteq> comps p \<longrightarrow> tree w' x = tree w x" and "file_of (tree w' (comps p)) = file_of (tree w (comps p))"
proof (cases "resolve w (comps p) = Inl ENOENT \<and> parent_dir w (comps p) = Inr ()")
  case True
  have wf: "os_wf w" using assms by (simp add: calm_def)
  have n: "tree w (comps p) = None" using resolve_Inl [OF wf] True by (auto simp: tree_None)
  have "tree w (butlast (comps p)) = Some Dir" using True by (auto simp: parent_dir_Inr [OF wf] tree_Dir)
  from n this obtain w' where w': "sys_mkdir p md w = (Inr (), w')" "calm w'" "tree w' = (tree w)(comps p \<mapsto> Dir)" "rest w' = rest w"
      "\<forall>k. k \<noteq> comps p \<longrightarrow> lookup w' k = lookup w k"
    by (rule mkdir_new [OF assms])
  then show ?thesis using that [OF w'(1,2)] rest_fields [OF w'(4)] n by (simp add: file_of_def)
next
  case False
  then have "\<exists>e. sys_mkdir p md w = (Inl e, w)"
    using assms by (auto simp: sys_mkdir_def pop_calm Let_def split: sum.splits)
  then show ?thesis using that assms by blast
qed

lemma rmdir_quiet:
  fixes w :: world
  assumes "calm w"
  obtains r w' where "sys_rmdir p w = (r, w')" and "calm w'" and "os.more w' = os.more w" and "get_fd w' = get_fd w"
    and "\<forall>x. x \<noteq> comps p \<longrightarrow> tree w' x = tree w x" and "file_of (tree w' (comps p)) = file_of (tree w (comps p))"
proof (cases "resolve w (comps p)")
  case (Inl e)
  then show ?thesis using that assms by (simp add: sys_rmdir_def pop_calm)
next
  case (Inr i)
  show ?thesis
  proof (cases "comps p = [] \<or> \<not> is_dir w i \<or> children w (comps p) \<noteq> []")
    case True
    then have "\<exists>e. sys_rmdir p w = (Inl e, w)" using Inr assms by (auto simp: sys_rmdir_def pop_calm Let_def)
    then show ?thesis using that assms by blast
  next
    case False
    then have r: "sys_rmdir p w = (Inr (), del_node (comps p) w)" using Inr assms by (simp add: sys_rmdir_def pop_calm)
    moreover have "tree w (comps p) = Some Dir" using Inr False assms by (auto simp: tree_Dir calm_def resolve_Inr)
    moreover have "os.more (del_node (comps p) w) = os.more w" by (simp add: del_node_def)
    ultimately show ?thesis
      using that [OF r clm.sys_rmdir_kept [OF r assms]] by (simp add: tree_del_node file_of_def)
  qed
qed

lemma node_harmless:
  assumes "settled S R w" and "good_path cs" and "comps p = R @ cs" and "f w = (r, w')" and "calm w'"
    and "os.more w' = os.more w" and "get_fd w' = get_fd w" and "\<forall>x. x \<noteq> comps p \<longrightarrow> tree w' x = tree w x"
    and "file_of (tree w' (comps p)) = file_of (tree w (comps p))"
  shows "harmless S R (\<lambda>w. Some (f w)) w"
proof -
  have "evolves S R w w'"
    by (rule evolves_node [OF assms(1,2,5,6)]) (use assms(3,8,9) in \<open>simp_all add: main_at_def\<close>)
  then show ?thesis using assms(4,7) by (simp add: harmless_def fd_view_def fun_eq_iff)
qed

lemma main_space:
  assumes "rooted R w" and "good_path cs" and "length (sub_path [] cs) < 2 ^ 64"
  obtains (long) "if_path_sn (sub_path [] cs) w = (Inl ENAMETOOLONG, w)"
  | (short) fpath where "if_path_sn (sub_path [] cs) w = (Inr (Main_space fpath), w)" and "comps fpath = R @ cs"
  using assms
proof (cases rule: main_route)
  case long
  then show ?thesis using that(1) by (simp add: if_path_sn_def)
next
  case (short fpath)
  then show ?thesis using main_path(1) [OF assms(2)] that(2) by (simp add: if_path_sn_def)
qed

lemma mkdir_harmless:
  assumes "settled S R w" and "good_path cs" and "st_size garb < 2 ^ 64" and "length (sub_path [] cs) < 2 ^ 64"
  shows "harmless S R (mkdir_op garb (sub_path [] cs) md) w"
  using settled_rooted [OF assms(1)] assms(2,4)
proof (cases rule: main_space)
  case long
  then show ?thesis using evolves_refl [OF assms(1)] by (simp add: mkdir_op_def harmless_def)
next
  case (short fpath)
  have "harmless S R (\<lambda>w. Some (sys_mkdir fpath md w)) w1" if "behind S R cs w w1" for w1
  proof -
    have s1: "settled S R w1" by (rule behind_settled [OF that])
    obtain r w2 where "sys_mkdir fpath md w1 = (r, w2)" "calm w2" "os.more w2 = os.more w1" "get_fd w2 = get_fd w1"
        "\<forall>x. x \<noteq> comps fpath \<longrightarrow> tree w2 x = tree w1 x" "file_of (tree w2 (comps fpath)) = file_of (tree w1 (comps fpath))"
      by (rule mkdir_quiet [OF settled_calm [OF s1]])
    then show ?thesis by (rule node_harmless [OF s1 assms(2) short(2)])
  qed
  from init_harmless [OF assms(1,2) short(2) assms(3,4) this] show ?thesis
    using short(1) by (simp add: mkdir_op_def harmless_def)
qed

lemma rmdir_harmless:
  assumes "settled S R w" and "good_path cs" and "length (sub_path [] cs) < 2 ^ 64"
  shows "harmless S R (rmdir_op (sub_path [] cs)) w"
  using settled_rooted [OF assms(1)] assms(2,3)
proof (cases rule: main_space)
  case long
  then show ?thesis using evolves_refl [OF assms(1)] by (simp add: rmdir_op_def harmless_def)
next
  case (short fpath)
  obtain r w2 where "sys_rmdir fpath w = (r, w2)" "calm w2" "os.more w2 = os.more w" "get_fd w2 = get_fd w"
      "\<forall>x. x \<noteq> comps fpath \<longrightarrow> tree w2 x = tree w x" "file_of (tree w2 (comps fpath)) = file_of (tree w (comps fpath))"
    by (rule rmdir_quiet [OF settled_calm [OF assms(1)]])
  then have "harmless S R (\<lambda>w. Some (sys_rmdir fpath w)) w" by (rule node_harmless [OF assms(1,2) short(2)])
  then show ?thesis using short(1) by (simp add: rmdir_op_def harmless_def)
qed

section \<open>Creating a file\<close>

lemma create_open:
  fixes w :: world
  assumes "calm w" and "has_flag fl O_CREAT" and "has_flag fl O_TRUNC"
  obtains (error) e where "sys_open p fl md w = (Inl e, w)"
  | (made) fd i w' where "sys_open p fl md w = (Inr fd, w')" and "calm w'" and "tree w' = (tree w)(comps p \<mapsto> File [])"
    and "lookup w' (comps p) = Some i" and "stays w w'" and "os.more w' = os.more w" and "get_fd w fd = None"
    and "get_fd w' = (get_fd w)(fd \<mapsto> \<lparr>of_ino = i, of_flags = fl, of_pos = 0\<rparr>)"
proof (cases "resolve w (comps p)")
  case (Inl e)
  have wf: "os_wf w" using assms(1) by (simp add: calm_def)
  have n: "tree w (comps p) = None" using resolve_Inl [OF wf Inl] by (auto simp: tree_None)
  show ?thesis
  proof (cases "e = ENOENT \<and> parent_dir w (comps p) = Inr ()")
    case True
    then have "tree w (butlast (comps p)) = Some Dir" by (auto simp: parent_dir_Inr [OF wf] tree_Dir)
    then obtain fd i w' where o: "sys_open p fl md w = (Inr fd, w')" "calm w'" "tree w' = (tree w)(comps p \<mapsto> File [])"
        "lookup w' (comps p) = Some i" "get_fd w' = (get_fd w)(fd \<mapsto> \<lparr>of_ino = i, of_flags = fl, of_pos = 0\<rparr>)"
        "get_fd w fd = None" "os.more w' = os.more w" "lookup w' = (lookup w)(comps p \<mapsto> i)"
      by (rule open_new [OF assms(1) n _ assms(2)])
    then show ?thesis using made [OF o(1-4) _ o(7,6,5)] n by (simp add: stays_def)
  next
    case False
    then have "\<exists>e. sys_open p fl md w = (Inl e, w)"
      using Inl assms(1) by (auto simp: sys_open_def pop_calm Let_def split: sum.splits)
    then show ?thesis using error by blast
  qed
next
  case (Inr i)
  have l: "lookup w (comps p) = Some i" using Inr assms(1) by (simp add: calm_def resolve_Inr)
  show ?thesis
  proof (cases "is_dir w i \<or> has_flag fl O_EXCL")
    case True
    then have "\<exists>e. sys_open p fl md w = (Inl e, w)"
      using Inr assms(1,2) by (auto simp: sys_open_def pop_calm Let_def)
    then show ?thesis using error by blast
  next
    case False
    then have t: "tree w (comps p) = Some (File (fdata w i))" using l by (auto simp: tree_File)
    obtain fd j w' where o: "sys_open p fl md w = (Inr fd, w')" "calm w'"
        "tree w' = (tree w)(comps p \<mapsto> File (if has_flag fl O_TRUNC then [] else fdata w i))" "lookup w' (comps p) = Some j"
        "get_fd w' = (get_fd w)(fd \<mapsto> \<lparr>of_ino = j, of_flags = fl, of_pos = 0\<rparr>)" "get_fd w fd = None"
        "os.more w' = os.more w" "lookup w' = lookup w"
      by (rule open_file [OF assms(1) t, of fl md]) (use False in simp)
    then show ?thesis using made [OF o(1,2) _ o(4) _ o(7,6,5)] assms(3) by (simp add: stays_def)
  qed
qed

text \<open>Before the file is made or emptied, the layer has all of it.\<close>

lemma create_save:
  assumes res: "open_result S R cs (fresh m cs p w) w (Inr ()) m1 w1" and "good_path cs" and b1: "behind S R cs w w1"
    and "comps fpath = R @ cs" and "tree w (R @ cs) \<noteq> Some Dir" and "st_size garb < 2 ^ 64" and "length (sub_path [] cs) < 2 ^ 64"
  shows "\<exists>r w2. (if mapfd m1 \<ge> 0 \<and> mh_exists (mapheader m1) = 1 then open_truncate_close garb (sub_path [] cs) fpath 0 w1
      else Some (Inr (), w1)) = Some (r, w2)
    \<and> behind S R cs w1 w2 \<and> fd_view w2 = fd_view w1 \<and> (r = Inr () \<longrightarrow> saved 0 S cs w2)"
proof -
  have s1: "settled S R w1" by (rule behind_settled [OF b1])
  have m: "map_open m1 S cs w1" "header_ok (mapheader m1)" "0 \<le> mapfd m1" using res by (auto simp: open_result_def)
  show ?thesis
  proof (cases "mh_exists (mapheader m1) = 1")
    case True
    have "tree w1 (R @ cs) \<noteq> Some Dir" using b1 assms(5) by (simp add: behind_def)
    from otc_calm [OF s1 assms(2,4) this assms(6,7)] show ?thesis using True m(3) by simp
  next
    case False
    then have "mh_exists (mapheader m1) = 0" using m(2) by (auto simp: header_ok_def)
    then have "saved 0 S cs w1" by (intro saved_empty [OF m(1)]) simp
    then show ?thesis using False behind_refl [OF s1] by simp
  qed
qed

lemma create_calm:
  assumes "settled S R w" and "good_path cs" and "comps fpath = R @ cs" and "tree w (R @ cs) \<noteq> Some Dir"
    and "st_size garb < 2 ^ 64" and "length (sub_path [] cs) < 2 ^ 64"
    and o: "mfd_open_sn (mfd_garbage garb) (sub_path [] cs) (Some fpath) w = Some ((Inr (), m1), w1)"
    and res: "open_result S R cs (fresh (mfd_garbage garb) cs fpath w) w (Inr ()) m1 w1"
  shows "\<exists>r mo w'. create_main garb (sub_path [] cs) fpath flags md m1 w1 = Some ((r, mo), w') \<and> evolves S R w w'
    \<and> (case mo of None \<Rightarrow> fd_view w' = fd_view w | Some m \<Rightarrow> attached m cs S R w' \<and> detached m w' = fd_view w)"
proof -
  let ?fl = "flags OR O_CREAT OR O_TRUNC"
  have b1: "behind S R cs w w1" by (rule behind_open [OF assms(1,2) res])
  obtain r w2 where w2: "(if mapfd m1 \<ge> 0 \<and> mh_exists (mapheader m1) = 1
        then open_truncate_close garb (sub_path [] cs) fpath 0 w1 else Some (Inr (), w1)) = Some (r, w2)"
      "behind S R cs w1 w2" "fd_view w2 = fd_view w1" "r = Inr () \<longrightarrow> saved 0 S cs w2"
    using create_save [OF res assms(2) b1 assms(3-6)] by blast
  have b2: "behind S R cs w w2" by (rule behind_trans [OF b1 w2(2)])
  have s2: "settled S R w2" by (rule behind_settled [OF b2])
  have e2: "evolves S R w w2" using b2 by (simp add: behind_def)
  have same1: "same_handle (m1\<lparr>mainfd := mainfd m1\<rparr>) m1" by simp
  have closed: "\<exists>q w3. mfd_close_sn m1 w2 = (q, w3) \<and> evolves S R w w3 \<and> fd_view w3 = fd_view w"
    using otc_end [OF res same1 b2 w2(3), of False] by (auto simp: behind_def)
  show ?thesis
  proof (cases r)
    case (Inl e)
    then show ?thesis using closed w2(1) by (auto simp: create_main_def)
  next
    case (Inr u)
    have fl: "has_flag ?fl O_CREAT" "has_flag ?fl O_TRUNC" by (simp_all add: has_flag_def bit.conj_disj_distrib2)
    have main: "is_main m1 = Mfd_main" using res by (auto simp: open_result_def fresh_def)
    from settled_calm [OF s2] fl show ?thesis
    proof (cases rule: create_open [where p = fpath and md = md])
      case (error e)
      then show ?thesis using closed w2(1) Inr by (auto simp: create_main_def)
    next
      case (made fd i w3)
      have m3: "main_at (tree w3) R cs = Some []" using made(3) assms(3) by (simp add: main_at_def file_of_def)
      have "evolves S R w2 w3"
        by (rule evolves_cut [OF s2 assms(2) _ made(2,6)]) (use w2(4) Inr made(3) assms(3) in auto)
      then have "evolves S R w w3" by (rule evolves_trans [OF e2])
      moreover have "same_header S cs w2 w3"
        using made(3) assms(3) layer_keys [OF s2 assms(2)] by (simp add: same_header_def)
      then have h: "same_header S cs w1 w3" using w2(2) same_header_trans by (auto simp: behind_def)
      have st: "stays w1 w3" using w2(2) stays_trans [OF _ made(5)] by (auto simp: behind_def)
      have sn: "sn_number w3 = sn_number w1"
        using more_fields(7) [OF made(6)] evolves_fields(4) [of S R w1 w2] w2(2) by (simp add: behind_def)
      have "attached (m1\<lparr>mainfd := fd\<rparr>) cs S R w3 \<and> detached (m1\<lparr>mainfd := fd\<rparr>) w3 = fd_view w"
        using attach_main [OF res _ _ _ _ sn st h] fd_view_add [OF made(8,7)] w2(3) made(3,4) assms(3) by simp
      moreover have "m1\<lparr>mainfd := fd, is_main := Mfd_main\<rparr> = m1\<lparr>mainfd := fd\<rparr>" using main by simp
      ultimately show ?thesis using w2(1) Inr made(1) by (simp add: create_main_def)
    qed
  qed
qed

lemma create_harmless:
  assumes "settled S R w" and "good_path cs" and "tree w (R @ cs) \<noteq> Some Dir" and "st_size garb < 2 ^ 64"
    and "length (sub_path [] cs) < 2 ^ 64"
  shows "harmless S R (\<lambda>w. session (create_op garb (sub_path [] cs) md flags w) xs) w"
  using settled_rooted [OF assms(1)] assms(2,5)
proof (cases rule: main_only)
  case long
  then show ?thesis using evolves_refl [OF assms(1)] by (simp add: create_op_def session_def harmless_def)
next
  case (short fpath)
  have c: "calm w" "latest w S R" "sound (bl_slog w) (tree w) S R cs"
    using assms(1,2) by (auto simp: settled_def latest_def)
  obtain r m1 w1 where o: "mfd_open_sn (mfd_garbage garb) (sub_path [] cs) (Some fpath) w = Some ((r, m1), w1)"
      "open_result S R cs (fresh (mfd_garbage garb) cs fpath w) w r m1 w1"
    using open_sn_calm [OF c(2) assms(2) c(3) _ short(2), of "Some fpath" "mfd_garbage garb"] assms(4,5)
    by (auto simp: mfd_garbage_def)
  show ?thesis
  proof (cases r)
    case (Inl e)
    then have "get_fd w1 = get_fd w" using o(2) by (simp add: open_result_def)
    then show ?thesis
      using short(1) o(1) Inl c(1) evolves_open [OF assms(1,2) o(2)]
      by (simp add: create_op_def session_def harmless_def fd_view_def fun_eq_iff)
  next
    case (Inr u)
    then have "mfd_open_sn (mfd_garbage garb) (sub_path [] cs) (Some fpath) w = Some ((Inr (), m1), w1)"
        "open_result S R cs (fresh (mfd_garbage garb) cs fpath w) w (Inr ()) m1 w1"
      using o by simp_all
    from create_calm [OF assms(1,2) short(2) assms(3-5) this]
    obtain q mo w2 where "create_main garb (sub_path [] cs) fpath flags md m1 w1 = Some ((q, mo), w2)" "evolves S R w w2"
        "case mo of None \<Rightarrow> fd_view w2 = fd_view w | Some m \<Rightarrow> attached m cs S R w2 \<and> detached m w2 = fd_view w"
      by blast
    then show ?thesis
      using short(1) o(1) Inr c(1) by (intro session_harmless [OF assms(2)]) (simp_all add: create_op_def)
  qed
qed

lemma lookup_quiet: "calm w \<Longrightarrow> \<exists>r. sys_lookup p w = (r, w)"
  by (auto simp: sys_lookup_def pop_calm split: sum.splits)

lemma utimens_harmless:
  assumes "settled S R w" and "good_path cs" and "st_size garb < 2 ^ 64" and "length (sub_path [] cs) < 2 ^ 64"
  shows "harmless S R (utimens_op save garb (sub_path [] cs)) w"
  using settled_rooted [OF assms(1)] assms(2,4)
proof (cases rule: main_only)
  case long
  then show ?thesis using evolves_refl [OF assms(1)] by (simp add: utimens_op_def harmless_def)
next
  case (short fpath)
  have call: "harmless S R (\<lambda>w. Some (sys_lookup fpath w)) w1" if "settled S R w1" for w1
    using lookup_quiet [OF settled_calm [OF that], of fpath] evolves_refl [OF that] by (auto simp: harmless_def)
  show ?thesis
  proof (cases save)
    case True
    from init_harmless [OF assms(1,2) short(2) assms(3,4) call [OF behind_settled]] show ?thesis
      using short(1) True by (simp add: utimens_op_def harmless_def)
  next
    case False
    then show ?thesis using short(1) call [OF assms(1)] by (simp add: utimens_op_def harmless_def)
  qed
qed

section \<open>Without snapshots\<close>

definition bare :: "string list \<Rightarrow> world \<Rightarrow> bool" where
  "bare R w \<longleftrightarrow> calm w \<and> mflocks w = table0 \<and> \<not> sn_is_any w \<and> length (block_buffer w) = BL_S w \<and> rooted R w"

definition untouched :: "string list \<Rightarrow> (world \<Rightarrow> ('a \<times> world) option) \<Rightarrow> world \<Rightarrow> bool" where
  "untouched R f w \<longleftrightarrow> (\<exists>r w'. f w = Some (r, w') \<and> bare R w' \<and> fields w' = fields w
     \<and> (\<forall>x. prefix (R @ [''snapshots'']) x \<longrightarrow> tree w' x = tree w x))"

lemma bare_calm: "bare R w \<Longrightarrow> calm w"
  by (simp add: bare_def)

lemma bare_more:
  assumes "bare R w" and "calm w'" and "os.more w' = os.more w"
  shows "bare R w'" "fields w' = fields w"
  using assms more_fields [OF assms(3)] fields_more [OF assms(3)] by (simp_all add: bare_def rooted_def BL_S_def)

lemma untouchedI:
  assumes "bare R w" and "good_path cs" and "f w = Some (r, w')" and "calm w'" and "os.more w' = os.more w"
    and "\<And>x. x \<noteq> R @ cs \<Longrightarrow> tree w' x = tree w x"
  shows "untouched R f w"
proof -
  have "tree w' x = tree w x" if "prefix (R @ [''snapshots'']) x" for x
    by (rule assms(6)) (use that not_below [OF assms(2), of R "[]"] in auto)
  then show ?thesis using assms(3) bare_more [OF assms(1,4,5)] by (auto simp: untouched_def)
qed

lemma bare_open_sn:
  assumes "bare R w"
  shows "mfd_open_sn m (sub_path [] cs) (Some fpath) w =
    Some ((Inr (), (fresh m cs fpath w)\<lparr>mapfd := MFD_FD_NOSN, datfd := MFD_FD_NOSN\<rparr>), w)"
  using assms by (simp add: bare_def mfd_open_sn_def fresh_def)

lemma bare_init: "bare R w \<Longrightarrow> mfd_init_sn garb (sub_path [] cs) fpath w = Some (Inr (), w)"
  by (simp add: mfd_init_sn_def bare_open_sn mfd_close_sn_def close_if_def)

lemma bare_otc: "bare R w \<Longrightarrow> open_truncate_close garb (sub_path [] cs) fpath n w = Some (Inr (), w)"
  by (simp add: open_truncate_close_def bare_open_sn mfd_close_sn_def close_if_def)

lemma bare_rooted: "bare R w \<Longrightarrow> rooted R w"
  by (simp add: bare_def)

lemma bare_session:
  assumes "bare R w" and "good_path cs" and f: "f w = Some ((r, Some m), w1)" and "calm w1" and "os.more w1 = os.more w"
    and "\<And>x. x \<noteq> R @ cs \<Longrightarrow> tree w1 x = tree w x" and "datfd m < 0" and "mfd_sn_number m = sn_number w"
    and "is_main m = Mfd_main" and "fd_view w1 (mainfd m) = Some (i, fl)" and "lookup w1 (R @ cs) = Some i"
  shows "untouched R (\<lambda>w. session (f w) xs) w"
proof -
  have n: "no_short w1" "mfd_sn_number m = sn_number w1" "os_wf w1"
    using assms(4,8) more_fields(7) [OF assms(5)] by (simp_all add: calm_def no_short_def)
  obtain w2 where w2: "run_ops xs m w1 = Some (m, w2)" "frame {i} w1 w2" "os.more w2 = os.more w1"
    using run_ops_idle [OF assms(7) n(2) assms(9) n(1) assms(10)] by blast
  have c2: "calm w2" by (rule run_ops_kept [OF w2(1) assms(4)])
  obtain q w3 where w3: "release_op m w2 = (q, w3)" "calm w3" "tree w3 = tree w2" "os.more w3 = os.more w2"
    by (rule release_calm [OF c2 assms(9)]) blast
  have "tree w2 x = tree w1 x" if "x \<noteq> R @ cs" for x
    by (rule frame_tree(1) [OF w2(2)]) (use that assms(11) lookup_inj [OF n(3) assms(11), of x] in auto)
  then have "tree w3 x = tree w x" if "x \<noteq> R @ cs" for x using assms(6) [OF that] w3(3) that by simp
  moreover have "session (f w) xs = Some (q, w3)" "os.more w3 = os.more w"
    using f w2(1,3) w3(1,4) assms(5) by (simp_all add: session_def)
  ultimately show ?thesis using untouchedI [OF assms(1,2) _ w3(2), of "\<lambda>w. session (f w) xs" q] by blast
qed

lemma bare_call:
  assumes "bare R w" and "good_path cs" and "calm w'" and "os.more w' = os.more w" and "comps p = R @ cs"
    and "\<forall>x. x \<noteq> comps p \<longrightarrow> tree w' x = tree w x" and "f w = Some (r, w')"
  shows "untouched R f w"
  using untouchedI [OF assms(1,2), of f r w'] assms(3-7) by simp

lemma bare_error:
  assumes "bare R w" and "case f w of None \<Rightarrow> False | Some z \<Rightarrow> snd z = w"
  shows "untouched R f w"
  using assms by (auto simp: untouched_def split: option.splits)

lemma unlink_bare:
  assumes "bare R w" and "good_path cs" and "length (sub_path [] cs) < 2 ^ 64"
  shows "untouched R (unlink_op garb (sub_path [] cs)) w"
  using bare_rooted [OF assms(1)] assms(2,3)
proof (cases rule: main_only)
  case long
  then show ?thesis by (intro bare_error [OF assms(1)]) (simp add: unlink_op_def)
next
  case (short fpath)
  obtain q w2 where w2: "sys_unlink fpath w = (q, w2)" "calm w2" "os.more w2 = os.more w"
      "\<forall>x. x \<noteq> comps fpath \<longrightarrow> tree w2 x = tree w x"
    by (rule unlink_quiet [OF bare_calm [OF assms(1)]]) blast
  show ?thesis
    by (rule bare_call [OF assms(1,2) w2(2,3) short(2), of _ q]) (use w2 short(1) bare_otc [OF assms(1)] in \<open>simp_all add: unlink_op_def\<close>)
qed

lemma truncate_bare:
  assumes "bare R w" and "good_path cs" and "length (sub_path [] cs) < 2 ^ 64"
  shows "untouched R (truncate_op garb (sub_path [] cs) n) w"
  using bare_rooted [OF assms(1)] assms(2,3)
proof (cases rule: main_only)
  case long
  then show ?thesis by (intro bare_error [OF assms(1)]) (simp add: truncate_op_def)
next
  case (short fpath)
  have t: "truncate_op garb (sub_path [] cs) n w = Some (sys_truncate fpath n w)"
    using short(1) bare_otc [OF assms(1)] by (simp add: truncate_op_def)
  from bare_calm [OF assms(1)] show ?thesis
  proof (cases rule: truncate_quiet [where p = fpath and n = n])
    case (error e)
    then show ?thesis using t by (intro bare_error [OF assms(1)]) simp
  next
    case (cut bs w2)
    then show ?thesis by (intro bare_call [OF assms(1,2) cut(2,3) short(2), of _ "Inr ()"]) (simp_all add: t)
  qed
qed

lemma chmod_bare:
  assumes "bare R w" and "good_path cs" and "length (sub_path [] cs) < 2 ^ 64"
  shows "untouched R (chmod_op garb (sub_path [] cs) md) w"
  using bare_rooted [OF assms(1)] assms(2,3)
proof (cases rule: main_only)
  case long
  then show ?thesis by (intro bare_error [OF assms(1)]) (simp add: chmod_op_def)
next
  case (short fpath)
  obtain q w2 where w2: "sys_chmod fpath md w = (q, w2)" "calm w2" "os.more w2 = os.more w" "tree w2 = tree w"
    by (rule chmod_quiet [OF bare_calm [OF assms(1)]]) blast
  show ?thesis
    by (rule bare_call [OF assms(1,2) w2(2,3) short(2), of _ q]) (use w2 short(1) bare_init [OF assms(1)] in \<open>simp_all add: chmod_op_def\<close>)
qed

lemma chown_bare:
  assumes "bare R w" and "good_path cs" and "length (sub_path [] cs) < 2 ^ 64"
  shows "untouched R (chown_op garb (sub_path [] cs) u g) w"
  using bare_rooted [OF assms(1)] assms(2,3)
proof (cases rule: main_only)
  case long
  then show ?thesis by (intro bare_error [OF assms(1)]) (simp add: chown_op_def)
next
  case (short fpath)
  obtain q w2 where w2: "sys_chown fpath u g w = (q, w2)" "calm w2" "os.more w2 = os.more w" "tree w2 = tree w"
    by (rule chown_quiet [OF bare_calm [OF assms(1)]]) blast
  show ?thesis
    by (rule bare_call [OF assms(1,2) w2(2,3) short(2), of _ q]) (use w2 short(1) bare_init [OF assms(1)] in \<open>simp_all add: chown_op_def\<close>)
qed

lemma utimens_bare:
  assumes "bare R w" and "good_path cs" and "length (sub_path [] cs) < 2 ^ 64"
  shows "untouched R (utimens_op save garb (sub_path [] cs)) w"
  using bare_rooted [OF assms(1)] assms(2,3)
proof (cases rule: main_only)
  case long
  then show ?thesis by (intro bare_error [OF assms(1)]) (simp add: utimens_op_def)
next
  case (short fpath)
  then show ?thesis
    using lookup_quiet [OF bare_calm [OF assms(1)], of fpath] bare_init [OF assms(1)]
    by (intro bare_error [OF assms(1)]) (auto simp: utimens_op_def)
qed

lemma mkdir_bare:
  assumes "bare R w" and "good_path cs" and "length (sub_path [] cs) < 2 ^ 64"
  shows "untouched R (mkdir_op garb (sub_path [] cs) md) w"
  using bare_rooted [OF assms(1)] assms(2,3)
proof (cases rule: main_space)
  case long
  then show ?thesis by (intro bare_error [OF assms(1)]) (simp add: mkdir_op_def)
next
  case (short fpath)
  obtain q w2 where w2: "sys_mkdir fpath md w = (q, w2)" "calm w2" "os.more w2 = os.more w"
      "\<forall>x. x \<noteq> comps fpath \<longrightarrow> tree w2 x = tree w x"
    by (rule mkdir_quiet [OF bare_calm [OF assms(1)]]) blast
  show ?thesis
    by (rule bare_call [OF assms(1,2) w2(2,3) short(2), of _ q]) (use w2 short(1) bare_init [OF assms(1)] in \<open>simp_all add: mkdir_op_def\<close>)
qed

lemma rmdir_bare:
  assumes "bare R w" and "good_path cs" and "length (sub_path [] cs) < 2 ^ 64"
  shows "untouched R (rmdir_op (sub_path [] cs)) w"
  using bare_rooted [OF assms(1)] assms(2,3)
proof (cases rule: main_space)
  case long
  then show ?thesis by (intro bare_error [OF assms(1)]) (simp add: rmdir_op_def)
next
  case (short fpath)
  obtain q w2 where w2: "sys_rmdir fpath w = (q, w2)" "calm w2" "os.more w2 = os.more w"
      "\<forall>x. x \<noteq> comps fpath \<longrightarrow> tree w2 x = tree w x"
    by (rule rmdir_quiet [OF bare_calm [OF assms(1)]]) blast
  show ?thesis
    by (rule bare_call [OF assms(1,2) w2(2,3) short(2), of _ q]) (use w2 short(1) in \<open>simp_all add: rmdir_op_def\<close>)
qed

lemma edit_bare:
  assumes "bare R w" and "good_path cs" and "edit_flags flags" and "length (sub_path [] cs) < 2 ^ 64"
  shows "untouched R (\<lambda>w. session (open_op garb (sub_path [] cs) flags w) xs) w"
  using bare_rooted [OF assms(1)] assms(2,4)
proof (cases rule: main_space)
  case long
  then show ?thesis by (intro bare_error [OF assms(1)]) (simp add: open_op_def session_def)
next
  case (short fpath)
  let ?m = "(fresh (mfd_garbage garb) cs fpath w)\<lparr>mapfd := MFD_FD_NOSN, datfd := MFD_FD_NOSN\<rparr>"
  have fl: "flags AND 3 \<noteq> 0" "\<not> has_flag (rdwr_flags flags) O_CREAT" "\<not> has_flag (rdwr_flags flags) O_TRUNC"
      "writable (rdwr_flags flags) \<or> tree w (comps fpath) \<noteq> Some Dir"
    using assms(3) rdwr_flags_modes by (simp_all add: edit_flags_def rdwr_flags_other)
  have o: "open_op garb (sub_path [] cs) flags w =
      (case sys_open fpath (rdwr_flags flags) 0 w of
         (Inl e, w2) \<Rightarrow> Some ((Inl e, None), w2)
       | (Inr fd, w2) \<Rightarrow> Some ((Inr (), Some (?m\<lparr>mainfd := fd\<rparr>)), w2))"
    using short(1) bare_open_sn [OF assms(1)] bare_calm [OF assms(1)] fl(1)
    by (simp add: open_op_def open_main_def fresh_def mfd_close_sn_def close_if_def split: prod.split sum.split)
  from bare_calm [OF assms(1)] fl(2-4) show ?thesis
  proof (cases rule: open_existing [where md = 0])
    case (error e)
    then show ?thesis using o by (intro bare_error [OF assms(1)]) (simp add: session_def)
  next
    case (found fd i bs w2)
    show ?thesis
      by (rule bare_session [OF assms(1,2) _ found(2,8), of _ "Inr ()" "?m\<lparr>mainfd := fd\<rparr>" i "rdwr_flags flags"])
        (use o found short(2) in \<open>simp_all add: fresh_def fd_view_def\<close>)
  qed
qed

lemma create_bare:
  assumes "bare R w" and "good_path cs" and "length (sub_path [] cs) < 2 ^ 64"
  shows "untouched R (\<lambda>w. session (create_op garb (sub_path [] cs) md flags w) xs) w"
  using bare_rooted [OF assms(1)] assms(2,3)
proof (cases rule: main_only)
  case long
  then show ?thesis by (intro bare_error [OF assms(1)]) (simp add: create_op_def session_def)
next
  case (short fpath)
  let ?m = "(fresh (mfd_garbage garb) cs fpath w)\<lparr>mapfd := MFD_FD_NOSN, datfd := MFD_FD_NOSN\<rparr>"
  let ?fl = "flags OR O_CREAT OR O_TRUNC"
  have fl: "has_flag ?fl O_CREAT" "has_flag ?fl O_TRUNC" by (simp_all add: has_flag_def bit.conj_disj_distrib2)
  have o: "create_op garb (sub_path [] cs) md flags w =
      (case sys_open fpath ?fl md w of
         (Inl e, w2) \<Rightarrow> Some ((Inl e, None), w2)
       | (Inr fd, w2) \<Rightarrow> Some ((Inr (), Some (?m\<lparr>mainfd := fd\<rparr>)), w2))"
    using short(1) bare_open_sn [OF assms(1)] bare_calm [OF assms(1)]
    by (simp add: create_op_def create_main_def fresh_def mfd_close_sn_def close_if_def split: prod.split sum.split)
  from bare_calm [OF assms(1)] fl show ?thesis
  proof (cases rule: create_open [where p = fpath and md = md])
    case (error e)
    then show ?thesis using o by (intro bare_error [OF assms(1)]) (simp add: session_def)
  next
    case (made fd i w2)
    show ?thesis
      by (rule bare_session [OF assms(1,2) _ made(2,6), of _ "Inr ()" "?m\<lparr>mainfd := fd\<rparr>" i ?fl])
        (use o made short(2) in \<open>simp_all add: fresh_def fd_view_def\<close>)
  qed
qed

end
