(* ===== verification/History.thy ===== *)
theory History
  imports Events
begin

text \<open>
  The whole program over time. An event is a request on the main space, a session with a file (open
  or create, writes and truncations, release), or a request on the list of snapshots; all are served
  by \<open>serve\<close>, and the program may be started again between them. The archive is the specification: when
  a snapshot is made, it records the files of the main space; afterwards an entry is never changed.
  The program refines it: every snapshot shows the files of its entry, whatever has happened since.
\<close>

section \<open>Events\<close>

fun ask :: "nat \<Rightarrow> file_op \<Rightarrow> request" where
  "ask n (Write buf off) = Write_to n buf off"
| "ask n (Truncate k) = Ftruncate n k"

fun serve_ops :: "environment \<Rightarrow> nat \<Rightarrow> file_op list \<Rightarrow> server \<Rightarrow> server option" where
  "serve_ops env n [] s = Some s"
| "serve_ops env n (x # xs) s = do { (_, s) \<leftarrow> serve env (ask n x) s; serve_ops env n xs s }"

definition file_session :: "environment \<Rightarrow> request \<Rightarrow> file_op list \<Rightarrow> server \<Rightarrow> server option" where
  "file_session env rq xs s =
     do {
       (r, s) \<leftarrow> serve env rq s;
       case r of
         Inr (Handle n) \<Rightarrow> do { s \<leftarrow> serve_ops env n xs s; (_, s) \<leftarrow> serve env (Release n) s; Some s }
       | _ \<Rightarrow> Some s
     }"

datatype event =
    Version version_op
  | Edit "string list" oflags "file_op list"
  | Make "string list" mode oflags "file_op list"
  | Delete "string list"
  | Cut "string list" nat
  | Make_dir "string list" mode
  | Remove_dir "string list"
  | Mode "string list" mode
  | Owner "string list" "32 word" "32 word"
  | Touch "string list"

abbreviation one :: "environment \<Rightarrow> request \<Rightarrow> server \<Rightarrow> server option" where
  "one env rq s \<equiv> map_option snd (serve env rq s)"

fun happen :: "environment \<Rightarrow> event \<Rightarrow> server \<Rightarrow> server option" where
  "happen env (Version v) s = map_option snd (version_step env v s)"
| "happen env (Edit cs fl xs) s = file_session env (Open (sub_path [] cs) fl) xs s"
| "happen env (Make cs md fl xs) s = file_session env (Create (sub_path [] cs) md fl) xs s"
| "happen env (Delete cs) s = one env (Unlink (sub_path [] cs)) s"
| "happen env (Cut cs n) s = one env (Truncate_path (sub_path [] cs) n) s"
| "happen env (Make_dir cs md) s = one env (Mkdir (sub_path [] cs) md) s"
| "happen env (Remove_dir cs) s = one env (Rmdir (sub_path [] cs)) s"
| "happen env (Mode cs md) s = one env (Chmod (sub_path [] cs) md) s"
| "happen env (Owner cs u g) s = one env (Chown (sub_path [] cs) u g) s"
| "happen env (Touch cs) s = one env (Utimens (sub_path [] cs)) s"

section \<open>The archive\<close>

type_synonym archive = "(string \<times> (string list \<Rightarrow> byte list option)) list"

abbreviation main_dir :: "server \<Rightarrow> string list" where
  "main_dir s \<equiv> comps (rootdir (fs s))"

abbreviation snap_dir :: "server \<Rightarrow> string list" where
  "snap_dir s \<equiv> comps (sn_dir (fs s))"

definition main_files :: "server \<Rightarrow> string list \<Rightarrow> byte list option" where
  "main_files s = main_at (tree (fs s)) (main_dir s)"

definition snap_files :: "server \<Rightarrow> string list \<Rightarrow> string \<Rightarrow> string list \<Rightarrow> byte list option" where
  "snap_files s ids x = version_view (bl_slog (fs s)) (tree (fs s)) (snap_dir s) (main_dir s) ids x"

fun record_event :: "event \<Rightarrow> server \<Rightarrow> archive \<Rightarrow> archive" where
  "record_event (Version (New x _)) s A = (if x \<in> fst ` set A then A else (x, main_files s) # A)"
| "record_event (Version Drop) s A = butlast A"
| "record_event _ s A = A"

fun history :: "environment \<Rightarrow> event list \<Rightarrow> server \<times> archive \<Rightarrow> (server \<times> archive) option" where
  "history env [] (s, A) = Some (s, A)"
| "history env (e # es) (s, A) = do { s' \<leftarrow> happen env e s; history env es (s', record_event e s A) }"

text \<open>
  The requests that the kernel sends: the path is relative to the root, its directories do not have the
  names of map and dat files, and \<open>unlink\<close>, \<open>truncate\<close> and \<open>create\<close> are not for a directory. A file is
  opened for writing with flags that do not truncate it.
\<close>

definition good_target :: "string list \<Rightarrow> bool" where
  "good_target cs \<longleftrightarrow> good_path cs \<and> length (sub_path [] cs) < 2 ^ 64"

definition good_event :: "server \<Rightarrow> event \<Rightarrow> bool" where
  "good_event s e =
     (case e of
        Version v \<Rightarrow> good_op (sn_dir (fs s)) v
      | Edit cs fl _ \<Rightarrow> good_target cs \<and> edit_flags fl
      | Make cs _ _ _ \<Rightarrow> good_target cs \<and> tree (fs s) (main_dir s @ cs) \<noteq> Some Dir
      | Delete cs \<Rightarrow> good_target cs \<and> tree (fs s) (main_dir s @ cs) \<noteq> Some Dir
      | Cut cs _ \<Rightarrow> good_target cs \<and> tree (fs s) (main_dir s @ cs) \<noteq> Some Dir
      | Make_dir cs _ \<Rightarrow> good_target cs
      | Remove_dir cs \<Rightarrow> good_target cs
      | Mode cs _ \<Rightarrow> good_target cs
      | Owner cs _ _ \<Rightarrow> good_target cs
      | Touch cs \<Rightarrow> good_target cs)"

fun good_events :: "environment \<Rightarrow> event list \<Rightarrow> server \<Rightarrow> bool" where
  "good_events env [] s = True"
| "good_events env (e # es) s \<longleftrightarrow>
     good_event s e \<and> (case happen env e s of None \<Rightarrow> True | Some s' \<Rightarrow> good_events env es s')"

section \<open>The invariant\<close>

text \<open>The file below the snapshots \<open>ys\<close>, the latest first: through their layers to the main space.\<close>

definition below :: "server \<Rightarrow> string list \<Rightarrow> string list \<Rightarrow> byte list option" where
  "below s ys cs = view (bl_slog (fs s)) (map (\<lambda>y. layer_at (tree (fs s)) (snap_dir s @ [y]) cs) (rev ys))
     (main_at (tree (fs s)) (main_dir s) cs)"

text \<open>The layers of the snapshot \<open>a\<close>, when \<open>ys\<close> are the later ones, have what was lost since.\<close>

definition layers_sound :: "server \<Rightarrow> string list \<Rightarrow> string \<Rightarrow> bool" where
  "layers_sound s ys a \<longleftrightarrow> shape (tree (fs s)) (snap_dir s @ [a])
     \<and> (\<forall>cs. good_path cs \<longrightarrow> paired (tree (fs s)) (snap_dir s @ [a]) cs
          \<and> (\<forall>l. layer_at (tree (fs s)) (snap_dir s @ [a]) cs = Some l \<longrightarrow>
               header_ok (map_header (fst l)) \<and> layer_wf (bl_slog (fs s)) l (below s ys cs)))"

definition holds :: "server \<Rightarrow> archive \<Rightarrow> bool" where
  "holds s A \<longleftrightarrow> versions s (map fst A)
     \<and> (\<forall>ys a zs. map fst A = ys @ a # zs \<longrightarrow> layers_sound s ys a)
     \<and> (\<forall>(x, f) \<in> set A. \<forall>cs. good_path cs \<longrightarrow> snap_files s (map fst A) x cs = f cs)"

lemma holds_files: "holds s A \<Longrightarrow> (x, f) \<in> set A \<Longrightarrow> good_path cs \<Longrightarrow> snap_files s (map fst A) x cs = f cs"
  by (auto simp: holds_def)

lemma snap_files_below: "snap_files s ids x cs = below s (up_to x ids) cs"
  by (simp add: snap_files_def version_view_def below_def)

lemma layers_sound_latest:
  "layers_sound s [] a \<longleftrightarrow> shape (tree (fs s)) (snap_dir s @ [a])
     \<and> (\<forall>cs. good_path cs \<longrightarrow> sound (bl_slog (fs s)) (tree (fs s)) (snap_dir s @ [a]) (main_dir s) cs)"
  by (simp add: layers_sound_def sound_def below_def view_def)

lemma snap_dir_main: "versions s ids \<Longrightarrow> snap_dir s = main_dir s @ [''snapshots'']"
  by (simp add: versions_dir comps_SNDIR)

lemma versions_bare: "versions s [] \<Longrightarrow> bare (main_dir s) (fs s)"
  by (simp add: versions_def snaps_def on_disk_def bare_def rooted_def)

lemma versions_settled:
  assumes v: "versions s (a # ids)" and "layers_sound s [] a"
  shows "settled (snap_dir s @ [a]) (main_dir s) (fs s)"
proof -
  let ?w = "fs s"
  have o: "on_disk ?w (a # ids)" and l: "sn_lat_dir ?w = sn_root (sn_dir ?w) a" "sn_lat_dir_len ?w = length (sn_lat_dir ?w)" "sn_is_any ?w"
    using v by (simp_all add: versions_def snaps_def)
  have g: "good_id (sn_dir ?w) a" using o by (simp add: on_disk_def)
  then have "comps (sn_lat_dir ?w) = snap_dir s @ [a]" "sn_lat_dir ?w \<noteq> []" "sn_lat_dir_len ?w + EXT_LEN \<le> PATH_MAX"
    using l comps_sn_root [of a "sn_dir ?w"] by (simp_all add: good_id_def sn_root_def)
  moreover have "tree ?w (snap_dir s @ [a]) = Some Dir"
    using o g by (cases ids) (simp_all add: on_disk_def listing_def good_id_def filter_neq)
  ultimately show ?thesis
    using o l v assms(2) snap_dir_main [OF v] by (simp add: settled_def latest_def versions_def on_disk_def layers_sound_latest)
qed

section \<open>Views\<close>

lemma up_to_Cons: "up_to x (a # ids) = (if a = x then [a] else a # up_to x ids)"
  by (simp add: up_to_def)

lemma up_to_set: "x \<in> set ids \<Longrightarrow> set (up_to x ids) \<subseteq> set ids"
  by (auto simp: up_to_def dest: set_takeWhileD)

text \<open>Through the latest snapshot first, then through the earlier ones.\<close>

lemma below_Cons:
  "below s (a # ys) cs = view (bl_slog (fs s)) (map (\<lambda>y. layer_at (tree (fs s)) (snap_dir s @ [y]) cs) (rev ys))
     (layer_view (bl_slog (fs s)) (layer_at (tree (fs s)) (snap_dir s @ [a]) cs) (main_at (tree (fs s)) (main_dir s) cs))"
  by (simp add: below_def view_def)

text \<open>The part of the disk below the snapshot \<open>y\<close> is as before.\<close>

definition same_snap :: "server \<Rightarrow> string \<Rightarrow> server \<Rightarrow> bool" where
  "same_snap s y s' \<longleftrightarrow> (\<forall>ds. tree (fs s') (snap_dir s @ y # ds) = tree (fs s) (snap_dir s @ y # ds))"

lemma same_snap_at:
  assumes "same_snap s y s'"
  shows "layer_at (tree (fs s')) (snap_dir s @ [y]) cs = layer_at (tree (fs s)) (snap_dir s @ [y]) cs"
    "paired (tree (fs s')) (snap_dir s @ [y]) cs = paired (tree (fs s)) (snap_dir s @ [y]) cs"
    "shape (tree (fs s')) (snap_dir s @ [y]) = shape (tree (fs s)) (snap_dir s @ [y])"
  using assms by (simp_all add: same_snap_def layer_at_def paired_def shape_def)

definition same_globals :: "server \<Rightarrow> server \<Rightarrow> bool" where
  "same_globals s s' \<longleftrightarrow> rootdir (fs s') = rootdir (fs s) \<and> sn_dir (fs s') = sn_dir (fs s) \<and> bl_slog (fs s') = bl_slog (fs s)"

lemma layers_sound_cong:
  assumes "same_snap s a s'" and "same_globals s s'" and "\<And>cs. good_path cs \<Longrightarrow> below s' zs cs = below s ys cs"
  shows "layers_sound s' zs a = layers_sound s ys a"
  using assms(2,3) same_snap_at [OF assms(1)] by (simp add: layers_sound_def same_globals_def)

lemma below_cong:
  assumes "\<And>y. y \<in> set ys \<Longrightarrow> same_snap s y s'" and "same_globals s s'"
    and "main_at (tree (fs s')) (main_dir s) cs = main_at (tree (fs s)) (main_dir s) cs"
  shows "below s' ys cs = below s ys cs"
proof -
  have "map (\<lambda>y. layer_at (tree (fs s')) (snap_dir s @ [y]) cs) (rev ys)
      = map (\<lambda>y. layer_at (tree (fs s)) (snap_dir s @ [y]) cs) (rev ys)"
    using same_snap_at(1) [OF assms(1)] by simp
  then show ?thesis using assms(2,3) unfolding below_def by (simp add: same_globals_def del: map_eq_conv)
qed

lemma below_Cons_cong:
  assumes "\<And>y. y \<in> set ys \<Longrightarrow> same_snap s y s'" and "same_globals s s'"
    and "shown (snap_dir s @ [a]) (main_dir s) (fs s') cs = shown (snap_dir s @ [a]) (main_dir s) (fs s) cs"
  shows "below s' (a # ys) cs = below s (a # ys) cs"
proof -
  have "map (\<lambda>y. layer_at (tree (fs s')) (snap_dir s @ [y]) cs) (rev ys)
      = map (\<lambda>y. layer_at (tree (fs s)) (snap_dir s @ [y]) cs) (rev ys)"
    using same_snap_at(1) [OF assms(1)] by simp
  then show ?thesis using assms(2,3) unfolding below_Cons shown_def by (simp add: same_globals_def del: map_eq_conv)
qed

lemma up_to_prefix: "x \<in> set ids \<Longrightarrow> \<exists>zs. ids = up_to x ids @ zs"
  by (induction ids) (auto simp: up_to_Cons)

section \<open>Requests on the main space\<close>

lemma versions_moved:
  assumes "versions s ids" and "fields w' = fields (fs s)" and "calm w'" and "mflocks w' = table0"
    and "length (block_buffer w') = BL_S w'" and "tree w' (snap_dir s) = tree (fs s) (snap_dir s)"
    and "\<And>y. tree w' (snap_dir s @ [y]) = tree (fs s) (snap_dir s @ [y])"
  shows "versions \<lparr>fs = w', fhs = h\<rparr> ids"
proof -
  note f = field_eqs [OF assms(2)]
  have "snaps (fs s) ids" using assms(1) by (simp add: versions_def)
  then have "snaps w' ids" using assms(3,6,7) f by (simp add: snaps_def on_disk_def)
  then show ?thesis using assms(1,4,5) f by (simp add: versions_def)
qed

lemma evolves_holds:
  assumes h: "holds s A" and A: "A = (a, f) # B" and e: "evolves (snap_dir s @ [a]) (main_dir s) (fs s) w'"
  shows "holds \<lparr>fs = w', fhs = h\<rparr> A"
proof -
  let ?S = "snap_dir s @ [a]" and ?s = "\<lparr>fs = w', fhs = h\<rparr>"
  have v: "versions s (a # map fst B)" and l0: "layers_sound s [] a" using h A by (auto simp: holds_def)
  have d: "a \<notin> set (map fst B)" using v by (simp add: versions_def snaps_def on_disk_def)
  have w': "settled ?S (main_dir s) w'" "fields w' = fields (fs s)"
      "\<forall>cs. good_path cs \<longrightarrow> shown ?S (main_dir s) w' cs = shown ?S (main_dir s) (fs s) cs"
      "\<forall>x. prefix (snap_dir s) x \<and> \<not> prefix ?S x \<longrightarrow> tree w' x = tree (fs s) x"
    using e snap_dir_main [OF v] by (simp_all add: evolves_def)
  note f = field_eqs [OF w'(2)]
  have dir: "tree w' ?S = Some Dir" "tree (fs s) ?S = Some Dir"
    using w'(1) versions_settled [OF v l0] by (simp_all add: settled_def latest_def)
  have "tree w' (snap_dir s @ [y]) = tree (fs s) (snap_dir s @ [y])" for y
    using w'(4) dir by (cases "y = a") simp_all
  then have v': "versions ?s (map fst A)"
    using versions_moved [OF v w'(2)] w'(1,4) A by (simp add: settled_def latest_def)
  have sf: "same_globals s ?s" using f by (simp add: same_globals_def)
  have ss: "same_snap s y ?s" if "y \<noteq> a" for y using that w'(4) by (simp add: same_snap_def)
  have b: "below ?s (a # ys) cs = below s (a # ys) cs" if "set ys \<subseteq> set (map fst B)" "good_path cs" for ys cs
    by (rule below_Cons_cong [OF ss sf]) (use that d w'(3) in auto)
  have "layers_sound ?s ys b" if "map fst A = ys @ b # zs" for ys b zs
  proof (cases ys)
    case Nil
    then show ?thesis using that A w'(1) f by (simp add: layers_sound_latest settled_def latest_def)
  next
    case (Cons c xs)
    then have c: "c = a" "map fst B = xs @ b # zs" using that A by simp_all
    then have "same_snap s b ?s" using d by (intro ss) auto
    moreover have "below ?s ys cs = below s ys cs" if "good_path cs" for cs using b [OF _ that, of xs] c Cons by auto
    ultimately show ?thesis using layers_sound_cong [OF _ sf] h that by (auto simp: holds_def)
  qed
  moreover have "snap_files ?s (map fst A) x cs = g cs" if "(x, g) \<in> set A" "good_path cs" for x g cs
  proof -
    have x: "x \<in> set (map fst A)" using that(1) by force
    have "snap_files ?s (map fst A) x cs = snap_files s (map fst A) x cs"
    proof (cases "x = a")
      case True
      then show ?thesis using b [of "[]" cs] that(2) A by (simp add: snap_files_below up_to_Cons)
    next
      case False
      then have "x \<in> set (map fst B)" using x A by simp
      then show ?thesis using b [OF up_to_set that(2)] False A by (simp add: snap_files_below up_to_Cons)
    qed
    then show ?thesis using holds_files [OF h that] by simp
  qed
  ultimately show ?thesis using v' unfolding holds_def by auto
qed

lemma main_request:
  assumes h: "holds s A" and "A = [] \<Longrightarrow> untouched (main_dir s) f (fs s)"
    and "\<And>a g B. A = (a, g) # B \<Longrightarrow> settled (snap_dir s @ [a]) (main_dir s) (fs s)
      \<Longrightarrow> harmless (snap_dir s @ [a]) (main_dir s) f (fs s)"
  obtains r w' where "f (fs s) = Some (r, w')" and "\<And>s'. fs s' = w' \<Longrightarrow> holds s' A" and "rootdir w' = rootdir (fs s)"
proof (cases A)
  case Nil
  have v: "versions s []" using h Nil by (simp add: holds_def)
  obtain r w' where w': "f (fs s) = Some (r, w')" "bare (main_dir s) w'" "fields w' = fields (fs s)"
      "\<forall>x. prefix (snap_dir s) x \<longrightarrow> tree w' x = tree (fs s) x"
    using assms(2) [OF Nil] snap_dir_main [OF v] by (auto simp: untouched_def)
  have "versions \<lparr>fs = w', fhs = h\<rparr> []" for h
    using versions_moved [OF v w'(3)] w'(2,4) by (simp add: bare_def)
  then have "holds s' A" if "fs s' = w'" for s'
    using that Nil by (cases s') (simp add: holds_def)
  with that w'(1) field_eqs(1) [OF w'(3)] show ?thesis by blast
next
  case (Cons z B)
  obtain a g where z: "z = (a, g)" by (cases z)
  have "settled (snap_dir s @ [a]) (main_dir s) (fs s)"
    using h Cons z by (intro versions_settled [of s a "map fst B"]) (auto simp: holds_def)
  then obtain r w' where w': "f (fs s) = Some (r, w')" "evolves (snap_dir s @ [a]) (main_dir s) (fs s) w'"
    using assms(3) Cons z by (auto simp: harmless_def)
  have "holds s' A" if "fs s' = w'" for s'
    using evolves_holds [OF h, of a g B w' "fhs s'"] Cons z w'(2) that by (cases s') simp
  with that w'(1) evolves_fields(1) [OF w'(2)] show ?thesis by blast
qed

text \<open>A session of FUSE requests is the sequence of operations on the handle.\<close>

lemma serve_ops_run:
  assumes "get_fh s n = Some m" and "run_ops xs m (fs s) = Some (m', w')"
  shows "\<exists>s'. serve_ops env n xs s = Some s' \<and> fs s' = w' \<and> get_fh s' n = Some m'"
  using assms
proof (induction xs arbitrary: s m)
  case (Cons x xs)
  obtain m1 w1 where 1: "run_op x m (fs s) = Some (m1, w1)" "run_ops xs m1 w1 = Some (m', w')"
    using Cons.prems(2) by (auto simp: bind_eq_Some_conv)
  have n: "n < length (fhs s)" using Cons.prems(1) by (auto simp: get_fh_def split: if_splits)
  obtain r where "serve env (ask n x) s = Some (r, s\<lparr>fs := w1, fhs := (fhs s)[n := Some m1]\<rparr>)"
    using 1(1) Cons.prems(1) by (cases x) (auto simp: run_op_def serve_def with_fh_def changed_def)
  moreover have "get_fh (s\<lparr>fs := w1, fhs := (fhs s)[n := Some m1]\<rparr>) n = Some m1" using n by (simp add: get_fh_def)
  ultimately show ?case using Cons.IH [of "s\<lparr>fs := w1, fhs := (fhs s)[n := Some m1]\<rparr>" m1] 1(2) by simp
qed simp

lemma session_serve:
  assumes "serve env rq s = Some (opened s x)" and "session (Some x) xs = Some (q, w')"
    and "isl (fst (fst x)) = (snd (fst x) = None)"
  obtains s' where "file_session env rq xs s = Some s'" and "fs s' = w'"
proof (cases "snd (fst x)")
  case None
  then show ?thesis using that assms by (cases x) (auto simp: session_def file_session_def opened_def isl_def)
next
  case (Some m)
  let ?n = "first_free (fhs s)" and ?s = "s\<lparr>fs := snd x, fhs := put_slot (fhs s) (first_free (fhs s)) m\<rparr>"
  have o: "opened s x = (Inr (Handle ?n), ?s)"
    using Some assms(3) by (cases x; cases "fst (fst x)") (auto simp: opened_def Let_def)
  obtain m1 w1 where m1: "run_ops xs m (snd x) = Some (m1, w1)" "release_op m1 w1 = (q, w')"
    using assms(2) Some by (cases x) (auto simp: session_def bind_eq_Some_conv)
  have g: "get_fh ?s ?n = Some m" using first_free_le [of "fhs s"] by (auto simp: get_fh_def put_slot_def nth_append)
  obtain s2 where s2: "serve_ops env ?n xs ?s = Some s2" "fs s2 = w1" "get_fh s2 ?n = Some m1"
    using serve_ops_run [OF g, of xs m1 w1] m1(1) by auto
  have "serve env (Release ?n) s2 = Some (dropped s2 ?n (q, w'))"
    using s2(2,3) m1(2) by (simp add: serve_def with_fh_def)
  then have "file_session env rq xs s = Some (snd (dropped s2 ?n (q, w')))"
    using assms(1) o s2(1) by (simp add: file_session_def split_beta)
  then show ?thesis using that by (simp add: dropped_def)
qed

abbreviation handle_iff :: "(unit res \<times> mfd option) \<times> world \<Rightarrow> bool" where
  "handle_iff x \<equiv> isl (fst (fst x)) = (snd (fst x) = None)"

lemma bind_handle: "Option.bind a k = Some x \<Longrightarrow> (\<And>y. k y = Some x \<Longrightarrow> handle_iff x) \<Longrightarrow> handle_iff x"
  by (cases a) auto

lemma opened_handle:
  "open_op g p fl w = Some x \<Longrightarrow> handle_iff x"
  "create_op g p md fl w = Some x \<Longrightarrow> handle_iff x"
proof -
  have s: "handle_iff (open_sn g sp fl w)" for sp w by (simp add: open_sn_def split: prod.split sum.split)
  have m: "handle_iff x" if "open_main g p q fl w = Some x" for q w
    using that by (auto simp: open_main_def split_beta Let_def elim!: bind_handle split: sum.splits if_splits)
  have c: "handle_iff x" if "create_main g p q fl md m w = Some x" for q m w
    by (rule bind_handle [OF that [unfolded create_main_def]]) (auto simp: Let_def split: prod.splits sum.splits)
  show "open_op g p fl w = Some x \<Longrightarrow> handle_iff x"
    using s m by (auto simp: open_op_def split: prod.splits sum.splits route.splits)
  show "create_op g p md fl w = Some x \<Longrightarrow> handle_iff x"
    by (cases "if_path_main_only p w") (auto simp: create_op_def split_beta Let_def elim!: bind_handle dest!: c split: sum.splits if_splits)
qed

section \<open>Every event\<close>

lemma one_holds:
  assumes "holds s A" and "serve env rq s = map_option (reply ack s) (f (fs s))"
    and "A = [] \<Longrightarrow> untouched (main_dir s) f (fs s)"
    and "\<And>a g B. A = (a, g) # B \<Longrightarrow> settled (snap_dir s @ [a]) (main_dir s) (fs s)
      \<Longrightarrow> harmless (snap_dir s @ [a]) (main_dir s) f (fs s)"
  shows "\<exists>s'. one env rq s = Some s' \<and> holds s' A \<and> rootdir (fs s') = rootdir (fs s)"
proof -
  obtain r w' where "f (fs s) = Some (r, w')" "\<And>s'. fs s' = w' \<Longrightarrow> holds s' A" "rootdir w' = rootdir (fs s)"
    by (rule main_request [OF assms(1), of f]) (use assms(3,4) in blast)+
  then show ?thesis using assms(2) by (simp add: reply_def)
qed

lemma session_holds:
  assumes "holds s A" and "serve env rq s = map_option (opened s) (f (fs s))" and "\<And>x. f (fs s) = Some x \<Longrightarrow> handle_iff x"
    and "A = [] \<Longrightarrow> untouched (main_dir s) (\<lambda>w. session (f w) xs) (fs s)"
    and "\<And>a g B. A = (a, g) # B \<Longrightarrow> settled (snap_dir s @ [a]) (main_dir s) (fs s)
      \<Longrightarrow> harmless (snap_dir s @ [a]) (main_dir s) (\<lambda>w. session (f w) xs) (fs s)"
  shows "\<exists>s'. file_session env rq xs s = Some s' \<and> holds s' A \<and> rootdir (fs s') = rootdir (fs s)"
proof -
  obtain r w' where w': "session (f (fs s)) xs = Some (r, w')" "\<And>s'. fs s' = w' \<Longrightarrow> holds s' A" "rootdir w' = rootdir (fs s)"
    by (rule main_request [OF assms(1), of "\<lambda>w. session (f w) xs"]) (use assms(4,5) in blast)+
  obtain x where x: "f (fs s) = Some x" using w'(1) by (cases "f (fs s)") (auto simp: session_def)
  obtain s' where "file_session env rq xs s = Some s'" "fs s' = w'"
    by (rule session_serve [of env rq s x xs r w']) (use assms(2,3) x w'(1) in simp_all)
  then show ?thesis using w'(2,3) by blast
qed

text \<open>The layers of the snapshots and the files of the main space are as before.\<close>

definition same_files :: "server \<Rightarrow> string list \<Rightarrow> server \<Rightarrow> bool" where
  "same_files s ids s' \<longleftrightarrow> same_globals s s' \<and> (\<forall>y \<in> set ids. same_snap s y s')
     \<and> (\<forall>cs. good_path cs \<longrightarrow> tree (fs s') (main_dir s @ cs) = tree (fs s) (main_dir s @ cs))"

lemma same_files_below:
  "same_files s ids s' \<Longrightarrow> set ys \<subseteq> set ids \<Longrightarrow> good_path cs \<Longrightarrow> below s' ys cs = below s ys cs"
  by (intro below_cong) (auto simp: same_files_def main_at_def)

lemma same_files_sound:
  "same_files s ids s' \<Longrightarrow> set (a # ys) \<subseteq> set ids \<Longrightarrow> layers_sound s' ys a = layers_sound s ys a"
  by (rule layers_sound_cong) (simp_all add: same_files_below, simp_all add: same_files_def)

lemma versions_disk: "versions s ids \<Longrightarrow> on_disk (fs s) ids"
  by (simp add: versions_def snaps_def)

lemma versions_at:
  assumes "versions s ids"
  shows "tree (fs s) (snap_dir s @ [y]) = listing (sn_dir (fs s)) ids y" "os_wf (fs s)" "distinct ids"
    "list_all (good_id (sn_dir (fs s))) ids"
  using versions_disk [OF assms] by (simp_all add: on_disk_def calm_def)

lemma versions_root:
  assumes "versions s ids" and "good_id (sn_dir (fs s)) y"
  shows "tree (fs s) (snap_dir s @ [y]) = (if y \<in> set ids then Some Dir else None)"
  using versions_at [OF assms(1)] listing_root [of ids y] assms(2) by (simp add: list_all_iff good_id_def)

lemma main_not_snap: "versions s ids \<Longrightarrow> good_path cs \<Longrightarrow> main_dir s @ cs \<noteq> snap_dir s @ ds"
  by (cases cs) (auto simp: snap_dir_main good_path_def)

lemma same_files_holds:
  assumes h: "holds s A" and v: "versions s' (map fst B)" and A: "A = B @ C" and same: "same_files s (map fst B) s'"
  shows "holds s' B"
proof -
  have "layers_sound s' ys a" if "map fst B = ys @ a # zs" for ys a zs
  proof -
    have "layers_sound s ys a" using h that A by (simp add: holds_def)
    then show ?thesis using same_files_sound [OF same, of a ys] that by auto
  qed
  moreover have "snap_files s' (map fst B) x cs = f cs" if "(x, f) \<in> set B" "good_path cs" for x f cs
  proof -
    have x: "x \<in> set (map fst B)" using that(1) by force
    then have "up_to x (map fst B) = up_to x (map fst A)"
      using takeWhile_append1 [of x "map fst B" "\<lambda>y. y \<noteq> x"] A by (simp add: up_to_def)
    then have "snap_files s' (map fst B) x cs = snap_files s (map fst A) x cs"
      using same_files_below [OF same up_to_set [OF x] that(2)] by (simp add: snap_files_below)
    then show ?thesis using holds_files [OF h _ that(2), of x f] that(1) A by simp
  qed
  ultimately show ?thesis using v by (auto simp: holds_def)
qed

lemma drop_holds:
  assumes h: "holds s A" and "length A \<le> MAX_SNAPSHOTS"
  shows "\<exists>s'. happen env (Version Drop) s = Some s' \<and> holds s' (butlast A) \<and> rootdir (fs s') = rootdir (fs s)"
proof -
  let ?ids = "map fst A"
  have v: "versions s ?ids" using h by (simp add: holds_def)
  obtain s' where s': "version_step env Drop s = Some (fst (spec_version Drop ?ids), s')"
      "versions s' (snd (spec_version Drop ?ids))" "rootdir (fs s') = rootdir (fs s)"
      "tree (fs s') = (if ?ids = [] then tree (fs s) else without (snap_dir s @ [last ?ids])
        ((tree (fs s))(snap_dir s @ [earliest_hid ?ids] := None)))"
      "bl_slog (fs s') = bl_slog (fs s)"
    by (rule drop_step [OF v]) (use assms(2) in auto)
  have v': "versions s' (map fst (butlast A))" using s'(2) by (cases "A = []") (simp_all add: map_butlast)
  have d: "sn_dir (fs s') = sn_dir (fs s)" using versions_dir [OF v] versions_dir [OF v'] s'(3) by simp
  show ?thesis
  proof (cases "A = []")
    case True
    then show ?thesis using s' v' by (simp add: holds_def)
  next
    case False
    have l: "last ?ids \<notin> set (map fst (butlast A))"
      using versions_at(3) [OF v] False by (metis append_butlast_last_id distinct_butlast map_butlast map_is_Nil_conv not_distinct_conv_prefix)
    have "tree (fs s') (snap_dir s @ y # ds) = tree (fs s) (snap_dir s @ y # ds)" if "y \<in> set (map fst (butlast A))" for y ds
    proof (cases "ds = []")
      case True
      have "good_id (sn_dir (fs s)) y" using versions_at(4) [OF v'] that d by (auto simp: list_all_iff)
      moreover have "y \<in> set ?ids" using that in_set_butlastD [of y ?ids] by (simp add: map_butlast)
      ultimately show ?thesis using versions_root [OF v] versions_root [OF v'] that d True by simp
    next
      case False
      then show ?thesis using that l s'(4) \<open>A \<noteq> []\<close> by (auto simp: without_def)
    qed
    moreover have "tree (fs s') (main_dir s @ cs) = tree (fs s) (main_dir s @ cs)" if "good_path cs" for cs
      using main_not_snap [OF v that] s'(4) False by (auto simp: without_def prefix_def)
    ultimately have "same_files s (map fst (butlast A)) s'"
      using s'(3,5) d by (auto simp: same_files_def same_globals_def same_snap_def)
    then have "holds s' (butlast A)"
      by (rule same_files_holds [OF h v', of "[last A]", rotated]) (use False in simp)
    then show ?thesis using s'(1,3) by simp
  qed
qed

lemma new_holds:
  assumes h: "holds s A" and x: "good_id (sn_dir (fs s)) x"
  shows "\<exists>s'. happen env (Version (New x md)) s = Some s' \<and> holds s' (record_event (Version (New x md)) s A) \<and> rootdir (fs s') = rootdir (fs s)"
proof -
  let ?ids = "map fst A"
  have v: "versions s ?ids" using h by (simp add: holds_def)
  obtain s' where s': "version_step env (New x md) s = Some (fst (spec_version (New x md) ?ids), s')"
      "versions s' (snd (spec_version (New x md) ?ids))" "rootdir (fs s') = rootdir (fs s)"
      "\<forall>k. (\<nexists>y. k = snap_dir s @ [y]) \<longrightarrow> tree (fs s') k = tree (fs s) k" "bl_slog (fs s') = bl_slog (fs s)"
    by (rule new_step [OF v x])
  have d: "sn_dir (fs s') = sn_dir (fs s)" using versions_dir [OF v] versions_dir [OF s'(2)] s'(3) by simp
  have old: "tree (fs s') (snap_dir s @ y # ds) = tree (fs s) (snap_dir s @ y # ds)" if "y \<in> set ?ids" for y ds
  proof (cases "ds = []")
    case True
    have "good_id (sn_dir (fs s)) y" "y \<in> set (snd (spec_version (New x md) ?ids))"
      using versions_at(4) [OF v] that by (auto simp: list_all_iff)
    then show ?thesis using versions_root [OF v] versions_root [OF s'(2)] that d True by simp
  qed (use s'(4) in simp)
  then have same: "same_files s ?ids s'"
    using s'(3-5) d main_not_snap [OF v] by (auto simp: same_files_def same_globals_def same_snap_def)
  show ?thesis
  proof (cases "x \<in> set ?ids")
    case True
    then have "versions s' ?ids" using s'(2) by simp
    then have "holds s' A" by (rule same_files_holds [OF h _ _ same, of "[]"]) simp
    then show ?thesis using s'(1,3) True by simp
  next
    case False
    let ?S = "snap_dir s @ [x]"
    have v': "versions s' (x # ?ids)" using s'(2) False by simp
    have none: "tree (fs s) ?S = None" "tree (fs s') ?S = Some Dir"
      using versions_root [OF v x] versions_root [OF v'] x d False by simp_all
    have empty: "tree (fs s') (?S @ ds) = None" if "ds \<noteq> []" for ds
    proof -
      have "tree (fs s) (?S @ ds) = None"
        using tree_prefix [OF versions_at(2) [OF v], of "?S @ ds" _ ?S] none(1) that by (cases "tree (fs s) (?S @ ds)") auto
      then show ?thesis using s'(4) that by simp
    qed
    have "ds = []" if "tree (fs s') (?S @ ds) = Some n" for ds n using that empty by fastforce
    then have "shape (tree (fs s')) ?S" using none(2) by (fastforce simp: shape_def)
    moreover have l: "layer_at (tree (fs s')) ?S cs = None" if "good_path cs" for cs
      using empty good_keys(4,5) [OF that] by (simp add: layer_at_def file_of_def)
    moreover have "paired (tree (fs s')) ?S cs" if "good_path cs" for cs
      using empty good_keys(4) [OF that] by (simp add: paired_def file_of_def)
    ultimately have new: "layers_sound s' [] x" using d by (simp add: layers_sound_def)
    have m: "main_at (tree (fs s')) (main_dir s) cs = main_files s cs" if "good_path cs" for cs
      using same that by (simp add: same_files_def main_files_def main_at_def)
    have b: "below s' (x # ys) cs = below s' ys cs" if "good_path cs" for ys cs
      using l [OF that] d by (simp add: below_def view_def)
    have "layers_sound s' ys a" if "x # ?ids = ys @ a # zs" for ys a zs
    proof (cases ys)
      case Nil
      then show ?thesis using that new by simp
    next
      case (Cons z xs)
      then have z: "z = x" "?ids = xs @ a # zs" using that by simp_all
      then have "layers_sound s' xs a" using same_files_sound [OF same, of a xs] h by (auto simp: holds_def)
      then show ?thesis using b Cons z(1) by (simp add: layers_sound_def)
    qed
    moreover have "snap_files s' (x # ?ids) x cs = main_files s cs" if "good_path cs" for cs
      using b [OF that, of "[]"] m [OF that] d s'(3) by (simp add: snap_files_below up_to_Cons below_def view_def)
    moreover have "snap_files s' (x # ?ids) y cs = f cs" if "(y, f) \<in> set A" "good_path cs" for y f cs
    proof -
      have y: "y \<in> set ?ids" using that(1) by force
      then have "x \<noteq> y" using False by blast
      then have "snap_files s' (x # ?ids) y cs = snap_files s ?ids y cs"
        using b [OF that(2)] same_files_below [OF same up_to_set [OF y] that(2)] by (simp add: snap_files_below up_to_Cons)
      then show ?thesis using holds_files [OF h that] by simp
    qed
    ultimately have "holds s' ((x, main_files s) # A)" using v' unfolding holds_def by auto
    then show ?thesis using s'(1,3) False by simp
  qed
qed

lemma remount_holds:
  assumes h: "holds s A"
  shows "\<exists>s'. happen env (Version (Remount lat len any)) s = Some s' \<and> holds s' A \<and> rootdir (fs s') = rootdir (fs s)"
proof -
  have v: "versions s (map fst A)" using h by (simp add: holds_def)
  obtain s' where s': "version_step env (Remount lat len any) s = Some (Inr Done, s')"
      "versions s' (map fst A)" "rootdir (fs s') = rootdir (fs s)" "tree (fs s') = tree (fs s)" "bl_slog (fs s') = bl_slog (fs s)"
    by (rule remount_step [OF v])
  have "same_files s (map fst A) s'"
    using s' versions_dir [OF v] versions_dir [OF s'(2)] by (simp add: same_files_def same_globals_def same_snap_def)
  then have "holds s' A" by (rule same_files_holds [OF h s'(2), of "[]", rotated]) simp
  then show ?thesis using s'(1,3) by simp
qed

lemma version_holds:
  assumes "holds s A" and "good_op (sn_dir (fs s)) v" and "length A \<le> MAX_SNAPSHOTS"
  shows "\<exists>s'. happen env (Version v) s = Some s' \<and> holds s' (record_event (Version v) s A) \<and> rootdir (fs s') = rootdir (fs s)"
proof (cases v)
  case (New x md)
  then show ?thesis using new_holds [OF assms(1)] assms(2) by (simp add: good_op_def)
next
  case Drop
  then show ?thesis using drop_holds [OF assms(1,3)] by simp
next
  case (Remount lat len any)
  then show ?thesis using remount_holds [OF assms(1)] by simp
qed

lemma event_holds:
  assumes h: "holds s A" and good: "good_event s e" and "length A \<le> MAX_SNAPSHOTS" and garb: "st_size (garbage env) < 2 ^ 64"
  shows "\<exists>s'. happen env e s = Some s' \<and> holds s' (record_event e s A) \<and> rootdir (fs s') = rootdir (fs s)"
proof -
  have b: "A = [] \<Longrightarrow> bare (main_dir s) (fs s)" using h versions_bare by (simp add: holds_def)
  note g = good_event_def good_target_def
  show ?thesis
  proof (cases e)
    case (Version v)
    then show ?thesis using version_holds [OF h _ assms(3)] good by (simp add: good_event_def)
  next
    case (Edit cs fl xs)
    then have "\<exists>s'. file_session env (Open (sub_path [] cs) fl) xs s = Some s' \<and> holds s' A \<and> rootdir (fs s') = rootdir (fs s)"
      using good b garb by (intro session_holds [OF h, where f = "open_op (garbage env) (sub_path [] cs) fl"])
        (simp_all add: serve_def g opened_handle edit_bare edit_harmless)
    then show ?thesis using Edit by simp
  next
    case (Make cs md fl xs)
    then have "\<exists>s'. file_session env (Create (sub_path [] cs) md fl) xs s = Some s' \<and> holds s' A \<and> rootdir (fs s') = rootdir (fs s)"
      using good b garb by (intro session_holds [OF h, where f = "create_op (garbage env) (sub_path [] cs) md fl"])
        (simp_all add: serve_def g opened_handle create_bare create_harmless)
    then show ?thesis using Make by simp
  next
    case (Delete cs)
    then have "\<exists>s'. one env (Unlink (sub_path [] cs)) s = Some s' \<and> holds s' A \<and> rootdir (fs s') = rootdir (fs s)"
      using good b garb by (intro one_holds [OF h, where f = "unlink_op (garbage env) (sub_path [] cs)"])
        (simp_all add: serve_def g unlink_bare unlink_harmless)
    then show ?thesis using Delete by simp
  next
    case (Cut cs n)
    then have "\<exists>s'. one env (Truncate_path (sub_path [] cs) n) s = Some s' \<and> holds s' A \<and> rootdir (fs s') = rootdir (fs s)"
      using good b garb by (intro one_holds [OF h, where f = "truncate_op (garbage env) (sub_path [] cs) n"])
        (simp_all add: serve_def g truncate_bare truncate_harmless)
    then show ?thesis using Cut by simp
  next
    case (Make_dir cs md)
    then have "\<exists>s'. one env (Mkdir (sub_path [] cs) md) s = Some s' \<and> holds s' A \<and> rootdir (fs s') = rootdir (fs s)"
      using good b garb by (intro one_holds [OF h, where f = "mkdir_op (garbage env) (sub_path [] cs) md"])
        (simp_all add: serve_def g mkdir_bare mkdir_harmless)
    then show ?thesis using Make_dir by simp
  next
    case (Remove_dir cs)
    then have "\<exists>s'. one env (Rmdir (sub_path [] cs)) s = Some s' \<and> holds s' A \<and> rootdir (fs s') = rootdir (fs s)"
      using good b garb by (intro one_holds [OF h, where f = "rmdir_op (sub_path [] cs)"])
        (simp_all add: serve_def g rmdir_bare rmdir_harmless)
    then show ?thesis using Remove_dir by simp
  next
    case (Mode cs md)
    then have "\<exists>s'. one env (Chmod (sub_path [] cs) md) s = Some s' \<and> holds s' A \<and> rootdir (fs s') = rootdir (fs s)"
      using good b garb by (intro one_holds [OF h, where f = "chmod_op (garbage env) (sub_path [] cs) md"])
        (simp_all add: serve_def g chmod_bare chmod_harmless)
    then show ?thesis using Mode by simp
  next
    case (Owner cs u gr)
    then have "\<exists>s'. one env (Chown (sub_path [] cs) u gr) s = Some s' \<and> holds s' A \<and> rootdir (fs s') = rootdir (fs s)"
      using good b garb by (intro one_holds [OF h, where f = "chown_op (garbage env) (sub_path [] cs) u gr"])
        (simp_all add: serve_def g chown_bare chown_harmless)
    then show ?thesis using Owner by simp
  next
    case (Touch cs)
    then have "\<exists>s'. one env (Utimens (sub_path [] cs)) s = Some s' \<and> holds s' A \<and> rootdir (fs s') = rootdir (fs s)"
      using good b garb by (intro one_holds [OF h, where f = "utimens_op (save_utimens env) (garbage env) (sub_path [] cs)"])
        (simp_all add: serve_def g utimens_bare utimens_harmless)
    then show ?thesis using Touch by simp
  qed
qed

lemma record_length: "length (record_event e s A) \<le> Suc (length A)"
  by (cases "(e, s, A)" rule: record_event.cases) auto

lemma history_holds:
  assumes "holds s A" and "good_events env es s" and "length A + length es \<le> MAX_SNAPSHOTS" and "st_size (garbage env) < 2 ^ 64"
  shows "\<exists>s' A'. history env es (s, A) = Some (s', A') \<and> holds s' A' \<and> rootdir (fs s') = rootdir (fs s)
    \<and> length A' \<le> length A + length es"
  using assms(1-3)
proof (induction es arbitrary: s A)
  case (Cons e es)
  obtain s1 where s1: "happen env e s = Some s1" "holds s1 (record_event e s A)" "rootdir (fs s1) = rootdir (fs s)"
    using event_holds [OF Cons.prems(1) _ _ assms(4), of e] Cons.prems by auto
  then show ?case using Cons.IH [OF s1(2)] Cons.prems record_length [of e s A] by fastforce
qed simp

section \<open>The theorem\<close>

text \<open>
  C21: snapshots never change. From a start without snapshots, any sequence of at most
  \<open>MAX_SNAPSHOTS\<close> events, as \<open>good_event\<close> allows them (sessions with files, one at a time, requests that
  create, remove, truncate or change files and directories, requests that make and remove snapshots,
  and restarts), runs to its end; and then the layers on the disk still give, for every snapshot and
  every path whose directories do not have the names of map and dat files, the file that the main space
  had when the snapshot was made, or no file if it had none. No system call is made to fail.
\<close>

theorem snapshots_never_change:
  assumes "versions s []" and "good_events env es s" and "length es \<le> MAX_SNAPSHOTS" and "st_size (garbage env) < 2 ^ 64"
  shows "\<exists>s' A. history env es (s, []) = Some (s', A) \<and> versions s' (map fst A)
    \<and> (\<forall>(x, f) \<in> set A. \<forall>cs. good_path cs \<longrightarrow> snap_files s' (map fst A) x cs = f cs)"
proof -
  have "holds s []" using assms(1) by (simp add: holds_def)
  from history_holds [OF this assms(2) _ assms(4)] assms(3) show ?thesis by (auto simp: holds_def)
qed

text \<open>A disk with one file.\<close>

definition world1 :: world where
  "world1 = world0\<lparr>dents := [([''r'', ''f''], 2), ([''r''], 1), ([], 0)],
     inodes := (inodes world0)(2 := demo_inode [1, 2, 3, 4, 5, 6, 7]), next_ino := 3\<rparr>"

lemma world1_bootable: "bootable ''/r'' [] world1"
proof -
  have l: "lookup world1 k = (if k = [''r'', ''f''] then Some 2 else if k = [''r''] then Some 1 else if k = [] then Some 0 else None)" for k
    by (simp add: lookup_def world1_def)
  have d: "is_dir world1 i = (i \<noteq> 2)" for i
    by (simp add: is_dir_def S_ISDIR_def world1_def world0_def demo_inode_def const_defs)
  have "os_wf world1"
    unfolding os_wf_def l d
    by (auto simp: world1_def world0_def get_fd_def good_name_def split: if_splits)
  moreover have "sizes_ok world1" by (simp add: sizes_ok_def fdata_def world1_def world0_def demo_inode_def)
  ultimately have "calm world1" by (simp add: calm_def world1_def world0_def)
  moreover have "comps ''/r'' = [''r'']" by (simp add: comps_def dot_step_def)
  ultimately show ?thesis by (simp add: bootable_def tree_def l d const_defs)
qed

lemma world1_start:
  obtains w where "esfs_setup ''/r'' world1 = (True, w)" and "versions \<lparr>fs = w, fhs = []\<rparr> []" and "rootdir w = ''/r''"
    and "main_files \<lparr>fs = w, fhs = []\<rparr> [''f''] = Some [1, 2, 3, 4, 5, 6, 7]" and "comps (rootdir w) = [''r'']"
proof -
  obtain w where w: "esfs_setup ''/r'' world1 = (True, w)" "versions \<lparr>fs = w, fhs = []\<rparr> []" "rootdir w = ''/r''"
      "\<forall>k. \<not> prefix (comps (''/r'' @ SNDIR)) k \<longrightarrow> tree w k = tree world1 k"
    by (rule setup_boots [OF world1_bootable]) (simp add: const_defs)
  have r: "comps ''/r'' = [''r'']" by (simp add: comps_def dot_step_def)
  have "tree w [''r'', ''f''] = tree world1 [''r'', ''f'']" using w(4) unfolding comps_SNDIR r by simp
  also have "\<dots> = Some (File [1, 2, 3, 4, 5, 6, 7])"
    by (simp add: tree_def lookup_def is_dir_def S_ISDIR_def fdata_def world1_def world0_def demo_inode_def const_defs)
  finally show ?thesis using that w(1-3) r by (simp add: main_files_def main_at_def file_of_def)
qed

lemma good_f: "good_target [''f'']"
  by (simp add: good_target_def good_path_def good_name_def sub_path_def DIRSEP_def)

text \<open>
  A run on that disk: a snapshot, a truncation by path, a session that writes and truncates, and a
  restart.
\<close>

definition demo_events :: "event list" where
  "demo_events = [Version (New ''a'' 0), Cut [''f''] 3, Edit [''f''] O_RDWR [Write [9, 9] 1, Truncate 2],
     Version (Remount ''x'' 7 False)]"

lemma world1_run:
  obtains w where "esfs_setup ''/r'' world1 = (True, w)" and "versions \<lparr>fs = w, fhs = []\<rparr> []" and "rootdir w = ''/r''"
    and "main_files \<lparr>fs = w, fhs = []\<rparr> [''f''] = Some [1, 2, 3, 4, 5, 6, 7]" and "comps (rootdir w) = [''r'']"
    and "good_events env0 demo_events \<lparr>fs = w, fhs = []\<rparr>"
proof -
  obtain w where w: "esfs_setup ''/r'' world1 = (True, w)" "versions \<lparr>fs = w, fhs = []\<rparr> []" "rootdir w = ''/r''"
      "main_files \<lparr>fs = w, fhs = []\<rparr> [''f''] = Some [1, 2, 3, 4, 5, 6, 7]" "comps (rootdir w) = [''r'']"
    by (rule world1_start)
  let ?s = "\<lparr>fs = w, fhs = []\<rparr>"
  have a: "good_id (sn_dir w) ''a''" using w(3) versions_dir [OF w(2)] by simp
  obtain s1 where s1: "version_step env0 (New ''a'' 0) ?s = Some (fst (spec_version (New ''a'' 0) []), s1)"
      "rootdir (fs s1) = rootdir (fs ?s)" "\<forall>k. (\<nexists>y. k = snap_dir ?s @ [y]) \<longrightarrow> tree (fs s1) k = tree (fs ?s) k"
    by (rule new_step [OF w(2), of "''a''" env0 0]) (use a in simp, blast)
  have "tree w [''r'', ''f''] \<noteq> Some Dir" using w(4,5) by (auto simp: main_files_def main_at_def file_of_def)
  moreover have "tree (fs s1) [''r'', ''f''] = tree w [''r'', ''f'']"
    using s1(3) snap_dir_main [OF w(2)] w(5) by simp
  ultimately have "good_event s1 (Cut [''f''] 3)" using s1(2) w(5) good_f by (simp add: good_event_def)
  moreover have "good_events env0 (tl (tl demo_events)) s2" for s2
    using good_f by (simp add: demo_events_def good_event_def good_op_def edit_flags_def has_flag_def split: option.split)
  ultimately have "good_events env0 (tl demo_events) s1" by (simp add: demo_events_def split: option.split)
  then have "good_events env0 demo_events ?s" using a s1(1) by (simp add: demo_events_def good_event_def good_op_def)
  then show ?thesis using that w by blast
qed

lemma demo_archive: "history env0 demo_events (s, []) = Some (s', A) \<Longrightarrow> A = [(''a'', main_files s)]"
  by (auto simp: demo_events_def bind_eq_Some_conv simp del: happen.simps)

theorem snapshots_never_change_witness:
  "\<exists>w s' A. esfs_setup ''/r'' world1 = (True, w)
     \<and> history env0 demo_events (\<lparr>fs = w, fhs = []\<rparr>, []) = Some (s', A)
     \<and> snap_files s' [''a''] ''a'' [''f''] = Some [1, 2, 3, 4, 5, 6, 7]"
proof -
  obtain w where w: "esfs_setup ''/r'' world1 = (True, w)" "versions \<lparr>fs = w, fhs = []\<rparr> []"
      "main_files \<lparr>fs = w, fhs = []\<rparr> [''f''] = Some [1, 2, 3, 4, 5, 6, 7]" "good_events env0 demo_events \<lparr>fs = w, fhs = []\<rparr>"
    by (rule world1_run) blast
  obtain s' A where A: "history env0 demo_events (\<lparr>fs = w, fhs = []\<rparr>, []) = Some (s', A)"
      "\<forall>(x, f) \<in> set A. \<forall>cs. good_path cs \<longrightarrow> snap_files s' (map fst A) x cs = f cs"
    using snapshots_never_change [OF w(2,4)] by (auto simp: MAX_SNAPSHOTS_def env0_def demo_events_def simp del: history.simps)
  have "snap_files s' [''a''] ''a'' [''f''] = Some [1, 2, 3, 4, 5, 6, 7]"
    using A(2) w(3) good_f demo_archive [OF A(1)] by (simp add: good_target_def)
  then show ?thesis using w(1) A(1) by blast
qed

end
