(* ===== verification/Readback.thy ===== *)
theory Readback
  imports History
begin

text \<open>
  Reading a file in a snapshot from its path: the way from \<open>open\<close> on \<open>/snapshots/NAME/PATH\<close> through the
  map and dat files of that snapshot and the later ones (\<open>mfd_get_sn_steps\<close>) to the bytes that \<open>read\<close>
  returns. With the theory \<open>History\<close>, they are the bytes the file had when the snapshot was made.
\<close>

section \<open>Opening for reading\<close>

text \<open>New descriptors, and no other change.\<close>

definition grows :: "world \<Rightarrow> world \<Rightarrow> bool" where
  "grows w w' \<longleftrightarrow> calm w' \<and> tree w' = tree w \<and> lookup w' = lookup w \<and> os.more w' = os.more w
     \<and> (\<forall>fd f. get_fd w fd = Some f \<longrightarrow> get_fd w' fd = Some f)"

text \<open>The descriptor reads the file at a path.\<close>

definition reads_at :: "world \<Rightarrow> int \<Rightarrow> string list \<Rightarrow> bool" where
  "reads_at w fd k \<longleftrightarrow> (\<exists>f. get_fd w fd = Some f \<and> readable (of_flags f) \<and> lookup w k = Some (of_ino f))"

lemma grows_refl: "calm w \<Longrightarrow> grows w w"
  by (simp add: grows_def)

lemma grows_trans: "grows w w1 \<Longrightarrow> grows w1 w2 \<Longrightarrow> grows w w2"
  by (simp add: grows_def)

lemma grows_calm: "grows w w' \<Longrightarrow> calm w'"
  by (simp add: grows_def)

lemma grows_tree: "grows w w' \<Longrightarrow> tree w' = tree w"
  by (simp add: grows_def)

lemma grows_reads: "grows w w' \<Longrightarrow> reads_at w fd k \<Longrightarrow> reads_at w' fd k"
  by (auto simp: grows_def reads_at_def)

lemma reads_at_data:
  assumes "reads_at w fd k" and "tree w k = Some (File bs)"
  shows "reads w fd" "fd_data w fd = bs" "0 \<le> fd"
proof -
  obtain f where f: "get_fd w fd = Some f" "readable (of_flags f)" "lookup w k = Some (of_ino f)"
    using assms(1) by (auto simp: reads_at_def)
  then have v: "fd_view w fd = Some (of_ino f, of_flags f)" by (simp add: fd_view_def)
  show "reads w fd" "fd_data w fd = bs" using v f(2,3) assms(2) by (simp_all add: reads_def fd_data_def tree_File)
  show "0 \<le> fd" using fd_view_nonneg [OF v] .
qed

lemma open_read:
  assumes "calm w" and "tree w (comps p) \<noteq> Some Dir"
    and "\<forall>x bs. prefix x (comps p) \<and> x \<noteq> comps p \<longrightarrow> tree w x \<noteq> Some (File bs)"
  obtains (missing) "sys_open p O_RDONLY 0 w = (Inl ENOENT, w)" and "tree w (comps p) = None"
  | (found) fd bs w' where "sys_open p O_RDONLY 0 w = (Inr fd, w')" and "grows w w'" and "tree w (comps p) = Some (File bs)"
    and "reads_at w' fd (comps p)"
proof (cases "tree w (comps p)")
  case None
  have "tree w x \<noteq> Some (File bs)" if "prefix x (comps p)" for x bs
    using assms(3) that None by (cases "x = comps p") simp_all
  then have "resolve w (comps p) = Inl ENOENT" using resolve_no_file [of w "comps p"] None assms(1) by (simp add: calm_def)
  then have "sys_open p O_RDONLY 0 w = (Inl ENOENT, w)"
    using assms(1) by (simp add: sys_open_def pop_calm has_flag_def)
  then show ?thesis using missing None by simp
next
  case (Some n)
  then obtain bs where bs: "tree w (comps p) = Some (File bs)" using assms(2) by (cases n) auto
  obtain fd i w' where w': "sys_open p O_RDONLY 0 w = (Inr fd, w')" "calm w'"
      "tree w' = (tree w)(comps p \<mapsto> File (if has_flag O_RDONLY O_TRUNC then [] else bs))"
      "lookup w' (comps p) = Some i"
      "get_fd w' = (get_fd w)(fd \<mapsto> \<lparr>of_ino = i, of_flags = O_RDONLY, of_pos = 0\<rparr>)"
      "get_fd w fd = None" "os.more w' = os.more w" "lookup w' = lookup w"
    by (rule open_file [OF assms(1) bs, of O_RDONLY 0]) (simp add: has_flag_def)
  have "tree w' = tree w" using w'(3) bs by (simp add: has_flag_def fun_upd_idem)
  then have "grows w w'" using w'(2,5-8) by (auto simp: grows_def)
  moreover have "reads_at w' fd (comps p)" using w'(4,5) by (simp add: reads_at_def readable_def)
  ultimately show ?thesis using found w'(1) bs by blast
qed

lemma open_read_dir:
  assumes "calm w" and "tree w (comps p) = Some Dir"
  obtains fd f w' where "sys_open p O_RDONLY 0 w = (Inr fd, w')" and "grows w w'"
    and "get_fd w' fd = Some f" and "lookup w' (comps p) = Some (of_ino f)"
proof -
  obtain i where i: "lookup w (comps p) = Some i" "is_dir w i" using assms(2) by (auto simp: tree_Dir)
  have "resolve w (comps p) = Inr i" using assms(1) i(1) by (simp add: calm_def resolve_Inr)
  moreover obtain fd w' where "alloc_fd i O_RDONLY w = (Inr fd, w')" "calm w'" "tree w' = tree w" "lookup w' = lookup w"
      "get_fd w' = (get_fd w)(fd \<mapsto> \<lparr>of_ino = i, of_flags = O_RDONLY, of_pos = 0\<rparr>)" "get_fd w fd = None" "os.more w' = os.more w"
    by (rule alloc_fd_calm [OF assms(1) i(1)])
  ultimately show ?thesis
    using that [of fd w' "\<lparr>of_ino = i, of_flags = O_RDONLY, of_pos = 0\<rparr>"] assms(1) i
    by (auto simp: sys_open_def pop_calm has_flag_def writable_def grows_def)
qed

section \<open>One step\<close>

text \<open>The descriptors of a step are those of the layer of the file in the snapshot.\<close>

definition step_is :: "world \<Rightarrow> sn_step \<Rightarrow> string list \<Rightarrow> string list \<Rightarrow> bool" where
  "step_is w st S cs \<longleftrightarrow>
     (if file_of (tree w (S @ map_key cs)) = None then step_mapfd st < 0
      else reads_at w (step_mapfd st) (S @ map_key cs)
        \<and> (if file_of (tree w (S @ dat_key cs)) = None then step_datfd st < 0
           else reads_at w (step_datfd st) (S @ dat_key cs)))"

text \<open>Both the map and the dat file are there.\<close>

definition full :: "(string list \<Rightarrow> node option) \<Rightarrow> string list \<Rightarrow> string list \<Rightarrow> bool" where
  "full t S cs \<longleftrightarrow> file_of (t (S @ map_key cs)) \<noteq> None \<and> file_of (t (S @ dat_key cs)) \<noteq> None"

lemma file_of_Some: "file_of n = Some bs \<longleftrightarrow> n = Some (File bs)" "file_of (Some (File bs)) = Some bs"
  by (auto simp: file_of_def split: option.splits node.splits)

lemma step_is_layer:
  assumes "step_is w st S cs"
  shows "step_layer w st = layer_at (tree w) S cs"
    "layer_at (tree w) S cs = Some l \<Longrightarrow> layer_wf (bl_slog w) l b \<Longrightarrow> step_ok w st b"
proof -
  have neg: "fd_data w fd = []" if "fd < 0" for fd
    using that fd_view_nonneg [of w fd] by (cases "fd_view w fd") (auto simp: fd_data_def)
  show e: "step_layer w st = layer_at (tree w) S cs"
  proof (cases "file_of (tree w (S @ map_key cs))")
    case None
    then show ?thesis using assms by (simp add: step_is_def step_layer_def layer_at_def)
  next
    case (Some mb)
    then have m: "reads_at w (step_mapfd st) (S @ map_key cs)" "tree w (S @ map_key cs) = Some (File mb)"
      using assms by (simp_all add: step_is_def file_of_Some)
    show ?thesis
      using reads_at_data [OF m] reads_at_data(2) [of w "step_datfd st" "S @ dat_key cs"] assms Some neg [of "step_datfd st"]
      by (cases "file_of (tree w (S @ dat_key cs))") (auto simp: step_is_def step_layer_def layer_at_def file_of_Some)
  qed
  assume l: "layer_at (tree w) S cs = Some l" "layer_wf (bl_slog w) l b"
  then obtain mb where mb: "tree w (S @ map_key cs) = Some (File mb)" by (auto simp: layer_at_def file_of_Some)
  then have "reads w (step_mapfd st)"
    using assms reads_at_data(1) [of w _ "S @ map_key cs"] by (auto simp: step_is_def file_of_def split: if_splits)
  moreover have "snd l = [] \<or> reads w (step_datfd st)"
  proof (cases "file_of (tree w (S @ dat_key cs))")
    case None
    then show ?thesis using l(1) by (auto simp: layer_at_def)
  next
    case (Some db)
    then show ?thesis
      using assms mb reads_at_data(1) [of w _ "S @ dat_key cs"] by (auto simp: step_is_def file_of_Some)
  qed
  ultimately show "step_ok w st b" using e l by (simp add: step_ok_def)
qed

lemma step_is_grows: "step_is w st S cs \<Longrightarrow> grows w w' \<Longrightarrow> step_is w' st S cs"
  using grows_reads [of w w'] by (auto simp: step_is_def grows_tree)

text \<open>The names of the map and the dat file of a step.\<close>

lemma ext_path:
  assumes "good_path cs" and "comps p = S" and "length p + length (sub_path [] cs) + EXT_LEN < PATH_MAX"
  shows "get_map_path (p @ sub_path [] cs) = Inr (p @ sub_path [] cs @ EXT_MAP)"
    "get_dat_path (p @ sub_path [] cs) = Inr (p @ sub_path [] cs @ EXT_DAT)"
    "comps (p @ sub_path [] cs @ EXT_MAP) = S @ map_key cs" "comps (p @ sub_path [] cs @ EXT_DAT) = S @ dat_key cs"
proof -
  have "length (p @ sub_path [] cs) < 2 ^ 64" "EXT_LEN \<le> PATH_MAX" using assms(3) by (simp_all add: PATH_MAX_def)
  from size_lt_diff [OF this] assms(3)
  show "get_map_path (p @ sub_path [] cs) = Inr (p @ sub_path [] cs @ EXT_MAP)"
    "get_dat_path (p @ sub_path [] cs) = Inr (p @ sub_path [] cs @ EXT_DAT)"
    by (simp_all add: get_map_path_def get_dat_path_def EXT_MAP_def EXT_DAT_def EXT_LEN_def)
  have "cs \<noteq> []" using assms(1) by (simp add: good_path_def)
  then show "comps (p @ sub_path [] cs @ EXT_MAP) = S @ map_key cs" "comps (p @ sub_path [] cs @ EXT_DAT) = S @ dat_key cs"
    using concat_dirsep_comps [OF good_keys(1) [OF assms(1)], of p] concat_dirsep_comps [OF good_keys(2) [OF assms(1)], of p]
      sub_path_ext [of cs p EXT_MAP] sub_path_ext [of cs p EXT_DAT] assms(2) by (simp_all add: map_key_def dat_key_def)
qed

text \<open>No directory is in the way of a map or dat file.\<close>

lemma layer_way:
  assumes "shape (tree w) S" and "good_path cs" and "os_wf w" and "tree w S = Some Dir"
    and k: "k = S @ map_key cs \<or> k = S @ dat_key cs"
  shows "tree w k \<noteq> Some Dir" "prefix x k \<Longrightarrow> x \<noteq> k \<Longrightarrow> tree w x \<noteq> Some (File bs)"
proof -
  show "tree w k \<noteq> Some Dir" using grown_no_dir [OF grown_refl assms(1,2)] k by auto
  assume x: "prefix x k" "x \<noteq> k"
  have b: "butlast k = S @ butlast cs" using k by (auto simp: map_key_def dat_key_def butlast_append)
  have "k \<noteq> []" using k good_keys(4,5) [OF assms(2)] by auto
  then have xb: "prefix x (S @ butlast cs)" using x b by (metis append_butlast_last_id prefix_snoc)
  show "tree w x \<noteq> Some (File bs)"
  proof (cases "prefix S x")
    case True
    then obtain ds where ds: "x = S @ ds" "prefix ds (butlast cs)" using xb by (auto simp: prefix_def)
    then have "list_all plain ds" using assms(2) by (auto simp: good_path_def prefix_def)
    then show ?thesis using assms(1) ds(1) by (auto simp: shape_def list_all_iff)
  next
    case False
    then have "prefix x S" "x \<noteq> S" using xb by (auto simp: prefix_append)
    then show ?thesis using tree_prefix [OF assms(3,4)] by simp
  qed
qed

lemma step_map_read:
  fixes m :: mfd
  assumes "calm w" and "shape (tree w) S" and "tree w S = Some Dir" and cs: "good_path cs" and p: "comps p = S"
    and len: "length p + length (sub_path [] cs) + EXT_LEN < PATH_MAX"
    and hd: "\<And>mb. tree w (S @ map_key cs) = Some (File mb) \<Longrightarrow> header_ok (map_header mb) \<and> MAPHEADER_S \<le> length mb"
    and sp: "step_path (sn_steps m ! i) = p @ sub_path [] cs" and i: "i < length (sn_steps m)"
  shows "\<exists>st h w'. sn_step_map SN_STEPS_F_FILE i (Inr ()) m w =
      ((if full (tree w) S cs then Fall else Continue, Inr (), m\<lparr>sn_steps := (sn_steps m)[i := st]\<rparr>, h), w')
    \<and> grows w w' \<and> step_is w' st S cs
    \<and> (full (tree w) S cs \<longrightarrow> h = map_header (bytes_of (file_of (tree w (S @ map_key cs)))))"
proof -
  note e = ext_path [OF cs p len]
  have wf: "os_wf w" using assms(1) by (simp add: calm_def)
  note way = layer_way [OF assms(2) cs wf assms(3)]
  have "calm w" "tree w (comps (p @ sub_path [] cs @ EXT_MAP)) \<noteq> Some Dir"
    "\<forall>x bs. prefix x (comps (p @ sub_path [] cs @ EXT_MAP)) \<and> x \<noteq> comps (p @ sub_path [] cs @ EXT_MAP) \<longrightarrow> tree w x \<noteq> Some (File bs)"
    unfolding e(3) using way [of "S @ map_key cs"] assms(1) by blast+
  then show ?thesis
  proof (cases rule: open_read)
    case missing
    then have "\<not> full (tree w) S cs" using e(3) by (simp add: full_def file_of_def)
    moreover have "step_is w ((sn_steps m ! i)\<lparr>step_mapfd := SN_STEPS_UNUSED, step_datfd := SN_STEPS_UNUSED\<rparr>) S cs"
      using missing(2) e(3) by (simp add: step_is_def file_of_def)
    moreover have "sn_step_map SN_STEPS_F_FILE i (Inr ()) m w = ((Continue, Inr (), m\<lparr>sn_steps := (sn_steps m)[i :=
        (sn_steps m ! i)\<lparr>step_mapfd := SN_STEPS_UNUSED, step_datfd := SN_STEPS_UNUSED\<rparr>]\<rparr>, mapheader m), w)"
      using missing(1) e(1) sp by (simp add: sn_step_map_def unused_step_def upd_step_def)
    ultimately show ?thesis using grows_refl [OF assms(1)] by (simp only: if_False) blast
  next
    case (found fd mb w1)
    have mb: "tree w (S @ map_key cs) = Some (File mb)" using found(3) e(3) by simp
    have t1: "tree w1 = tree w" "calm w1" using found(2) by (simp_all add: grows_def)
    obtain f where f: "get_fd w1 fd = Some f" "readable (of_flags f)" "lookup w1 (S @ map_key cs) = Some (of_ino f)"
      using found(4) e(3) by (auto simp: reads_at_def)
    have ld: "mfd_load_mapheader h fd w1 = ((Inr (), map_header mb), w1)" for h
      by (rule load_calm [OF t1(2) _ f(2,3)]) (use f(1) mb t1(1) hd [OF mb] in \<open>simp_all add: fd_view_def\<close>)
    let ?m1 = "upd_step i (\<lambda>s. s\<lparr>step_mapfd := fd\<rparr>) m"
    have sp1: "step_path (sn_steps ?m1 ! i) = p @ sub_path [] cs" using sp i by (simp add: upd_step_def)
    have "calm w1" "tree w1 (comps (p @ sub_path [] cs @ EXT_DAT)) \<noteq> Some Dir"
      "\<forall>x bs. prefix x (comps (p @ sub_path [] cs @ EXT_DAT)) \<and> x \<noteq> comps (p @ sub_path [] cs @ EXT_DAT) \<longrightarrow> tree w1 x \<noteq> Some (File bs)"
      unfolding e(4) t1(1) using way [of "S @ dat_key cs"] t1(2) by blast+
    then show ?thesis
    proof (cases rule: open_read)
      case missing
      then have "\<not> full (tree w) S cs" using e(4) t1(1) by (simp add: full_def file_of_def)
      moreover have "step_is w1 ((sn_steps m ! i)\<lparr>step_mapfd := fd, step_datfd := SN_STEPS_UNUSED\<rparr>) S cs"
        using missing(2) e(3,4) mb t1(1) found(4) by (simp add: step_is_def file_of_def)
      moreover have "sn_step_map SN_STEPS_F_FILE i (Inr ()) m w = ((Continue, Inr (), m\<lparr>sn_steps := (sn_steps m)[i :=
          (sn_steps m ! i)\<lparr>step_mapfd := fd, step_datfd := SN_STEPS_UNUSED\<rparr>]\<rparr>, map_header mb), w1)"
        using missing(1) found(1) e(1,2) sp sp1 ld i by (simp add: sn_step_map_def sn_step_dat_def upd_step_def has_flag_def)
      ultimately show ?thesis using found(2) by (simp only: if_False) blast
    next
      case (found fd2 db w2)
      then have "full (tree w) S cs" using e(4) t1(1) mb by (simp add: full_def file_of_def)
      moreover have "step_is w2 ((sn_steps m ! i)\<lparr>step_mapfd := fd, step_datfd := fd2\<rparr>) S cs"
        using found(2-4) e(3,4) mb t1(1) grows_reads [OF found(2) \<open>reads_at w1 fd (comps (p @ sub_path [] cs @ EXT_MAP))\<close>]
        by (simp add: step_is_def file_of_def grows_tree)
      moreover have "grows w w2" using \<open>grows w w1\<close> found(2) by (rule grows_trans)
      moreover have "sn_step_map SN_STEPS_F_FILE i (Inr ()) m w = ((Fall, Inr (), m\<lparr>sn_steps := (sn_steps m)[i :=
          (sn_steps m ! i)\<lparr>step_mapfd := fd, step_datfd := fd2\<rparr>]\<rparr>, map_header mb), w2)"
        using found(1) \<open>sys_open (p @ sub_path [] cs @ EXT_MAP) O_RDONLY 0 w = (Inr fd, w1)\<close> e(1,2) sp sp1 ld i
        by (simp add: sn_step_map_def sn_step_dat_def upd_step_def has_flag_def)
      moreover have "bytes_of (file_of (tree w (S @ map_key cs))) = mb" using mb by (simp add: file_of_def)
      ultimately show ?thesis by (simp only: if_True) blast
    qed
  qed
qed

lemma step_body_read:
  fixes m :: mfd
  assumes "calm w" and "shape (tree w) S" and "tree w S = Some Dir" and cs: "good_path cs" and p: "comps p = S"
    and len: "length p + length (sub_path [] cs) + EXT_LEN < PATH_MAX"
    and hd: "\<And>mb. tree w (S @ map_key cs) = Some (File mb) \<Longrightarrow> header_ok (map_header mb) \<and> MAPHEADER_S \<le> length mb"
    and sp: "step_path (sn_steps m ! i) = p" and i: "i < length (sn_steps m)" "0 < i"
  obtains st m1 w1 where "sn_step_body SN_STEPS_F_FILE (sub_path [] cs) i (Inr ()) m w =
      ((if full (tree w) S cs then Fall else Continue, Inr (), m1), w1)"
    and "grows w w1" and "step_is w1 st S cs"
    and "m1 = (if full (tree w) S cs \<and> sn_first_file m = -1
      then m\<lparr>sn_steps := (sn_steps m)[i := st], sn_first_file := int i,
        mapheader := map_header (bytes_of (file_of (tree w (S @ map_key cs))))\<rparr>
      else m\<lparr>sn_steps := (sn_steps m)[i := st]\<rparr>)"
proof -
  let ?m = "upd_step i (\<lambda>t. t\<lparr>step_path := p @ sub_path [] cs\<rparr>) m"
  have u: "step_path (sn_steps ?m ! i) = p @ sub_path [] cs" "i < length (sn_steps ?m)" using i by (simp_all add: upd_step_def)
  obtain st h w1 where r: "sn_step_map SN_STEPS_F_FILE i (Inr ()) ?m w =
      ((if full (tree w) S cs then Fall else Continue, Inr (), ?m\<lparr>sn_steps := (sn_steps ?m)[i := st]\<rparr>, h), w1)"
      "grows w w1" "step_is w1 st S cs"
      "full (tree w) S cs \<longrightarrow> h = map_header (bytes_of (file_of (tree w (S @ map_key cs))))"
    using step_map_read [OF assms(1-3) cs p len hd u] by blast
  have b: "sn_step_body SN_STEPS_F_FILE (sub_path [] cs) i (Inr ()) m w = sn_step_file SN_STEPS_F_FILE i (Inr ()) ?m w"
    using sp len by (simp add: sn_step_body_def sn_known_type_def has_flag_def)
  have s: "(sn_steps ?m)[i := st] = (sn_steps m)[i := st]" "?m\<lparr>sn_steps := x\<rparr> = m\<lparr>sn_steps := x\<rparr>" for x
    by (simp_all add: upd_step_def)
  show ?thesis
    by (rule that [OF _ r(2,3) refl])
      (use b r(1,4) s i(2) in \<open>simp add: sn_step_file_def sn_step_first_def has_flag_def split del: if_split split: if_split_asm\<close>)
qed

text \<open>The descriptor of the main file; there may be none, or a directory in its place.\<close>

definition main_is :: "world \<Rightarrow> sn_step \<Rightarrow> string list \<Rightarrow> bool" where
  "main_is w st k \<longleftrightarrow>
     (case tree w k of
        None \<Rightarrow> step_datfd st < 0
      | Some Dir \<Rightarrow> (\<exists>f. get_fd w (step_datfd st) = Some f \<and> lookup w k = Some (of_ino f))
      | Some (File _) \<Rightarrow> reads_at w (step_datfd st) k)"

text \<open>No file of the main space has the name of a directory above the file.\<close>

definition clear_way :: "(string list \<Rightarrow> node option) \<Rightarrow> string list \<Rightarrow> bool" where
  "clear_way t k \<longleftrightarrow> (\<forall>x bs. prefix x k \<and> x \<noteq> k \<longrightarrow> t x \<noteq> Some (File bs))"

definition main_first :: "node option \<Rightarrow> mfd \<Rightarrow> bool" where
  "main_first n m \<longleftrightarrow>
     (case n of
        None \<Rightarrow> sn_first_file m = -1
      | Some Dir \<Rightarrow> sn_first_file m = 0
      | Some (File bs) \<Rightarrow> sn_first_file m = 0 \<and> sn_size m = length bs)"

lemma main_is_data:
  assumes "main_is w st k"
  shows "fd_data w (step_datfd st) = bytes_of (file_of (tree w k))"
    "file_of (tree w k) \<noteq> None \<Longrightarrow> reads w (step_datfd st)"
proof -
  have neg: "fd_data w fd = []" if "fd < 0" for fd
    using that fd_view_nonneg [of w fd] by (cases "fd_view w fd") (auto simp: fd_data_def)
  have dir: "fd_data w fd = []" if "tree w k = Some Dir" "get_fd w fd = Some f" "lookup w k = Some (of_ino f)" for fd f
    using that by (simp add: fd_data_def fd_view_def tree_Dir)
  show "fd_data w (step_datfd st) = bytes_of (file_of (tree w k))" "file_of (tree w k) \<noteq> None \<Longrightarrow> reads w (step_datfd st)"
    using assms neg dir reads_at_data [of w "step_datfd st" k]
    by (auto simp: main_is_def file_of_def split: option.splits node.splits)
qed

lemma step_main_open:
  assumes "calm w" and "clear_way (tree w) (comps p)"
  obtains (missing) "sys_open p O_RDONLY 0 w = (Inl ENOENT, w)" and "tree w (comps p) = None"
  | (found) fd w' where "sys_open p O_RDONLY 0 w = (Inr fd, w')" and "grows w w'" and "tree w (comps p) \<noteq> None"
    and "\<And>st. step_datfd st = fd \<Longrightarrow> main_is w' st (comps p)"
proof (cases "tree w (comps p) = Some Dir")
  case True
  obtain fd f w' where "sys_open p O_RDONLY 0 w = (Inr fd, w')" "grows w w'" "get_fd w' fd = Some f" "lookup w' (comps p) = Some (of_ino f)"
    by (rule open_read_dir [OF assms(1) True])
  then show ?thesis using found True by (simp add: main_is_def grows_tree)
next
  case False
  from assms(1) False assms(2) [unfolded clear_way_def] show ?thesis
  proof (cases rule: open_read)
    case missing
    then show ?thesis using that(1) by simp
  next
    case (found fd bs w')
    then show ?thesis using that(2) [OF found(1,2)] by (simp add: main_is_def grows_tree)
  qed
qed

lemma step_main_read:
  fixes m :: mfd
  assumes "calm w" and "comps (p @ vp) = k" and way: "clear_way (tree w) k" and len: "length p + length vp < PATH_MAX"
    and sp: "step_path (sn_steps m ! 0) = p" and i: "0 < length (sn_steps m)"
  obtains st m1 w1 where "sn_step_body SN_STEPS_F_FILE vp 0 (Inr ()) m w =
      ((if tree w k = None then Continue else Fall, Inr (), m1), w1)"
    and "grows w w1" and "main_is w1 st k" and "sn_steps m1 = (sn_steps m)[0 := st]"
    and "mfd_locklabel m1 = string2locklabel (p @ vp)" and "sn_current m1 = sn_current m" and "mfd_sn_number m1 = mfd_sn_number m"
    and "if sn_first_file m = -1 then main_first (tree w k) m1
      else sn_first_file m1 = sn_first_file m \<and> mapheader m1 = mapheader m"
proof -
  let ?m = "upd_step 0 (\<lambda>t. t\<lparr>step_path := p @ vp\<rparr>) m"
  let ?n = "(upd_step 0 (\<lambda>s. s\<lparr>step_mapfd := SN_STEPS_MAIN\<rparr>) ?m)\<lparr>mfd_locklabel := string2locklabel (p @ vp)\<rparr>"
  have b: "sn_step_body SN_STEPS_F_FILE vp 0 (Inr ()) m w = sn_step_file SN_STEPS_F_FILE 0 (Inr ()) ?m w"
    using sp len by (simp add: sn_step_body_def sn_known_type_def has_flag_def)
  have u: "sn_steps ?m ! 0 = (sn_steps m ! 0)\<lparr>step_path := p @ vp\<rparr>" using i by (simp add: upd_step_def)
  from assms(1) way [folded assms(2)] show ?thesis
  proof (cases rule: step_main_open)
    case missing
    let ?st = "(sn_steps m ! 0)\<lparr>step_path := p @ vp, step_mapfd := SN_STEPS_MAIN, step_datfd := SN_STEPS_UNUSED\<rparr>"
    have n: "tree w k = None" using missing(2) assms(2) by simp
    have "sn_step_body SN_STEPS_F_FILE vp 0 (Inr ()) m w =
        ((Continue, Inr (), upd_step 0 (\<lambda>s. s\<lparr>step_datfd := SN_STEPS_UNUSED\<rparr>) ?n), w)"
      using b missing(1) u by (simp add: sn_step_file_def sn_step_main_def has_flag_def Let_def)
    moreover have "main_is w ?st k" using n by (simp add: main_is_def)
    ultimately show ?thesis
      using that [of _ w ?st] n grows_refl [OF assms(1)] i by (simp add: upd_step_def main_first_def)
  next
    case (found fd w1)
    let ?st = "(sn_steps m ! 0)\<lparr>step_path := p @ vp, step_mapfd := SN_STEPS_MAIN, step_datfd := fd\<rparr>"
    let ?q = "upd_step 0 (\<lambda>s. s\<lparr>step_datfd := fd\<rparr>) ?n"
    obtain n where n: "tree w k = Some n" using found(3) assms(2) by auto
    then have t: "calm w1" "tree w1 (comps (p @ vp)) = Some n" using found(2) assms(2) by (simp_all add: grows_def)
    obtain a where a: "sys_lstat (p @ vp) w1 = (Inr a, w1)" "\<And>bs. n = File bs \<Longrightarrow> st_size a = length bs"
      using lstat_found [OF t] by blast
    have sq: "sn_steps ?q ! 0 = ?st" "sn_steps ?q = (sn_steps m)[0 := ?st]" "sn_first_file ?q = sn_first_file m"
      using i by (simp_all add: upd_step_def)
    have "sn_step_body SN_STEPS_F_FILE vp 0 (Inr ()) m w =
        ((Fall, Inr (), if sn_first_file m = -1 then set_fstat a (?q\<lparr>sn_first_file := 0\<rparr>) else ?q), w1)"
      using b found(1) u a(1) sq by (simp add: sn_step_file_def sn_step_main_def sn_step_first_def has_flag_def Let_def)
    moreover have "main_is w1 ?st k" using found(4) [of ?st] assms(2) by simp
    moreover have "main_first (tree w k) (set_fstat a (?q\<lparr>sn_first_file := 0\<rparr>))"
      using n a(2) by (simp add: main_first_def set_fstat_def split: node.split)
    ultimately show ?thesis
      using that [of _ w1 ?st] n found(2) sq by (simp add: upd_step_def set_fstat_def)
  qed
qed

section \<open>All the steps\<close>

text \<open>What opening needs, when \<open>ys\<close> are the snapshots from the latest to the one of the path.\<close>

definition snap_way :: "world \<Rightarrow> string list \<Rightarrow> string list \<Rightarrow> bool" where
  "snap_way w ys cs \<longleftrightarrow> good_path cs \<and> length (rootdir w) + length (sub_path [] cs) < PATH_MAX
     \<and> (\<forall>y \<in> set ys. good_name y \<and> tree w (comps (sn_dir w) @ [y]) = Some Dir \<and> shape (tree w) (comps (sn_dir w) @ [y])
          \<and> length (sn_root (sn_dir w) y) + length (sub_path [] cs) + EXT_LEN < PATH_MAX
          \<and> (\<forall>mb. tree w (comps (sn_dir w) @ y # map_key cs) = Some (File mb) \<longrightarrow>
               header_ok (map_header mb) \<and> MAPHEADER_S \<le> length mb))"

definition way_ok :: "world \<Rightarrow> string list \<Rightarrow> string list \<Rightarrow> bool" where
  "way_ok w ys cs \<longleftrightarrow> snap_way w ys cs \<and> clear_way (tree w) (comps (rootdir w) @ cs)"

text \<open>The step where the search for a block begins: the first with a map and a dat file.\<close>

fun first_step :: "(string list \<Rightarrow> node option) \<Rightarrow> string list \<Rightarrow> string list \<Rightarrow> string list \<Rightarrow> nat \<Rightarrow> nat" where
  "first_step t K ys cs 0 = 0"
| "first_step t K ys cs (Suc j) = (if full t (K @ [ys ! j]) cs then Suc j else first_step t K ys cs j)"

definition first_is :: "world \<Rightarrow> string list \<Rightarrow> string list \<Rightarrow> nat \<Rightarrow> mfd \<Rightarrow> bool" where
  "first_is w ys cs n m \<longleftrightarrow>
     (if n = 0
      then main_first (tree w (comps (rootdir w) @ cs)) m
      else sn_first_file m = int n
        \<and> mapheader m = map_header (bytes_of (file_of (tree w (comps (sn_dir w) @ ys ! (n - 1) # map_key cs)))))"

definition snaps_read :: "world \<Rightarrow> string list \<Rightarrow> string list \<Rightarrow> nat \<Rightarrow> mfd \<Rightarrow> bool" where
  "snaps_read w ys cs j m \<longleftrightarrow> (\<forall>i<j. step_is w (sn_steps m ! Suc i) (comps (sn_dir w) @ [ys ! i]) cs)"

definition steps_read :: "world \<Rightarrow> string list \<Rightarrow> string list \<Rightarrow> nat \<Rightarrow> mfd \<Rightarrow> bool" where
  "steps_read w ys cs j m \<longleftrightarrow> main_is w (sn_steps m ! 0) (comps (rootdir w) @ cs) \<and> snaps_read w ys cs j m
     \<and> mfd_locklabel m = string2locklabel (rootdir w @ sub_path [] cs)"

lemma grows_fields: "grows w w' \<Longrightarrow> rootdir w' = rootdir w \<and> sn_dir w' = sn_dir w \<and> bl_slog w' = bl_slog w
    \<and> sn_number w' = sn_number w \<and> mflocks w' = mflocks w"
  using more_fields [of w' w] by (simp add: grows_def)

lemma snap_way_grows: "grows w w' \<Longrightarrow> snap_way w' ys cs = snap_way w ys cs"
  by (simp add: snap_way_def grows_tree grows_fields)

lemma snaps_read_grows: "snaps_read w ys cs j m \<Longrightarrow> grows w w' \<Longrightarrow> snaps_read w' ys cs j m"
  by (auto simp: snaps_read_def grows_fields intro: step_is_grows)

lemma first_is_grows: "grows w w' \<Longrightarrow> first_is w' ys cs n m = first_is w ys cs n m"
  by (simp add: first_is_def grows_tree grows_fields)

lemma first_is_main: "first_is w ys cs n (m\<lparr>is_main := x\<rparr>) = first_is w ys cs n m"
  by (simp add: first_is_def main_first_def split: option.split node.split)

lemma main_comps: "good_path cs \<Longrightarrow> comps (p @ sub_path [] cs) = comps p @ cs"
  using concat_dirsep_comps [of cs p] by (simp add: good_path_def sub_path_def)

lemma steps_loop_snaps:
  assumes "snap_way w ys cs" and "calm w" and "j \<le> length ys" and "length (sn_steps m) = Suc (length ys)"
    and "\<And>i. i \<le> j \<Longrightarrow> step_path (sn_steps m ! i) = (rootdir w # map (sn_root (sn_dir w)) ys) ! i"
  shows "\<exists>m' w'. sn_steps_loop SN_STEPS_F_FILE (sub_path [] cs) (Suc j) (Inr ()) m w
      = sn_steps_loop SN_STEPS_F_FILE (sub_path [] cs) (Suc 0) (Inr ()) m' w'
    \<and> grows w w' \<and> length (sn_steps m') = Suc (length ys) \<and> (\<forall>i>j. sn_steps m' ! i = sn_steps m ! i)
    \<and> sn_steps m' ! 0 = sn_steps m ! 0
    \<and> snaps_read w' ys cs j m' \<and> sn_current m' = sn_current m \<and> mfd_sn_number m' = mfd_sn_number m
    \<and> (if sn_first_file m = -1 \<and> first_step (tree w) (comps (sn_dir w)) ys cs j \<noteq> 0
       then first_is w ys cs (first_step (tree w) (comps (sn_dir w)) ys cs j) m'
       else sn_first_file m' = sn_first_file m \<and> mapheader m' = mapheader m)"
  using assms
proof (induction j arbitrary: m w)
  case 0
  then show ?case using grows_refl [OF 0(2)] by (auto simp: snaps_read_def simp del: sn_steps_loop.simps)
next
  case (Suc j)
  let ?S = "comps (sn_dir w) @ [ys ! j]" and ?p = "sn_root (sn_dir w) (ys ! j)"
  have j: "j < length ys" "ys ! j \<in> set ys" using Suc.prems(3) by simp_all
  have way: "good_path cs" "good_name (ys ! j)" "tree w ?S = Some Dir" "shape (tree w) ?S"
      "length ?p + length (sub_path [] cs) + EXT_LEN < PATH_MAX"
      "\<And>mb. tree w (?S @ map_key cs) = Some (File mb) \<Longrightarrow> header_ok (map_header mb) \<and> MAPHEADER_S \<le> length mb"
    using Suc.prems(1) j(2) by (simp_all add: snap_way_def)
  have sp: "step_path (sn_steps m ! Suc j) = ?p" "Suc j < length (sn_steps m)" "0 < Suc j"
    using Suc.prems(4) Suc.prems(5) [of "Suc j"] j by simp_all
  obtain st m1 w1 where m1: "sn_step_body SN_STEPS_F_FILE (sub_path [] cs) (Suc j) (Inr ()) m w =
      ((if full (tree w) ?S cs then Fall else Continue, Inr (), m1), w1)"
      "grows w w1" "step_is w1 st ?S cs"
      "m1 = (if full (tree w) ?S cs \<and> sn_first_file m = -1
        then m\<lparr>sn_steps := (sn_steps m)[Suc j := st], sn_first_file := int (Suc j),
          mapheader := map_header (bytes_of (file_of (tree w (?S @ map_key cs))))\<rparr>
        else m\<lparr>sn_steps := (sn_steps m)[Suc j := st]\<rparr>)"
    by (rule step_body_read [OF Suc.prems(2) way(4,3,1) comps_sn_root [OF way(2)] way(5,6) sp])
  note f = grows_fields [OF m1(2)] and t = grows_tree [OF m1(2)]
  have st: "sn_steps m1 = (sn_steps m)[Suc j := st]" "sn_current m1 = sn_current m" "mfd_sn_number m1 = mfd_sn_number m"
    using m1(4) by auto
  have "snap_way w1 ys cs" using Suc.prems(1) snap_way_grows [OF m1(2)] by simp
  moreover have "calm w1" using m1(2) by (rule grows_calm)
  moreover have "j \<le> length ys" "length (sn_steps m1) = Suc (length ys)" using j(1) st(1) Suc.prems(4) by simp_all
  moreover have "step_path (sn_steps m1 ! i) = (rootdir w1 # map (sn_root (sn_dir w1)) ys) ! i" if "i \<le> j" for i
    using that Suc.prems(5) [of i] st(1) f by simp
  ultimately obtain m2 w2 where m2: "sn_steps_loop SN_STEPS_F_FILE (sub_path [] cs) (Suc j) (Inr ()) m1 w1
        = sn_steps_loop SN_STEPS_F_FILE (sub_path [] cs) (Suc 0) (Inr ()) m2 w2"
      "grows w1 w2" "length (sn_steps m2) = Suc (length ys)" "\<forall>i>j. sn_steps m2 ! i = sn_steps m1 ! i"
      "sn_steps m2 ! 0 = sn_steps m1 ! 0"
      "snaps_read w2 ys cs j m2" "sn_current m2 = sn_current m1" "mfd_sn_number m2 = mfd_sn_number m1"
      "if sn_first_file m1 = -1 \<and> first_step (tree w1) (comps (sn_dir w1)) ys cs j \<noteq> 0
       then first_is w1 ys cs (first_step (tree w1) (comps (sn_dir w1)) ys cs j) m2
       else sn_first_file m2 = sn_first_file m1 \<and> mapheader m2 = mapheader m1"
    using Suc.IH [of w1 m1] by blast
  have "sn_steps_loop SN_STEPS_F_FILE (sub_path [] cs) (Suc (Suc j)) (Inr ()) m w
      = sn_steps_loop SN_STEPS_F_FILE (sub_path [] cs) (Suc j) (Inr ()) m1 w1"
    using m1(1) by (subst sn_steps_loop.simps) (simp del: sn_steps_loop.simps)
  note eq = trans [OF this m2(1)]
  have "step_is w2 (sn_steps m2 ! Suc j) ?S cs"
    using step_is_grows [OF m1(3) m2(2)] m2(4) st(1) sp(2) by simp
  then have "snaps_read w2 ys cs (Suc j) m2"
    using m2(6) grows_fields [OF m2(2)] f by (auto simp: snaps_read_def less_Suc_eq)
  moreover have "if sn_first_file m = -1 \<and> first_step (tree w) (comps (sn_dir w)) ys cs (Suc j) \<noteq> 0
      then first_is w ys cs (first_step (tree w) (comps (sn_dir w)) ys cs (Suc j)) m2
      else sn_first_file m2 = sn_first_file m \<and> mapheader m2 = mapheader m"
    using m2(9) m1(4) first_is_grows [OF m1(2)] f t by (auto simp: first_is_def split: if_splits)
  moreover have "grows w w2" using m1(2) m2(2) by (rule grows_trans)
  ultimately show ?case using eq m2(3-5,7,8) st by (intro exI [of _ m2] exI [of _ w2]) (simp del: sn_steps_loop.simps)
qed

lemma steps_loop_read:
  assumes "way_ok w ys cs" and "calm w" and "length (sn_steps m) = Suc (length ys)"
    and "\<And>i. i \<le> length ys \<Longrightarrow> step_path (sn_steps m ! i) = (rootdir w # map (sn_root (sn_dir w)) ys) ! i"
    and "sn_first_file m = -1"
  shows "\<exists>m' w'. sn_steps_loop SN_STEPS_F_FILE (sub_path [] cs) (Suc (length ys)) (Inr ()) m w = ((Inr (), m'), w')
    \<and> grows w w' \<and> steps_read w' ys cs (length ys) m' \<and> sn_current m' = sn_current m \<and> mfd_sn_number m' = mfd_sn_number m
    \<and> first_is w ys cs (first_step (tree w) (comps (sn_dir w)) ys cs (length ys)) m'"
proof -
  let ?n = "first_step (tree w) (comps (sn_dir w)) ys cs (length ys)"
  have sw: "snap_way w ys cs" "clear_way (tree w) (comps (rootdir w) @ cs)" using assms(1) by (simp_all add: way_ok_def)
  obtain m1 w1 where m1: "sn_steps_loop SN_STEPS_F_FILE (sub_path [] cs) (Suc (length ys)) (Inr ()) m w
        = sn_steps_loop SN_STEPS_F_FILE (sub_path [] cs) (Suc 0) (Inr ()) m1 w1"
      "grows w w1" "length (sn_steps m1) = Suc (length ys)" "sn_steps m1 ! 0 = sn_steps m ! 0"
      "snaps_read w1 ys cs (length ys) m1" "sn_current m1 = sn_current m" "mfd_sn_number m1 = mfd_sn_number m"
      "if ?n \<noteq> 0 then first_is w ys cs ?n m1 else sn_first_file m1 = -1"
    using steps_loop_snaps [OF sw(1) assms(2) order.refl assms(3,4)] assms(5) by auto
  note f = grows_fields [OF m1(2)] and t = grows_tree [OF m1(2)]
  let ?k = "comps (rootdir w) @ cs"
  have k: "comps (rootdir w @ sub_path [] cs) = ?k" "length (rootdir w) + length (sub_path [] cs) < PATH_MAX"
    using sw(1) main_comps by (simp_all add: snap_way_def)
  obtain st m2 w2 where m2: "sn_step_body SN_STEPS_F_FILE (sub_path [] cs) 0 (Inr ()) m1 w1 =
      ((if tree w1 ?k = None then Continue else Fall, Inr (), m2), w2)"
      "grows w1 w2" "main_is w2 st ?k" "sn_steps m2 = (sn_steps m1)[0 := st]"
      "mfd_locklabel m2 = string2locklabel (rootdir w @ sub_path [] cs)" "sn_current m2 = sn_current m1" "mfd_sn_number m2 = mfd_sn_number m1"
      "if sn_first_file m1 = -1 then main_first (tree w1 ?k) m2
       else sn_first_file m2 = sn_first_file m1 \<and> mapheader m2 = mapheader m1"
    by (rule step_main_read [OF grows_calm [OF m1(2)] k(1) _ k(2), of m1]) (use sw(2) t m1(3,4) assms(4) [of 0] in simp_all)
  note f2 = grows_fields [OF m2(2)]
  have "sn_steps_loop SN_STEPS_F_FILE (sub_path [] cs) (Suc (length ys)) (Inr ()) m w = ((Inr (), m2), w2)"
    using m1(1) m2(1) by simp
  moreover have "snaps_read w2 ys cs (length ys) m2"
    using snaps_read_grows [OF m1(5) m2(2)] m2(4) by (simp add: snaps_read_def)
  then have "steps_read w2 ys cs (length ys) m2" using m2(3-5) m1(3) f f2 by (simp add: steps_read_def)
  moreover have "first_is w ys cs ?n m2"
    using m1(8) m2(8) t by (cases "?n = 0") (simp_all add: first_is_def)
  moreover have "grows w w2" using m1(2) m2(2) by (rule grows_trans)
  ultimately show ?thesis using m1(6,7) m2(6,7) by simp
qed

section \<open>The file the steps show\<close>

text \<open>A layer does not tell an empty file below it from no file.\<close>

lemma layer_view_bytes:
  "bytes_of b = bytes_of c \<Longrightarrow> layer_view s (Some l) b = layer_view s (Some l) c"
  "bytes_of b = bytes_of c \<Longrightarrow> layer_wf s l b = layer_wf s l c"
  by (simp_all add: layer_wf_def)

lemma layers_sound_layer:
  "layers_sound s ys a \<Longrightarrow> good_path cs \<Longrightarrow> layer_at (tree (fs s)) (snap_dir s @ [a]) cs = Some l \<Longrightarrow>
    header_ok (map_header (fst l)) \<and> layer_wf (bl_slog (fs s)) l (below s ys cs)"
  by (cases l) (simp add: layers_sound_def)

lemma below_Suc:
  "n < length ys \<Longrightarrow> below s (take (Suc n) ys) cs
    = layer_view (bl_slog (fs s)) (layer_at (tree (fs s)) (snap_dir s @ [ys ! n]) cs) (below s (take n ys) cs)"
  by (simp add: below_def view_def take_Suc_conv_app_nth)

lemma steps_view_below:
  assumes r: "steps_read (fs s) ys cs j m" and cs: "good_path cs" and "n \<le> j" and "j \<le> length ys"
    and sound: "\<And>i. i < j \<Longrightarrow> layers_sound s (take i ys) (ys ! i)"
  shows "steps_ok (fs s) m n \<and> bytes_of (steps_view (fs s) m n) = bytes_of (below s (take n ys) cs)
    \<and> (\<forall>bs. below s (take n ys) cs = Some bs \<longrightarrow> steps_view (fs s) m n = Some bs)"
  using assms(3)
proof (induction n)
  case 0
  have m: "main_is (fs s) (sn_steps m ! 0) (main_dir s @ cs)" using r by (simp add: steps_read_def)
  have b: "below s (take 0 ys) cs = file_of (tree (fs s) (main_dir s @ cs))" by (simp add: below_def view_def main_at_def)
  show ?case using main_is_data [OF m] b by (cases "file_of (tree (fs s) (main_dir s @ cs))") simp_all
next
  case (Suc n)
  let ?S = "snap_dir s @ [ys ! n]" and ?b = "below s (take n ys) cs" and ?v = "steps_view (fs s) m n"
  have n: "n < j" "n < length ys" using Suc.prems assms(4) by simp_all
  have IH: "steps_ok (fs s) m n" "bytes_of ?v = bytes_of ?b" "\<forall>bs. ?b = Some bs \<longrightarrow> ?v = Some bs"
    using Suc.IH Suc.prems by simp_all
  have st: "step_is (fs s) (sn_steps m ! Suc n) ?S cs" using r n by (simp add: steps_read_def snaps_read_def)
  have l: "layer_wf (bl_slog (fs s)) l ?b" if "layer_at (tree (fs s)) ?S cs = Some l" for l
    using layers_sound_layer [OF sound [OF n(1)] cs that] by simp
  show ?case
  proof (cases "layer_at (tree (fs s)) ?S cs")
    case None
    then show ?thesis using IH step_is_layer(1) [OF st] below_Suc [OF n(2)] by (simp add: step_ok_def)
  next
    case (Some l)
    have "step_ok (fs s) (sn_steps m ! Suc n) ?v"
      using step_is_layer(2) [OF st Some] l [OF Some] layer_view_bytes(2) [OF IH(2)] by simp
    moreover have "steps_view (fs s) m (Suc n) = below s (take (Suc n) ys) cs"
      using step_is_layer(1) [OF st] Some below_Suc [OF n(2), of s cs] layer_view_bytes(1) [OF IH(2), of "bl_slog (fs s)" l] by simp
    ultimately show ?thesis using IH(1) by simp
  qed
qed

text \<open>Where the search begins, the file is the one of the snapshot, if that is not empty.\<close>

lemma first_step_file:
  assumes "below s (take j ys) cs = Some bs" and "bs \<noteq> []" and "j \<le> length ys" and cs: "good_path cs"
    and sound: "\<And>i. i < j \<Longrightarrow> layers_sound s (take i ys) (ys ! i)"
  defines "n \<equiv> first_step (tree (fs s)) (snap_dir s) ys cs j"
  shows "n \<le> j \<and> below s (take n ys) cs = Some bs \<and> (first_is (fs s) ys cs n m \<longrightarrow> sn_first_file m = int n \<and> sn_size m = length bs)"
  using assms(1,3,5) unfolding n_def
proof (induction j)
  case 0
  then show ?case by (simp add: below_def view_def main_at_def first_is_def main_first_def file_of_Some)
next
  case (Suc j)
  let ?S = "snap_dir s @ [ys ! j]"
  have j: "j < length ys" using Suc.prems(2) by simp
  note b = below_Suc [OF j, of s cs]
  show ?case
  proof (cases "layer_at (tree (fs s)) ?S cs")
    case None
    then have "\<not> full (tree (fs s)) ?S cs" by (auto simp: full_def layer_at_def)
    then show ?thesis using Suc.IH Suc.prems b None by simp
  next
    case (Some l)
    then obtain mb where mb: "file_of (tree (fs s) (?S @ map_key cs)) = Some mb" "fst l = mb" by (auto simp: layer_at_def)
    have z: "layer_size mb = Some (length bs)"
      using Suc.prems(1) b Some mb(2) by (auto split: option.splits)
    then have "file_of (tree (fs s) (?S @ dat_key cs)) \<noteq> None"
      using Suc.prems(3) [of j] cs mb(1) assms(2) by (auto simp: layers_sound_def paired_def)
    then have f: "full (tree (fs s)) ?S cs" using mb(1) by (simp add: full_def)
    have "st_size (mh_fstat (map_header mb)) = length bs" using z by (auto simp: layer_size_def split: if_splits)
    then show ?thesis using f Suc.prems(1) mb(1) by (simp add: first_is_def)
  qed
qed

section \<open>Open and read\<close>

lemma decompose_full:
  assumes "x \<noteq> []" and "CHR ''/'' \<notin> set x" and "good_path cs"
  shows "decompose_sn_path sp (SNDIR @ DIRSEP @ x @ sub_path [] cs)
    = sp\<lparr>is_there := Snpath_full, snp_id := DIRSEP @ x, inpath := sub_path [] cs\<rparr>"
proof -
  obtain c ds where cs: "cs = c # ds" "c \<noteq> []" using assms(3) by (cases cs) (auto simp: good_path_def good_name_def)
  then have "sub_path [] cs = CHR ''/'' # c @ sub_path [] ds" by (simp add: sub_path_def DIRSEP_def)
  moreover have "strchr (x @ CHR ''/'' # r) CHR ''/'' = Some (length x)" for r using assms(2) by (rule strchr_append)
  ultimately show ?thesis using assms(1) cs(2) by (simp add: decompose_sn_path_def const_defs)
qed

text \<open>The paths that fit when the file is opened: those of the layers in the snapshots of the list.\<close>

definition names_fit :: "server \<Rightarrow> string list \<Rightarrow> string list \<Rightarrow> bool" where
  "names_fit s ys cs \<longleftrightarrow>
     (\<forall>y \<in> set ys. length (sn_root (sn_dir (fs s)) y) + length (sub_path [] cs) + EXT_LEN < PATH_MAX)"

lemma holds_way:
  assumes h: "holds s A" and x: "x \<in> set (map fst A)" and "good_path cs" and "names_fit s (up_to x (map fst A)) cs"
    and "clear_way (tree (fs s)) (main_dir s @ cs)"
  shows "way_ok (fs s) (up_to x (map fst A)) cs"
    "i < length (up_to x (map fst A)) \<Longrightarrow> layers_sound s (take i (up_to x (map fst A))) (up_to x (map fst A) ! i)"
proof -
  let ?ys = "up_to x (map fst A)"
  have v: "versions s (map fst A)" using h by (simp add: holds_def)
  obtain zs where zs: "map fst A = ?ys @ zs" using up_to_prefix [OF x] by blast
  show ls: "layers_sound s (take i ?ys) (?ys ! i)" if "i < length ?ys" for i
  proof -
    have "map fst A = take i ?ys @ ?ys ! i # (drop (Suc i) ?ys @ zs)"
      using id_take_nth_drop [OF that] zs by (metis append_Cons append_assoc)
    then show ?thesis using h by (auto simp: holds_def)
  qed
  have "x \<in> set ?ys" by (simp add: up_to_def)
  then have "length (sn_root (sn_dir (fs s)) x) + length (sub_path [] cs) < PATH_MAX" using assms(4) by (auto simp: names_fit_def)
  then have "length (rootdir (fs s)) + length (sub_path [] cs) < PATH_MAX"
    using versions_dir [OF v] by (simp add: sn_root_def)
  moreover have "good_name y \<and> tree (fs s) (snap_dir s @ [y]) = Some Dir \<and> shape (tree (fs s)) (snap_dir s @ [y])
      \<and> (\<forall>mb. tree (fs s) (snap_dir s @ y # map_key cs) = Some (File mb) \<longrightarrow> header_ok (map_header mb) \<and> MAPHEADER_S \<le> length mb)"
    if y: "y \<in> set ?ys" for y
  proof -
    obtain i where i: "i < length ?ys" "y = ?ys ! i" using y by (auto simp: in_set_conv_nth)
    have m: "y \<in> set (map fst A)" using up_to_set [OF x] y by blast
    then have g: "good_id (sn_dir (fs s)) y" using versions_at(4) [OF v] by (auto simp: list_all_iff)
    have "header_ok (map_header mb) \<and> MAPHEADER_S \<le> length mb" if t: "tree (fs s) (snap_dir s @ y # map_key cs) = Some (File mb)" for mb
    proof -
      obtain db where "layer_at (tree (fs s)) (snap_dir s @ [y]) cs = Some (mb, db)"
        using t by (simp add: layer_at_def file_of_Some)
      from layers_sound_layer [OF ls [OF i(1)] assms(3) this [unfolded i(2)]]
      show ?thesis by (simp add: layer_wf_def layer_ok_def)
    qed
    then show ?thesis
      using ls [OF i(1)] i(2) g versions_root [OF v g] m by (simp add: layers_sound_def good_id_def)
  qed
  ultimately show "way_ok (fs s) ?ys cs"
    using assms(3-5) unfolding way_ok_def snap_way_def names_fit_def by blast
qed

text \<open>Opening a path in a snapshot comes down to the loop over the steps.\<close>

lemma open_snap_loop:
  assumes "versions s ids" and "x \<in> set ids" and "length ids + 1 < MAX_SNAPSHOTS" and way: "snap_way (fs s) (up_to x ids) cs"
    and flag: "fl AND O_ACCMODE = O_RDONLY"
  defines "ys \<equiv> up_to x ids"
  shows "\<exists>m w. calm w \<and> tree w = tree (fs s) \<and> os.more w = os.more (fs s) \<and> length (sn_steps m) = Suc (length ys)
    \<and> (\<forall>i \<le> length ys. step_path (sn_steps m ! i) = (rootdir w # map (sn_root (sn_dir w)) ys) ! i)
    \<and> sn_first_file m = -1 \<and> mfd_sn_number m = sn_number w
    \<and> open_op garb (SNDIR @ DIRSEP @ x @ sub_path [] cs) fl (fs s) =
        Some (case sn_steps_loop SN_STEPS_F_FILE (sub_path [] cs) (Suc (length ys)) (Inr ()) m w of
          ((Inl e, m), w) \<Rightarrow> ((Inl e, None), snd (mfd_destroy_sn_steps m w))
        | ((Inr _, m), w) \<Rightarrow> ((Inr (), Some (m\<lparr>is_main := Mfd_sn_full\<rparr>)), w))"
proof -
  let ?w = "fs s" and ?D = "sn_dir (fs s)" and ?vp = "sub_path [] cs" and ?p = "SNDIR @ DIRSEP @ x @ sub_path [] cs"
  let ?sp = "\<lparr>is_there = Snpath_full, snp_id = DIRSEP @ x, inpath = ?vp\<rparr>"
  let ?m = "(mfd_garbage garb)\<lparr>mfd_sn_number := sn_number ?w\<rparr>"
  have D: "?D = rootdir ?w @ SNDIR" "rootdir_len ?w = length (rootdir ?w)" using assms(1) by (simp_all add: versions_def)
  have c: "calm ?w" using versions_disk [OF assms(1)] by (simp add: on_disk_def)
  have x: "x \<in> set ys" by (simp add: ys_def up_to_def)
  then have g: "good_path cs" "good_name x" "length (sn_root ?D x) + length ?vp + EXT_LEN < PATH_MAX"
    using way by (simp_all add: snap_way_def ys_def)
  have l: "length (rootdir ?w @ ?p) < PATH_MAX" using g(3) by (simp add: sn_root_def D(1) DIRSEP_def)
  have xn: "x \<noteq> []" "CHR ''/'' \<notin> set x" using g(2) by (simp_all add: good_name_def)
  have sn: "is_path_in_sn ?p" by (simp add: is_path_in_sn_def const_defs)
  have route: "if_path_sn ?p ?w = (Inr (Sn_space (rootdir ?w @ ?p) ?sp), ?w)"
    using if_path_sn_calm [OF c D(2) l sn] decompose_full [OF xn g(1)] by (simp add: snpath_undef_def)
  have ne: "ids \<noteq> []" and lx: "length (sn_root ?D x) < PATH_MAX" using assms(2) g(3) by auto
  define ps where "ps = map step_at (rootdir ?w # map (sn_root ?D) ys)"
  obtain w1 where w1: "same ?w w1" "sn_get_paths_to ?m ?sp ?w =
      ((Inr (), ?m\<lparr>sn_steps := ps, sn_current := length ys\<rparr>), w1)"
    using sn_get_paths_to_versions [OF assms(1) ne assms(3) lx, of ?m ?vp] assms(2) unfolding ys_def ps_def by auto
  note f = same_fields [OF w1(1)]
  have m1: "os.more w1 = os.more ?w" using w1(1) rest_fields [of w1 ?w] by (simp add: same_def)
  let ?n = "?m\<lparr>sn_current := length ys, sn_first_file := -1, sn_steps := ps\<rparr>"
  have "step_path (sn_steps ?n ! i) = (rootdir w1 # map (sn_root (sn_dir w1)) ys) ! i" if "i \<le> length ys" for i
    using that f(3,4) by (cases i) (simp_all add: ps_def step_at_def)
  moreover have r: "map (\<lambda>s. s\<lparr>step_mapfd := SN_STEPS_NOTOPEN, step_datfd := SN_STEPS_NOTOPEN, step_dirfd := None\<rparr>) ps = ps"
    by (simp add: ps_def step_at_def)
  have "open_op garb ?p fl ?w =
      Some (case sn_steps_loop SN_STEPS_F_FILE ?vp (Suc (length ys)) (Inr ()) ?n w1 of
        ((Inl e, m), w) \<Rightarrow> ((Inl e, None), snd (mfd_destroy_sn_steps m w))
      | ((Inr _, m), w) \<Rightarrow> ((Inr (), Some (m\<lparr>is_main := Mfd_sn_full\<rparr>)), w))"
    using route flag c w1(2)
    by (simp add: open_op_def open_sn_def mfd_get_sn_steps_def r del: sn_steps_loop.simps split: prod.split sum.split)
  moreover have "length (sn_steps ?n) = Suc (length ys)" "mfd_sn_number ?n = sn_number w1"
    using more_fields(7) [OF m1] by (simp_all add: ps_def)
  ultimately show ?thesis using f(1,2) m1 by (intro exI [of _ ?n] exI [of _ w1]) simp
qed

lemma open_steps_read:
  assumes "versions s ids" and "x \<in> set ids" and "length ids + 1 < MAX_SNAPSHOTS" and way: "way_ok (fs s) (up_to x ids) cs"
    and flag: "fl AND O_ACCMODE = O_RDONLY"
  defines "ys \<equiv> up_to x ids"
  shows "\<exists>m w. open_op garb (SNDIR @ DIRSEP @ x @ sub_path [] cs) fl (fs s) = Some ((Inr (), Some m), w)
    \<and> calm w \<and> tree w = tree (fs s) \<and> os.more w = os.more (fs s) \<and> steps_read w ys cs (length ys) m
    \<and> first_is w ys cs (first_step (tree w) (comps (sn_dir w)) ys cs (length ys)) m
    \<and> is_main m = Mfd_sn_full \<and> mfd_sn_number m = sn_number w"
proof -
  have sw: "snap_way (fs s) (up_to x ids) cs" using way by (simp add: way_ok_def)
  obtain m1 w1 where w1: "calm w1" "tree w1 = tree (fs s)" "os.more w1 = os.more (fs s)" "length (sn_steps m1) = Suc (length ys)"
      "\<And>i. i \<le> length ys \<Longrightarrow> step_path (sn_steps m1 ! i) = (rootdir w1 # map (sn_root (sn_dir w1)) ys) ! i"
      "sn_first_file m1 = -1" "mfd_sn_number m1 = sn_number w1"
      and o: "open_op garb (SNDIR @ DIRSEP @ x @ sub_path [] cs) fl (fs s) =
        Some (case sn_steps_loop SN_STEPS_F_FILE (sub_path [] cs) (Suc (length ys)) (Inr ()) m1 w1 of
          ((Inl e, m), w) \<Rightarrow> ((Inl e, None), snd (mfd_destroy_sn_steps m w))
        | ((Inr _, m), w) \<Rightarrow> ((Inr (), Some (m\<lparr>is_main := Mfd_sn_full\<rparr>)), w))"
    using open_snap_loop [OF assms(1-3) sw flag, of garb] unfolding ys_def by blast
  have "way_ok w1 ys cs" using way w1(2) more_fields [OF w1(3)] by (simp add: way_ok_def snap_way_def ys_def)
  then obtain m2 w2 where m2: "sn_steps_loop SN_STEPS_F_FILE (sub_path [] cs) (Suc (length ys)) (Inr ()) m1 w1 = ((Inr (), m2), w2)"
      "grows w1 w2" "steps_read w2 ys cs (length ys) m2" "mfd_sn_number m2 = mfd_sn_number m1"
      "first_is w1 ys cs (first_step (tree w1) (comps (sn_dir w1)) ys cs (length ys)) m2"
    using steps_loop_read [OF _ w1(1,4,5,6)] by blast
  note f = grows_fields [OF m2(2)] and t = grows_tree [OF m2(2)]
  let ?m = "m2\<lparr>is_main := Mfd_sn_full\<rparr>"
  have "open_op garb (SNDIR @ DIRSEP @ x @ sub_path [] cs) fl (fs s) = Some ((Inr (), Some ?m), w2)"
    using o m2(1) by (simp del: sn_steps_loop.simps)
  moreover have "steps_read w2 ys cs (length ys) ?m" using m2(3) by (simp add: steps_read_def snaps_read_def)
  moreover have "first_is w2 ys cs (first_step (tree w2) (comps (sn_dir w2)) ys cs (length ys)) ?m"
    using m2(5) f t by (simp add: first_is_grows [OF m2(2)] first_is_main)
  moreover have "calm w2 \<and> tree w2 = tree (fs s) \<and> os.more w2 = os.more (fs s)" using m2(2) w1(2,3) by (simp add: grows_def)
  ultimately show ?thesis using m2(4) w1(7) f by (intro exI [of _ ?m] exI [of _ w2]) simp
qed

text \<open>The state after the open, seen as a server: the files and the data of the program are as before.\<close>

lemma same_state:
  assumes "tree w = tree (fs s)" and "os.more w = os.more (fs s)"
  shows "below \<lparr>fs = w, fhs = h\<rparr> ys cs = below s ys cs" "layers_sound \<lparr>fs = w, fhs = h\<rparr> ys a = layers_sound s ys a"
  using assms(1) more_fields [OF assms(2)] by (simp_all add: below_def layers_sound_def)

lemma read_steps:
  assumes "steps_read w ys cs (length ys) m" and "first_is w ys cs n m" and "n \<le> length ys" and "good_path cs"
    and "calm w" and "mflocks w = table0" and "is_main m = Mfd_sn_full" and "mfd_sn_number m = sn_number w"
    and sound: "\<And>i. i < length ys \<Longrightarrow> layers_sound \<lparr>fs = w, fhs = h\<rparr> (take i ys) (ys ! i)"
    and "below \<lparr>fs = w, fhs = h\<rparr> (take n ys) cs = Some bs" and "sn_first_file m = int n" and "sn_size m = length bs"
  shows "\<exists>w'. read_op (replicate sz 0) sz off m w = Some ((Inr (length (read_at bs sz off)), write_at (replicate sz 0) (read_at bs sz off) 0), w')"
proof -
  let ?s = "\<lparr>fs = w, fhs = h\<rparr>"
  have r: "steps_read (fs ?s) ys cs (length ys) m" using assms(1) by simp
  have "steps_ok w m n" "steps_view w m n = Some bs"
    using steps_view_below [OF r assms(4,3) order.refl sound] assms(10) by simp_all
  moreover have "no_short w" "fates w = []" using assms(5) by (simp_all add: no_short_def calm_def)
  moreover have "mfd_locklabel m \<noteq> 0" using assms(1) string2locklabel_nonzero by (simp add: steps_read_def)
  then have "lock_free (mfd_locklabel m) (mflocks w)" using lock_free_idle assms(6) by (simp add: table0_def)
  ultimately show ?thesis
    using read_op_snap [of w m n bs "replicate sz 0" sz off] assms(7,8,11,12) by auto
qed

lemma write_read: "take (length (read_at bs sz off)) (write_at (replicate sz 0) (read_at bs sz off) 0) = read_at bs sz off"
  by (simp add: write_at_def read_at_def min_def)

text \<open>Opening the file in the snapshot and reading it gives the bytes of the archive.\<close>

lemma holds_read:
  assumes h: "holds s A" and x: "(x, f) \<in> set A" and cs: "good_path cs" and bs: "f cs = Some bs" "bs \<noteq> []"
    and "length A + 1 < MAX_SNAPSHOTS" and fit: "names_fit s (up_to x (map fst A)) cs"
    and clear: "clear_way (tree (fs s)) (main_dir s @ cs)"
  shows "\<exists>n s1 s2. serve env (Open (SNDIR @ DIRSEP @ x @ sub_path [] cs) O_RDONLY) s = Some (Inr (Handle n), s1)
    \<and> serve env (Read n sz off) s1 = Some (Inr (Bytes (read_at bs sz off)), s2)"
proof -
  let ?ids = "map fst A" and ?ys = "up_to x (map fst A)"
  have xi: "x \<in> set ?ids" using x by force
  have v: "versions s ?ids" using h by (simp add: holds_def)
  note way = holds_way [OF h xi cs fit clear]
  obtain m w where o: "open_op (garbage env) (SNDIR @ DIRSEP @ x @ sub_path [] cs) O_RDONLY (fs s) = Some ((Inr (), Some m), w)"
      "calm w" "tree w = tree (fs s)" "os.more w = os.more (fs s)" "steps_read w ?ys cs (length ?ys) m"
      "first_is w ?ys cs (first_step (tree w) (comps (sn_dir w)) ?ys cs (length ?ys)) m"
      "is_main m = Mfd_sn_full" "mfd_sn_number m = sn_number w"
    using open_steps_read [OF v xi _ way(1), of O_RDONLY "garbage env"] assms(6) by auto
  let ?fh = "first_free (fhs s)" let ?s = "s\<lparr>fs := w, fhs := put_slot (fhs s) ?fh m\<rparr>"
  let ?w = "\<lparr>fs = w, fhs = fhs ?s\<rparr>"
  note st = same_state [OF o(3,4)]
  have snd: "layers_sound ?w (take i ?ys) (?ys ! i)" if "i < length ?ys" for i using st(2) way(2) [OF that] by simp
  define n where "n = first_step (tree w) (comps (sn_dir w)) ?ys cs (length ?ys)"
  have "below ?w ?ys cs = Some bs" using holds_files [OF h x cs] bs(1) by (simp add: snap_files_below st(1))
  then have n: "n \<le> length ?ys" "below ?w (take n ?ys) cs = Some bs" "sn_first_file m = int n" "sn_size m = length bs"
    using first_step_file [of ?w "length ?ys" ?ys cs bs m] bs(2) cs snd o(6) by (simp_all add: n_def)
  have "mflocks w = table0" using v more_fields(8) [OF o(4)] by (simp add: versions_def)
  from read_steps [OF o(5) o(6) [folded n_def] n(1) cs o(2) this o(7,8) snd n(2-4), of sz off]
  obtain w' where w': "read_op (replicate sz 0) sz off m w =
      Some ((Inr (length (read_at bs sz off)), write_at (replicate sz 0) (read_at bs sz off) 0), w')" by blast
  have "serve env (Open (SNDIR @ DIRSEP @ x @ sub_path [] cs) O_RDONLY) s = Some (Inr (Handle ?fh), ?s)"
    using o(1) by (simp add: serve_def opened_def Let_def)
  moreover have "get_fh ?s ?fh = Some m" using first_free_le [of "fhs s"] by (auto simp: get_fh_def put_slot_def nth_append)
  then have "serve env (Read ?fh sz off) ?s = Some (Inr (Bytes (read_at bs sz off)), ?s\<lparr>fs := w'\<rparr>)"
    using w' write_read by (simp add: serve_def with_fh_def)
  ultimately show ?thesis by blast
qed

text \<open>
  C22: reading back. After any such sequence of events, opening \<open>/snapshots/NAME/PATH\<close> for reading
  succeeds and reading it returns the bytes that the file had when the snapshot was made, at every offset
  and of every length; if the file was not empty then, the paths of the layers fit into \<open>PATH_MAX\<close>, and
  no directory above the path has become a file in the main space. What happens without the first and
  the last condition is shown in the theory \<open>Limits\<close>.
\<close>

theorem snapshots_read_back:
  assumes "versions s []" and "good_events env es s" and "length es + 1 < MAX_SNAPSHOTS" and "st_size (garbage env) < 2 ^ 64"
  shows "\<exists>s' A. history env es (s, []) = Some (s', A)
    \<and> (\<forall>x f cs bs sz off. (x, f) \<in> set A \<and> good_path cs \<and> f cs = Some bs \<and> bs \<noteq> []
         \<and> names_fit s' (up_to x (map fst A)) cs \<and> clear_way (tree (fs s')) (main_dir s' @ cs) \<longrightarrow>
         (\<exists>n s1 s2. serve env (Open (SNDIR @ DIRSEP @ x @ sub_path [] cs) O_RDONLY) s' = Some (Inr (Handle n), s1)
            \<and> serve env (Read n sz off) s1 = Some (Inr (Bytes (read_at bs sz off)), s2)))"
proof -
  have "holds s []" using assms(1) by (simp add: holds_def)
  from history_holds [OF this assms(2) _ assms(4)] assms(3)
  obtain s' A where A: "history env es (s, []) = Some (s', A)" "holds s' A" "length A + 1 < MAX_SNAPSHOTS" by auto
  show ?thesis using A(1) holds_read [OF A(2) _ _ _ _ A(3)] by blast
qed

theorem snapshots_read_back_witness:
  "\<exists>w s' A n s1 s2. esfs_setup ''/r'' world1 = (True, w)
     \<and> history env0 demo_events (\<lparr>fs = w, fhs = []\<rparr>, []) = Some (s', A)
     \<and> serve env0 (Open ''/snapshots/a/f'' O_RDONLY) s' = Some (Inr (Handle n), s1)
     \<and> serve env0 (Read n 4 2) s1 = Some (Inr (Bytes [3, 4, 5, 6]), s2)"
proof -
  obtain w where w: "esfs_setup ''/r'' world1 = (True, w)" "versions \<lparr>fs = w, fhs = []\<rparr> []" "rootdir w = ''/r''"
      "main_files \<lparr>fs = w, fhs = []\<rparr> [''f''] = Some [1, 2, 3, 4, 5, 6, 7]" "comps (rootdir w) = [''r'']"
      "good_events env0 demo_events \<lparr>fs = w, fhs = []\<rparr>"
    by (rule world1_run)
  let ?s = "\<lparr>fs = w, fhs = []\<rparr>"
  have "length demo_events + 1 < MAX_SNAPSHOTS" "st_size (garbage env0) < 2 ^ 64" by (simp_all add: demo_events_def MAX_SNAPSHOTS_def env0_def)
  from snapshots_read_back [OF w(2,6) this] obtain s' A where A: "history env0 demo_events (?s, []) = Some (s', A)"
      and r: "\<And>x f cs bs sz off. (x, f) \<in> set A \<and> good_path cs \<and> f cs = Some bs \<and> bs \<noteq> []
        \<and> names_fit s' (up_to x (map fst A)) cs \<and> clear_way (tree (fs s')) (main_dir s' @ cs) \<Longrightarrow>
        \<exists>n s1 s2. serve env0 (Open (SNDIR @ DIRSEP @ x @ sub_path [] cs) O_RDONLY) s' = Some (Inr (Handle n), s1)
          \<and> serve env0 (Read n sz off) s1 = Some (Inr (Bytes (read_at bs sz off)), s2)"
    by blast
  have "holds ?s []" using w(2) by (simp add: holds_def)
  from history_holds [OF this w(6)] have h: "holds s' A" "rootdir (fs s') = ''/r''"
    using A w(3) by (simp_all add: demo_events_def MAX_SNAPSHOTS_def env0_def del: history.simps)
  have a: "A = [(''a'', main_files ?s)]" by (rule demo_archive [OF A])
  have v: "versions s' [''a'']" using h(1) a by (simp add: holds_def)
  have d: "sn_dir (fs s') = ''/r/snapshots''" using versions_dir [OF v] h(2) by (simp add: SNDIR_def)
  have k: "main_dir s' = [''r'']" using h(2) w(3,5) by simp
  have "tree (fs s') [''r'', ''snapshots''] = Some Dir"
    using versions_disk [OF v] snap_dir_main [OF v] k by (simp add: on_disk_def)
  then have "tree (fs s') [''r''] = Some Dir" "tree (fs s') [] = Some Dir"
    using tree_prefix [OF versions_at(2) [OF v], of "[''r'', ''snapshots'']"] by simp_all
  then have "clear_way (tree (fs s')) (main_dir s' @ [''f''])" using k by (auto simp: clear_way_def prefix_Cons)
  moreover have "names_fit s' (up_to ''a'' (map fst A)) [''f'']"
    using d a by (simp add: names_fit_def up_to_def sn_root_def sub_path_def const_defs)
  ultimately have "\<exists>n s1 s2. serve env0 (Open (SNDIR @ DIRSEP @ ''a'' @ sub_path [] [''f'']) O_RDONLY) s' = Some (Inr (Handle n), s1)
      \<and> serve env0 (Read n 4 2) s1 = Some (Inr (Bytes (read_at [1, 2, 3, 4, 5, 6, 7] 4 2)), s2)"
    by (intro r [of _ "main_files ?s"]) (use a w(4) good_f in \<open>simp add: good_target_def\<close>)
  moreover have "SNDIR @ DIRSEP @ ''a'' @ sub_path [] [''f''] = ''/snapshots/a/f''" by (simp add: sub_path_def const_defs)
  moreover have "read_at [1, 2, 3, 4, 5, 6, 7] 4 2 = ([3, 4, 5, 6] :: byte list)" by (simp add: read_at_def)
  ultimately show ?thesis using w(1) A by (simp only:) blast
qed

end
