(* ===== verification/Writing.thy ===== *)
theory Writing
  imports Isolation
begin

text \<open>
  Writes that meet no fault. The handlers of \<open>write\<close> and \<open>ftruncate\<close> save the blocks and then change
  the main file; here it is shown that without faults, and with room for the saved blocks, they
  succeed and that the main file has the new contents. With it, what a reader sees that has opened
  the file in the snapshot before the file was first opened for writing.
\<close>

section \<open>System calls without faults\<close>

lemma pop_none: "fates w = [] \<Longrightarrow> pop_fate w = (Normal, w)"
  by (simp add: pop_fate_eq)

lemma pread_normal:
  assumes "fates w = []" and "fd_view w fd = Some (i, fl)" and "readable fl" and "\<not> is_dir w i"
  shows "sys_pread fd n off w = (Inr (read_at (fdata w i) n off), w)"
  using assms by (auto simp: sys_pread_def pop_none fd_view_Some)

lemma pwrite_normal:
  assumes "fates w = []" and "fd_view w fd = Some (i, fl)" and "writable fl"
    and "pos = (if has_flag fl O_APPEND then length (fdata w i) else off)" and "pos + length bs \<le> MAX_OFF"
  shows "sys_pwrite fd bs off w = (Inr (length bs), set_data i (write_at (fdata w i) bs pos) w)"
  using assms by (auto simp: sys_pwrite_def pop_none fd_view_Some Let_def)

lemma append_normal:
  assumes "fates w = []" and "fd_view w fd = Some (i, fl)" and "writable fl" and "has_flag fl O_APPEND"
    and "length (fdata w i) + length bs \<le> MAX_OFF"
  shows "\<exists>p. sys_write fd bs w = (Inr (length bs), set_pos fd p (set_data i (fdata w i @ bs) w))"
  using pwrite_normal [OF assms(1-3) refl, of "length (fdata w i)" bs] assms(2,4,5)
  by (auto simp: sys_write_def fd_view_Some write_at_end)

lemma lseek_normal:
  assumes "fates w = []" and "fd_view w fd = Some (i, fl)"
  shows "\<exists>p. sys_lseek_end fd w = (Inr (length (fdata w i)), set_pos fd p w)"
  using assms by (auto simp: sys_lseek_end_def pop_none fd_view_Some Let_def)

section \<open>Saving without faults\<close>

lemma frame_reads: "frame A w w' \<Longrightarrow> reads w' fd = reads w fd"
  by (simp add: reads_def frame_fd_view frame_is_dir split: option.split)

text \<open>
  A handle that can save \<open>r\<close> more blocks: no faults are scheduled, the main file can be read, the dat
  file has whole blocks only, and there is room for the blocks in it and for their numbers in the
  map file.
\<close>

definition can_save :: "mfd \<Rightarrow> nat \<Rightarrow> nat \<Rightarrow> nat \<Rightarrow> nat \<Rightarrow> world \<Rightarrow> bool" where
  "can_save m i j k r w \<longleftrightarrow> cow_ok m i j k w \<and> fates w = [] \<and> reads w (mainfd m) \<and> \<not> is_dir w j
     \<and> BL_S w dvd length (fdata w k) \<and> length (fdata w k) + r * BL_S w \<le> MAX_OFF
     \<and> MAPHEADER_S + (sn_size m div BL_S w + 1) * BLP_S \<le> MAX_OFF"

lemma can_save_lock: "can_save m i j k r w \<Longrightarrow> can_save m i j k r (w\<lparr>mflocks := T\<rparr>)"
  using frame_reads [of "{}" w "w\<lparr>mflocks := T\<rparr>"] by (simp add: can_save_def BL_S_def is_dir_def)

lemma block_read_pointer_normal:
  assumes "cow_ok m i j k w" and "fates w = []" and "\<not> is_dir w j"
  shows "block_read_pointer m (MAPHEADER_S + b * BLP_S) w = (Inr (ptr_at (fdata w j) b), w)"
proof -
  obtain fl where v: "fd_view w (mapfd m) = Some (j, fl)" "readable fl"
    using assms(1) by (auto simp: cow_ok_def saving_fds_def)
  let ?bs = "read_at (fdata w j) BLP_S (MAPHEADER_S + b * BLP_S)"
  have "BLP_S dvd length (fdata w j)"
    using assms(1) by (simp add: cow_ok_def layer_inv_def layer_wf_def layer_ok_def)
  then obtain x where "length (fdata w j) = BLP_S * x" ..
  then have "length ?bs = BLP_S \<or> length ?bs = 0" by (simp add: BLP_S_def MAPHEADER_S_def) arith
  then show ?thesis using pread_normal [OF assms(2) v assms(3)]
    by (auto simp: block_read_pointer_def ptr_at_def)
qed

lemma b_append_block_normal:
  assumes "can_save m i j k (Suc r) w" and "length blk = BL_S w" and "off + BLP_S \<le> MAX_OFF"
  shows "\<exists>w'. b_append_block m off blk w = (Inr (), w') \<and> fates w' = []
    \<and> length (fdata w' k) = length (fdata w k) + BL_S w"
proof -
  obtain flm fld where v: "fd_view w (mapfd m) = Some (j, flm)" "\<not> has_flag flm O_APPEND" "writable flm"
    "fd_view w (datfd m) = Some (k, fld)" "has_flag fld O_APPEND" "writable fld" and n: "j \<noteq> k"
    and f: "fates w = []" and dv: "2 ^ bl_slog w dvd length (fdata w k)"
    and room: "length (fdata w k) + BL_S w \<le> MAX_OFF"
    using assms(1) by (auto simp: can_save_def cow_ok_def saving_fds_def BL_S_def)
  obtain p where p: "sys_lseek_end (datfd m) w = (Inr (length (fdata w k)), set_pos (datfd m) p w)"
    using lseek_normal [OF f v(4)] by blast
  let ?w1 = "set_pos (datfd m) p w"
  have w1: "fates ?w1 = []" "fd_view ?w1 (datfd m) = Some (k, fld)" "fdata ?w1 = fdata w"
    "BL_S ?w1 = BL_S w" "bl_slog ?w1 = bl_slog w" "fd_view ?w1 = fd_view w"
    using f v by (simp_all add: BL_S_def)
  obtain q where q: "sys_write (datfd m) blk ?w1 =
      (Inr (length blk), set_pos (datfd m) q (set_data k (fdata w k @ blk) ?w1))"
    using append_normal [OF w1(1,2) v(6,5), of blk] room assms(2) w1(3) by auto
  let ?w2 = "set_pos (datfd m) q (set_data k (fdata w k @ blk) ?w1)"
  have w2: "fates ?w2 = []" "fd_view ?w2 (mapfd m) = Some (j, flm)" "fdata ?w2 k = fdata w k @ blk"
    "BL_S ?w2 = BL_S w" "bl_slog ?w2 = bl_slog w"
    using f v by (simp_all add: BL_S_def fdata_set_data)
  let ?ptr = "le_bytes BLP_S (drop_bit (bl_slog w) (length (fdata w k)) + 1)"
  have "sys_pwrite (mapfd m) ?ptr off ?w2 = (Inr (length ?ptr), set_data j (write_at (fdata ?w2 j) ?ptr off) ?w2)"
    using v(2) assms(3) by (intro pwrite_normal [OF w2(1,2) v(3)]) simp_all
  moreover have "length (fdata w k) AND (BL_S w - 1) = 0" using dv by (simp only: and_mask_dvd BL_S_def)
  ultimately have "b_append_block m off blk w = (Inr (), set_data j (write_at (fdata ?w2 j) ?ptr off) ?w2)"
    using p q assms(2) w1(4,5) w2(4,5) by (simp add: b_append_block_def Let_def)
  then show ?thesis using f n assms(2) by (simp add: fdata_set_data)
qed

lemma b_save_block_normal:
  assumes "can_save m i j k (Suc r) w" and "ptr_at (fdata w j) b = 0" and "b * BL_S w < sn_size m"
    and "buf_ok buf w" and "b_save_block m b lock buf w = ((res, m', lock', buf'), w')"
  shows "res = Inr () \<and> fates w' = [] \<and> length (fdata w' k) = length (fdata w k) + BL_S w"
proof -
  have ok: "cow_ok m i j k w" and f: "fates w = []" using assms(1) by (simp_all add: can_save_def)
  obtain fl where v: "fd_view w (mainfd m) = Some (i, fl)" "readable fl" "\<not> is_dir w i"
    using assms(1) by (auto simp: can_save_def cow_ok_def saving_fds_def reads_def)
  obtain a w1 where a: "b_alloc_buf lock buf w = (a, w1)" by fastforce
  obtain buf1 where b1: "a = Inr buf1" and w1: "fates w1 = []" "fdata w1 = fdata w" "BL_S w1 = BL_S w"
      "bl_slog w1 = bl_slog w" "fd_view w1 = fd_view w" "is_dir w1 = is_dir w"
    using a f by (auto simp: b_alloc_buf_def malloc_ok_def pop_none BL_S_def is_dir_def fun_eq_iff split: if_splits)
  note st1 = b_alloc_buf_step [OF ok assms(4) a]
  have ok1: "cow_ok m i j k w1" "buf_ok buf1 w1" "buf1 \<noteq> No_buf" using st1 b1 by (auto simp: save_step_def)
  let ?bs = "read_at (fdata w i) (BL_S w) (b * BL_S w)"
  have "sys_pread (mainfd m) (BL_S w1) (push_bit (bl_slog w1) b) w1 = (Inr ?bs, w1)"
    using pread_normal [of w1 "mainfd m" i fl] w1 v by (simp add: push_bit_eq_mult BL_S_def)
  moreover have "covered (BL_S w) (sn_size m) (layer_get (bl_slog w) (fdata w j, fdata w k)) (fdata w i)"
    using ok layer_size_header [of m i j k w] by (auto simp: cow_ok_def layer_inv_def layer_wf_def BL_S_def)
  then have "?bs \<noteq> []"
    using assms(2,3) by (auto simp: covered_def layer_get_def BL_S_def read_at_def)
  moreover obtain buf2 w2 where p: "buf_put buf1 ?bs w1 = (buf2, w2)" by fastforce
  have "length ?bs \<le> BL_S w1" using w1(3) by simp
  note put = buf_put_step [OF ok1(1,2,3) this p]
  have w2: "fates w2 = []" "BL_S w2 = BL_S w" "frame {j, k} w1 w2"
    using p w1 put(1,5) by (auto simp: buf_put_def BL_S_def save_step_def cow_step_def split: bufsel.splits)
  have "can_save m i j k (Suc r) w2"
    using assms(1) put(1,4) w1 w2 v frame_fd_view [OF w2(3)] frame_is_dir [OF w2(3)]
    by (simp add: can_save_def save_step_def reads_def)
  moreover have "b \<le> sn_size m div BL_S w"
    using assms(3) by (simp add: BL_S_def less_eq_div_iff_mult_less_eq)
  then have "MAPHEADER_S + b * BLP_S + BLP_S \<le> MAX_OFF"
    using assms(1) by (simp add: can_save_def BLP_S_def)
  ultimately show ?thesis
    using b_append_block_normal [of m i j k r w2 "buf_get buf2 w2" "MAPHEADER_S + b * BLP_S"]
      assms(5) a b1 p put(2,4) w1(2,3) w2(2)
    by (auto simp: b_save_block_def simp del: length_read_at split: if_splits)
qed

lemma can_save_step:
  assumes "can_save m i j k r w" and "save_step i j k (m, buf, w) (m', buf', w')" and "fates w' = []"
    and "BL_S w dvd length (fdata w' k)" and "length (fdata w' k) + r' * BL_S w \<le> MAX_OFF"
  shows "can_save m' i j k r' w'"
proof -
  have fr: "frame {j, k} w w'" and sh: "same_handle m m'"
    using assms(2) by (auto simp: save_step_def cow_step_def)
  then show ?thesis
    using assms same_handle_fields [OF sh]
    by (simp add: can_save_def save_step_def frame_reads frame_is_dir frame_BL_S)
qed

lemma b_write_block_normal:
  assumes "can_save m i j k (Suc r) w" and "b * BL_S w < sn_size m" and "buf_ok buf w"
    and "b_write_block m b lock buf w = Some ((res, m', lock', buf'), w')"
  shows "res = Inr () \<and> can_save m' i j k r w' \<and> buf_ok buf' w' \<and> sn_size m' = sn_size m \<and> BL_S w' = BL_S w"
proof -
  have ok: "cow_ok m i j k w" and f: "fates w = []" and d: "\<not> is_dir w j"
    and k: "BL_S w dvd length (fdata w k)" "length (fdata w k) + Suc r * BL_S w \<le> MAX_OFF"
    using assms(1) by (simp_all add: can_save_def)
  have st: "save_step i j k (m, buf, w) (m', buf', w')" using b_write_block_step [OF ok assms(3,4)] by simp
  then have keep: "buf_ok buf' w'" "sn_size m' = sn_size m" "BL_S w' = BL_S w"
    using same_handle_fields [of m m'] by (auto simp: save_step_def cow_step_def frame_BL_S)
  note rp = block_read_pointer_normal [OF ok f d, of b]
  have "res = Inr () \<and> fates w' = [] \<and> (length (fdata w' k) = length (fdata w k)
      \<or> length (fdata w' k) = length (fdata w k) + BL_S w)"
  proof (cases "latest_written_block_cache m = b + 1 \<or> ptr_at (fdata w j) b \<noteq> 0")
    case True
    then show ?thesis using assms(4) rp f by (auto simp: b_write_block_def split: if_splits)
  next
    case False
    show ?thesis
    proof (cases "lock = -1")
      case no: False
      then have "b_save_block m b lock buf w = ((res, m', lock', buf'), w')"
        using assms(4) rp False by (simp add: b_write_block_def)
      from b_save_block_normal [OF assms(1) _ assms(2,3) this] False show ?thesis by simp
    next
      case True
      obtain l w1 where l: "mflock_lock (mfd_locklabel m) w = Some (l, w1)"
        using assms(4) rp False True by (auto simp: b_write_block_def split: bind_splits)
      then obtain n T where n: "l = Inr n" "w1 = w\<lparr>mflocks := T\<rparr>" using mfl.acquire_state by blast
      have c1: "can_save m i j k (Suc r) w1" using assms(1) n(2)
        by (auto intro: can_save_lock)
      have e: "fdata w1 = fdata w" "BL_S w1 = BL_S w" "buf_ok buf w1"
        using n(2) assms(3) by (simp_all add: BL_S_def buf_ok_def split: bufsel.splits)
      have rp1: "block_read_pointer m (MAPHEADER_S + b * BLP_S) w1 = (Inr (ptr_at (fdata w1 j) b), w1)"
        using c1 by (intro block_read_pointer_normal) (auto simp: can_save_def)
      have "b_save_block m b (int n) buf w1 = ((res, m', lock', buf'), w')"
        using assms(4) rp rp1 l n(1) e(1) False True by (simp add: b_write_block_def)
      from b_save_block_normal [OF c1 _ _ e(3) this] e assms(2) False show ?thesis by simp
    qed
  qed
  then show ?thesis
    using can_save_step [OF assms(1) st, of r] keep k by auto
qed

lemma b_write_blocks_normal:
  assumes "can_save m i j k n w" and "n \<noteq> 0 \<Longrightarrow> (b + n - 1) * BL_S w < sn_size m" and "buf_ok buf w"
    and "b_write_blocks m n b lock buf w = Some ((res, m', lock', buf'), w')"
  shows "res = Inr () \<and> can_save m' i j k 0 w'"
  using assms
proof (induction n arbitrary: m b lock buf w)
  case 0
  then show ?case by simp
next
  case (Suc n)
  from Suc.prems(4) obtain r1 m1 lock1 buf1 w1
    where one: "b_write_block m b lock buf w = Some ((r1, m1, lock1, buf1), w1)"
    by (auto split: bind_splits)
  have "b * BL_S w \<le> (b + Suc n - 1) * BL_S w" by simp
  from le_less_trans [OF this Suc.prems(2)] have "b * BL_S w < sn_size m" by simp
  note s1 = b_write_block_normal [OF Suc.prems(1) this Suc.prems(3) one]
  show ?case
  proof (rule Suc.IH)
    show "can_save m1 i j k n w1" "buf_ok buf1 w1" using s1 by simp_all
    show "(b + 1 + n - 1) * BL_S w1 < sn_size m1" using Suc.prems(2) s1 by simp
    show "b_write_blocks m1 n (b + 1) lock1 buf1 w1 = Some ((res, m', lock', buf'), w')"
      using Suc.prems(4) one s1 by simp
  qed
qed

text \<open>Enough room for every block of the file in the snapshot.\<close>

abbreviation all_blocks :: "mfd \<Rightarrow> world \<Rightarrow> nat" where
  "all_blocks m w \<equiv> sn_size m div BL_S w + 1"

lemma can_save_less: "can_save m i j k r w \<Longrightarrow> n \<le> r \<Longrightarrow> can_save m i j k n w"
  by (auto simp: can_save_def elim!: le_trans [rotated] intro!: mult_le_mono1)

lemma b_write_normal:
  assumes "can_save m i j k (all_blocks m w) w" and "b_write m sz off hl w = Some ((res, m'), w')"
  shows "res = Inr () \<and> fates w' = []"
proof (cases "sz = 0 \<or> off \<ge> sn_size m")
  case True
  then have "b_write m sz off hl w = Some ((Inr (), m), w)"
    by (cases "sz = 0") (auto simp: b_write_def Let_def)
  with assms show ?thesis by (simp add: can_save_def)
next
  case False
  have dat: "\<not> datfd m < 0"
    using assms(1) fd_view_nonneg by (force simp: can_save_def cow_ok_def saving_fds_def)
  define sz' where "sz' = (if off + sz > sn_size m then sn_size m - off else sz)"
  obtain b n where bn: "b_calc_blocks (bl_slog w) off sz' = (b, n)" by fastforce
  have z: "0 < sz'" "off + sz' \<le> sn_size m" using False by (auto simp: sz'_def)
  have b: "b = off div BL_S w" "n = (sz' + off mod BL_S w - 1) div BL_S w + 1"
    using bn by (simp_all add: b_calc_blocks_eq BL_S_def)
  have "(b + n - 1) * BL_S w = off div BL_S w * BL_S w + (sz' + off mod BL_S w - 1) div BL_S w * BL_S w"
    by (simp add: b algebra_simps)
  also have "\<dots> \<le> off div BL_S w * BL_S w + (sz' + off mod BL_S w - 1)" by simp
  also have "\<dots> < off + sz'" using z(1) div_mult_mod_eq [of off "BL_S w"] by simp
  finally have last: "(b + n - 1) * BL_S w < sn_size m" using z(2) by simp
  have "(n - 1) * BL_S w \<le> (b + n - 1) * BL_S w" by (intro mult_le_mono1) simp
  from le_trans [OF this less_imp_le [OF last]] have "n - 1 \<le> sn_size m div BL_S w"
    by (simp add: less_eq_div_iff_mult_less_eq BL_S_def)
  then have c: "can_save m i j k n w" using can_save_less [OF assms(1), of n] by simp
  have "b_write m sz off hl w =
      Option.bind (b_write_blocks m n b (if hl then -2 else -1) No_buf w)
        (\<lambda>((r, m, lock, buf), w). b_write_end r m lock buf w)"
    using dat False bn by (simp add: b_write_def Let_def sz'_def [symmetric])
  with assms(2) obtain r1 m1 l1 buf1 w1 where
      bl: "b_write_blocks m n b (if hl then -2 else -1) No_buf w = Some ((r1, m1, l1, buf1), w1)"
      and en: "b_write_end r1 m1 l1 buf1 w1 = Some ((res, m'), w')"
    by (auto split: bind_splits)
  have "r1 = Inr () \<and> can_save m1 i j k 0 w1"
    using b_write_blocks_normal [OF c _ _ bl] last by (simp add: buf_ok_def)
  then show ?thesis using b_write_end_step [OF en] by (auto simp: can_save_def)
qed

section \<open>The handlers\<close>

lemma write_op_normal:
  assumes "can_save m i j k (all_blocks m w) w" and "lock_free (mfd_locklabel m) (mflocks w)"
    and "mfd_sn_number m = sn_number w" and "is_main m = Mfd_main"
    and "fd_view w (mainfd m) = Some (i, fl)" and "writable fl" and "\<not> has_flag fl O_APPEND"
    and "off + length buf \<le> MAX_OFF"
  shows "\<exists>m' w'. write_op buf off m w = Some ((Inr (length buf), m'), w')
    \<and> fdata w' i = write_at (fdata w i) buf off \<and> snap_file i j k w' = snap_file i j k w
    \<and> frame {i, j, k} w w' \<and> mflocks w' = mflocks w \<and> fates w' = []"
proof -
  have ok: "cow_ok m i j k w" using assms(1) by (simp add: can_save_def)
  obtain r m1 w1 where b: "b_write m (length buf) off False w = Some ((r, m1), w1)" "mflocks w1 = mflocks w"
    using b_write_total [OF assms(2)] by blast
  have r: "r = Inr ()" "fates w1 = []" using b_write_normal [OF assms(1) b(1)] by simp_all
  have st: "frame {j, k} w w1" "same_handle m m1" "i \<noteq> j" "i \<noteq> k"
    using b_write_step [OF ok b(1)] ok by (auto simp: cow_step_def cow_ok_def saving_fds_def)
  have v: "fd_view w1 (mainfd m1) = Some (i, fl)" "fdata w1 i = fdata w i"
    using assms(5) st same_handle_fields [OF st(2)] by (simp_all add: frame_fd_view frame_fdata)
  let ?w2 = "set_data i (write_at (fdata w1 i) buf off) w1"
  have "sys_pwrite (mainfd m1) buf off w1 = (Inr (length buf), ?w2)"
    using assms(7,8) by (intro pwrite_normal [OF r(2) v(1) assms(6)]) simp_all
  with b(1) r(1) assms(3,4) have w: "write_op buf off m w = Some ((Inr (length buf), m1), ?w2)"
    by (simp add: write_op_def mfd_validate_def)
  from write_op_step [OF ok assms(3) w] w v(2) b(2) r(2) show ?thesis by (auto simp: fdata_set_data)
qed

lemma ftruncate_op_normal:
  assumes "can_save m i j k (all_blocks m w) w" and "lock_free (mfd_locklabel m) (mflocks w)"
    and "mfd_sn_number m = sn_number w" and "fd_view w (mainfd m) = Some (i, fl)" and "writable fl"
    and "n \<le> MAX_OFF"
  shows "\<exists>m' w'. ftruncate_op n m w = Some ((Inr (), m'), w')
    \<and> fdata w' i = resize_to (fdata w i) n \<and> snap_file i j k w' = snap_file i j k w
    \<and> frame {i, j, k} w w' \<and> mflocks w' = mflocks w \<and> fates w' = []"
proof -
  have ok: "cow_ok m i j k w" "fates w = []" using assms(1) by (simp_all add: can_save_def)
  obtain r m1 w1 where b: "b_truncate m n False w = Some ((r, m1), w1)" "mflocks w1 = mflocks w"
    using b_truncate_total [OF assms(2)] by blast
  have r: "r = Inr ()" "fates w1 = []"
    using b(1) b_write_normal [OF assms(1), of "sn_size m - n" n False r m1 w1] ok(2)
    by (auto simp: b_truncate_def split: if_splits)
  have st: "frame {j, k} w w1" "same_handle m m1" "i \<noteq> j" "i \<noteq> k"
    using b_truncate_step [OF ok(1) b(1)] ok(1) by (auto simp: cow_step_def cow_ok_def saving_fds_def)
  have v: "fd_view w1 (mainfd m1) = Some (i, fl)" "fdata w1 i = fdata w i"
    using assms(4) st same_handle_fields [OF st(2)] by (simp_all add: frame_fd_view frame_fdata)
  let ?w2 = "set_data i (resize_to (fdata w1 i) n) w1"
  have "sys_ftruncate (mainfd m1) n w1 = (Inr (), ?w2)"
    using r(2) v(1) assms(5,6) by (auto simp: sys_ftruncate_def pop_none fd_view_Some Let_def)
  with b(1) r(1) assms(3) have w: "ftruncate_op n m w = Some ((Inr (), m1), ?w2)"
    by (simp add: ftruncate_op_def mfd_validate_def)
  from ftruncate_op_step [OF ok(1) assms(3) w] w v(2) b(2) r(2) show ?thesis by (auto simp: fdata_set_data)
qed

text \<open>
  C24: a write stores the bytes. Without faults, through an up-to-date handle on the main file that
  may write and has not been opened for appending, with room for the blocks to save, the handler of
  \<open>write\<close> returns the number of bytes, the main file has the bytes at the offset, and the file in the
  snapshot is as before.
\<close>

theorem write_stores:
  assumes "can_save m i j k (all_blocks m w) w" and "lock_free (mfd_locklabel m) (mflocks w)"
    and "mfd_sn_number m = sn_number w" and "is_main m = Mfd_main"
    and "fd_view w (mainfd m) = Some (i, fl)" and "writable fl" and "\<not> has_flag fl O_APPEND"
    and "off + length buf \<le> MAX_OFF"
  shows "\<exists>m' w'. write_op buf off m w = Some ((Inr (length buf), m'), w')
    \<and> fdata w' i = write_at (fdata w i) buf off \<and> snap_file i j k w' = snap_file i j k w"
  using write_op_normal [OF assms] by blast

text \<open>
  C25: a truncation sets the size. Under the same conditions the handler of \<open>ftruncate\<close> succeeds, the
  main file is cut or filled up with zeros to the new size, and the file in the snapshot is as before.
\<close>

theorem ftruncate_stores:
  assumes "can_save m i j k (all_blocks m w) w" and "lock_free (mfd_locklabel m) (mflocks w)"
    and "mfd_sn_number m = sn_number w" and "fd_view w (mainfd m) = Some (i, fl)" and "writable fl"
    and "n \<le> MAX_OFF"
  shows "\<exists>m' w'. ftruncate_op n m w = Some ((Inr (), m'), w')
    \<and> fdata w' i = resize_to (fdata w i) n \<and> snap_file i j k w' = snap_file i j k w"
  using ftruncate_op_normal [OF assms] by blast

lemma demo_can_save: "can_save demo_mfd 2 3 4 (all_blocks demo_mfd demo) demo"
  using demo_inv
  by (simp add: can_save_def reads_def fd_view_def get_fd_def demo_def world0_def demo_mfd_def is_dir_def
      S_ISDIR_def demo_inode_def readable_def fdata_def BL_S_def demo_header_def MAPHEADER_S_def BLP_S_def)

lemma demo_main: "fd_view demo (mainfd demo_mfd) = Some (2, O_RDWR)" "mfd_sn_number demo_mfd = sn_number demo"
    "is_main demo_mfd = Mfd_main" "writable O_RDWR" "\<not> has_flag O_RDWR O_APPEND"
    "fdata demo 2 = [1, 2, 3, 4, 5, 6, 7, 8, 9, 10]"
  by (simp_all add: demo_def demo_mfd_def fd_view_def get_fd_def mfd_garbage_def writable_def has_flag_def
      fdata_def demo_inode_def)

theorem write_stores_witness:
  "\<exists>m' w'. write_op [91, 92, 93] 2 demo_mfd demo = Some ((Inr 3, m'), w')
    \<and> fdata w' 2 = [1, 2, 91, 92, 93, 6, 7, 8, 9, 10] \<and> snap_file 2 3 4 w' = snap_file 2 3 4 demo"
  using write_stores [OF demo_can_save demo_lock demo_main(2,3,1,4,5), of 2 "[91, 92, 93]"]
  by (simp add: demo_main(6) write_at_def numeral_3_eq_3)

theorem ftruncate_stores_witness:
  "\<exists>m' w'. ftruncate_op 3 demo_mfd demo = Some ((Inr (), m'), w')
    \<and> fdata w' 2 = [1, 2, 3] \<and> snap_file 2 3 4 w' = snap_file 2 3 4 demo"
  using ftruncate_stores [OF demo_can_save demo_lock demo_main(2,1,4), of 3]
  by (simp add: demo_main(6) resize_to_def)

section \<open>A reader that was there first\<close>

text \<open>
  A handle on the file in the snapshot as \<open>open\<close> makes it when no snapshot on the way has saved the
  file yet (\<open>open_early_reader\<close> in the theory \<open>Limits\<close>): the search for a block begins at the main file,
  which is open, and the size is that of the main file. \<open>mfd_in_sn_validate\<close> compares \<open>sn_number\<close> only,
  so that the handle remains valid when the file is opened for writing later.
\<close>

definition early_reader :: "world \<Rightarrow> mfd \<Rightarrow> nat \<Rightarrow> bool" where
  "early_reader w rm i \<longleftrightarrow> is_main rm = Mfd_sn_full \<and> mfd_sn_number rm = sn_number w
     \<and> sn_first_file rm = 0 \<and> sn_size rm = length (fdata w i)
     \<and> (\<exists>fl. fd_view w (step_datfd (sn_steps rm ! 0)) = Some (i, fl) \<and> readable fl) \<and> \<not> is_dir w i"

definition early_mfd :: mfd where
  "early_mfd = rdemo_mfd\<lparr>sn_first_file := 0,
     sn_steps := [\<lparr>step_path = ''/r/f'', step_mapfd = SN_STEPS_MAIN, step_datfd = 0, step_dirfd = None\<rparr>,
       \<lparr>step_path = ''/r/snapshots/a/f'', step_mapfd = SN_STEPS_UNUSED, step_datfd = SN_STEPS_UNUSED, step_dirfd = None\<rparr>]\<rparr>"

text \<open>
  C26: such a reader is not isolated from the main space. The write of C24 keeps the file in the
  snapshot, but the reader, whose handle is still accepted, reads the bytes that have just been
  written, at every offset in the file.
\<close>

theorem early_reader_sees_write:
  assumes "can_save m i j k (all_blocks m w) w" and "lock_free (mfd_locklabel m) (mflocks w)"
    and "mfd_sn_number m = sn_number w" and "is_main m = Mfd_main"
    and "fd_view w (mainfd m) = Some (i, fl)" and "writable fl" and "\<not> has_flag fl O_APPEND"
    and "early_reader w rm i" and "lock_free (mfd_locklabel rm) (mflocks w)"
    and "off + length buf \<le> length (fdata w i)" and "length (fdata w i) \<le> MAX_OFF"
  shows "\<exists>m' w' w''. write_op buf off m w = Some ((Inr (length buf), m'), w')
    \<and> snap_file i j k w' = snap_file i j k w
    \<and> read_op (replicate (length buf) 0) (length buf) off rm w' = Some ((Inr (length buf), buf), w'')"
proof -
  obtain m' w' where w': "write_op buf off m w = Some ((Inr (length buf), m'), w')"
      "fdata w' i = write_at (fdata w i) buf off" "snap_file i j k w' = snap_file i j k w"
      "frame {i, j, k} w w'" "mflocks w' = mflocks w" "fates w' = []"
    using write_op_normal [OF assms(1-7), of off buf] assms(10,11) by auto
  obtain fr where r: "fd_view w (step_datfd (sn_steps rm ! 0)) = Some (i, fr)" "readable fr" "\<not> is_dir w i"
    using assms(8) by (auto simp: early_reader_def)
  have d: "fd_data w' (step_datfd (sn_steps rm ! 0)) = fdata w' i" "reads w' (step_datfd (sn_steps rm ! 0))"
    using r frame_fd_view [OF w'(4)] frame_is_dir [OF w'(4)] by (simp_all add: fd_data_def reads_def)
  have len: "length (fdata w' i) = length (fdata w i)" using w'(2) assms(10) by (cases "buf = []") auto
  have "read_at (write_at (fdata w i) buf off) (length buf) off = buf"
    using assms(10) by (cases "buf = []") (auto simp: read_at_def write_at_def)
  then have ra: "read_at (fdata w' i) (length buf) off = buf" using w'(2) by simp
  have "sn_number w' = sn_number w" "no_short w'" using w'(4,6) by (simp_all add: frame_def no_short_def)
  then have "\<exists>ret buf' w''. read_op (replicate (length buf) 0) (length buf) off rm w' = Some ((ret, buf'), w'')
      \<and> (\<forall>q. ret = Inr q \<longrightarrow> buf' = write_at (replicate (length buf) 0) buf 0) \<and> ret = Inr (length buf)"
    using read_op_snap [of w' rm 0 "fdata w' i" "replicate (length buf) 0" "length buf" off]
      d assms(8,9) w'(5,6) len ra by (auto simp: early_reader_def)
  moreover have "write_at (replicate (length buf) 0) buf 0 = buf" by (cases "buf = []") (simp_all add: write_at_def)
  ultimately show ?thesis using w'(1,3) by auto
qed

theorem early_reader_sees_write_witness:
  "\<exists>m' w' w''. write_op [91, 92, 93] 2 demo_mfd demo = Some ((Inr 3, m'), w')
    \<and> snap_file 2 3 4 w' = snap_file 2 3 4 demo
    \<and> read_op [0, 0, 0] 3 2 early_mfd w' = Some ((Inr 3, [91, 92, 93]), w'')"
proof -
  have "early_reader demo early_mfd 2"
    by (simp add: early_reader_def early_mfd_def rdemo_mfd_def demo_def demo_mfd_def fd_view_def get_fd_def
        readable_def is_dir_def S_ISDIR_def demo_inode_def fdata_def demo_header_def)
  moreover have "lock_free (mfd_locklabel early_mfd) (mflocks demo)"
    using demo_lock by (simp add: early_mfd_def rdemo_mfd_def)
  ultimately show ?thesis
    using early_reader_sees_write [OF demo_can_save demo_lock demo_main(2,3,1,4,5), of early_mfd 2 "[91, 92, 93]"]
    by (simp add: demo_main(6) numeral_3_eq_3)
qed

end
