(* ===== verification/Limits.thy ===== *)
theory Limits
  imports Readback Writing
begin

text \<open>
  What the theorem on reading back excludes, and why: a file that was empty when the snapshot was made
  has a map file but no dat file, so that \<open>mfd_get_sn_steps\<close> passes it over; and a file of the main space
  that has the name of a directory of the snapshot makes the files below that directory unreadable. And
  the handle that \<open>open\<close> makes for a file that no snapshot has saved yet.
\<close>

text \<open>
  A disk with the snapshot \<open>a\<close>, in which the file \<open>f\<close> was empty; the main file has three bytes now.
\<close>

definition empty_header :: mapheader where
  "empty_header = \<lparr>mh_version = 12000, mh_exists = 1,
     mh_fstat = \<lparr>st_mode = 0x81A4, st_uid = 1000, st_gid = 1000, st_size = 0\<rparr>, mh_signature = ESFS_SIGNATURE\<rparr>"

definition world2 :: world where
  "world2 = world0\<lparr>
     dents := [([''r'', ''snapshots'', ''a'', ''f.map''], 6), ([''r'', ''f''], 5), ([''r'', ''snapshots'', ''.hid''], 4),
       ([''r'', ''snapshots'', ''a''], 3), ([''r'', ''snapshots''], 2), ([''r''], 1), ([], 0)],
     inodes := (inodes world0)(4 := demo_inode (str_bytes ''/r/snapshots/a'' @ [0]), 5 := demo_inode [1, 2, 3],
       6 := demo_inode (mapheader_bytes empty_header)),
     next_ino := 7, sn_is_any := True, sn_number := 1, sn_lat_dir := ''/r/snapshots/a'', sn_lat_dir_len := 14\<rparr>"

section \<open>A file in the way\<close>

lemma walk_file:
  assumes "lookup w (d @ xs) = Some i" and "\<not> is_dir w i" and "ys \<noteq> []"
    and "\<And>x. prefix x (d @ xs) \<Longrightarrow> x \<noteq> d @ xs \<Longrightarrow> \<exists>j. lookup w x = Some j \<and> is_dir w j"
  shows "walk w d (xs @ ys) = Inl ENOTDIR"
  using assms(1,4)
proof (induction xs arbitrary: d)
  case Nil
  then show ?case using assms(2,3) by (cases ys) simp_all
next
  case (Cons x xs)
  obtain j where "lookup w d = Some j" "is_dir w j" using Cons.prems(2) [of d] by auto
  moreover have "walk w (d @ [x]) (xs @ ys) = Inl ENOTDIR" using Cons.IH [of "d @ [x]"] Cons.prems by simp
  ultimately show ?case by simp
qed

lemma open_blocked:
  assumes "calm w" and "tree w x = Some (File bs)" and "prefix x (comps p)" and "x \<noteq> comps p"
  shows "sys_open p O_RDONLY 0 w = (Inl ENOTDIR, w)"
proof -
  have wf: "os_wf w" using assms(1) by (simp add: calm_def)
  obtain ys where ys: "comps p = x @ ys" "ys \<noteq> []" using assms(3,4) by (auto simp: prefix_def)
  obtain i where i: "lookup w x = Some i" "\<not> is_dir w i" using assms(2) by (auto simp: tree_File)
  have "\<exists>j. lookup w z = Some j \<and> is_dir w j" if "prefix z x" "z \<noteq> x" for z
    using tree_prefix [OF wf assms(2) that] by (simp add: tree_Dir)
  then have "walk w [] (x @ ys) = Inl ENOTDIR" using walk_file [of w "[]" x i ys] i ys(2) by simp
  then show ?thesis using assms(1) ys(1) by (simp add: sys_open_def pop_calm has_flag_def resolve_def)
qed

lemma loop_blocked:
  fixes m :: mfd
  assumes "calm w" and "comps (p @ vp) = k" and "tree w x = Some (File bs)" and "prefix x k" and "x \<noteq> k"
    and "length p + length vp < PATH_MAX" and "step_path (sn_steps m ! 0) = p" and "0 < length (sn_steps m)"
  shows "\<exists>m'. sn_steps_loop SN_STEPS_F_FILE vp (Suc 0) (Inr ()) m w = ((Inl ENOTDIR, m'), w)"
proof -
  let ?m = "upd_step 0 (\<lambda>t. t\<lparr>step_path := p @ vp\<rparr>) m"
  have "sn_step_body SN_STEPS_F_FILE vp 0 (Inr ()) m w = sn_step_file SN_STEPS_F_FILE 0 (Inr ()) ?m w"
    using assms(6,7) by (simp add: sn_step_body_def sn_known_type_def has_flag_def)
  moreover have "step_path (sn_steps ?m ! 0) = p @ vp" using assms(8) by (simp add: upd_step_def)
  moreover have "sys_open (p @ vp) O_RDONLY 0 w = (Inl ENOTDIR, w)"
    using open_blocked [OF assms(1,3), of "p @ vp"] assms(2,4,5) by simp
  ultimately show ?thesis by (simp add: sn_step_file_def sn_step_main_def has_flag_def Let_def)
qed

text \<open>
  C27: a file of the main space hides the files of the snapshot below it. When a name above the path
  is now the name of a file in the main space, opening the path in a snapshot fails with \<open>ENOTDIR\<close>,
  whatever the snapshots have saved for the path, since the main file is opened too.
\<close>

theorem main_file_hides_snapshot:
  assumes "versions s ids" and "x \<in> set ids" and "length ids + 1 < MAX_SNAPSHOTS"
    and "snap_way (fs s) (up_to x ids) cs" and "fl AND O_ACCMODE = O_RDONLY"
    and "tree (fs s) (main_dir s @ ds) = Some (File bs)" and "prefix ds cs" and "ds \<noteq> cs"
  shows "\<exists>w. open_op garb (SNDIR @ DIRSEP @ x @ sub_path [] cs) fl (fs s) = Some ((Inl ENOTDIR, None), w)"
proof -
  let ?ys = "up_to x ids"
  obtain m w where w: "calm w" "tree w = tree (fs s)" "os.more w = os.more (fs s)" "length (sn_steps m) = Suc (length ?ys)"
      "\<And>i. i \<le> length ?ys \<Longrightarrow> step_path (sn_steps m ! i) = (rootdir w # map (sn_root (sn_dir w)) ?ys) ! i"
      and o: "open_op garb (SNDIR @ DIRSEP @ x @ sub_path [] cs) fl (fs s) =
        Some (case sn_steps_loop SN_STEPS_F_FILE (sub_path [] cs) (Suc (length ?ys)) (Inr ()) m w of
          ((Inl e, m), w) \<Rightarrow> ((Inl e, None), snd (mfd_destroy_sn_steps m w))
        | ((Inr _, m), w) \<Rightarrow> ((Inr (), Some (m\<lparr>is_main := Mfd_sn_full\<rparr>)), w))"
    using open_snap_loop [OF assms(1-5), of garb] by blast
  have sw: "snap_way w ?ys cs" using assms(4) w(2) more_fields [OF w(3)] by (simp add: snap_way_def)
  obtain m1 w1 where m1: "sn_steps_loop SN_STEPS_F_FILE (sub_path [] cs) (Suc (length ?ys)) (Inr ()) m w
        = sn_steps_loop SN_STEPS_F_FILE (sub_path [] cs) (Suc 0) (Inr ()) m1 w1"
      "grows w w1" "length (sn_steps m1) = Suc (length ?ys)" "sn_steps m1 ! 0 = sn_steps m ! 0"
    using steps_loop_snaps [OF sw w(1) order.refl w(4,5)] by blast
  have k: "comps (rootdir w @ sub_path [] cs) = main_dir s @ cs" "length (rootdir w) + length (sub_path [] cs) < PATH_MAX"
    using sw main_comps more_fields [OF w(3)] by (simp_all add: snap_way_def)
  have p: "prefix (main_dir s @ ds) (main_dir s @ cs)" "main_dir s @ ds \<noteq> main_dir s @ cs" using assms(7,8) by simp_all
  have "tree w1 (main_dir s @ ds) = Some (File bs)" using assms(6) w(2) grows_tree [OF m1(2)] by simp
  moreover have "step_path (sn_steps m1 ! 0) = rootdir w" "0 < length (sn_steps m1)" using w(5) [of 0] m1(3,4) by simp_all
  ultimately have "\<exists>m'. sn_steps_loop SN_STEPS_F_FILE (sub_path [] cs) (Suc 0) (Inr ()) m1 w1 = ((Inl ENOTDIR, m'), w1)"
    by (intro loop_blocked [OF grows_calm [OF m1(2)] k(1) _ p k(2)])
  with o m1(1) show ?thesis by (auto simp del: sn_steps_loop.simps)
qed

section \<open>Files that no snapshot has saved\<close>

lemma first_step_none:
  "\<forall>y \<in> set (take j ys). \<not> full t (K @ [y]) cs \<Longrightarrow> j \<le> length ys \<Longrightarrow> first_step t K ys cs j = 0"
  by (induction j) (auto simp: take_Suc_conv_app_nth)

text \<open>
  When no snapshot on the way has both a map and a dat file for the path, the handle that \<open>open\<close> makes
  reads the main file.
\<close>

lemma open_early_reader:
  assumes "versions s ids" and "x \<in> set ids" and "length ids + 1 < MAX_SNAPSHOTS"
    and "way_ok (fs s) (up_to x ids) cs" and "fl AND O_ACCMODE = O_RDONLY"
    and "\<forall>y \<in> set (up_to x ids). \<not> full (tree (fs s)) (comps (sn_dir (fs s)) @ [y]) cs"
    and "tree (fs s) (main_dir s @ cs) = Some (File bs)"
  shows "\<exists>m w i. open_op garb (SNDIR @ DIRSEP @ x @ sub_path [] cs) fl (fs s) = Some ((Inr (), Some m), w)
    \<and> calm w \<and> tree w = tree (fs s) \<and> lookup w (main_dir s @ cs) = Some i \<and> fdata w i = bs
    \<and> early_reader w m i \<and> mfd_locklabel m \<noteq> 0 \<and> mflocks w = table0"
proof -
  let ?ys = "up_to x ids"
  obtain m w where o: "open_op garb (SNDIR @ DIRSEP @ x @ sub_path [] cs) fl (fs s) = Some ((Inr (), Some m), w)"
      "calm w" "tree w = tree (fs s)" "os.more w = os.more (fs s)" "steps_read w ?ys cs (length ?ys) m"
      "first_is w ?ys cs (first_step (tree w) (comps (sn_dir w)) ?ys cs (length ?ys)) m"
      "is_main m = Mfd_sn_full" "mfd_sn_number m = sn_number w"
    using open_steps_read [OF assms(1-5), of garb] by blast
  note f = more_fields [OF o(4)]
  have t: "tree w (comps (rootdir w) @ cs) = Some (File bs)" using assms(7) o(3) f by simp
  have "first_step (tree w) (comps (sn_dir w)) ?ys cs (length ?ys) = 0"
    using assms(6) o(3) f by (intro first_step_none) simp_all
  then have a: "sn_first_file m = 0" "sn_size m = length bs" using o(6) t by (simp_all add: first_is_def main_first_def)
  have "main_is w (sn_steps m ! 0) (comps (rootdir w) @ cs)" "mfd_locklabel m \<noteq> 0"
    using o(5) string2locklabel_nonzero by (simp_all add: steps_read_def)
  then obtain g where g: "get_fd w (step_datfd (sn_steps m ! 0)) = Some g" "readable (of_flags g)"
      "lookup w (comps (rootdir w) @ cs) = Some (of_ino g)"
    using t by (auto simp: main_is_def reads_at_def)
  have "fdata w (of_ino g) = bs" "\<not> is_dir w (of_ino g)" using t g(3) by (auto simp: tree_File)
  then have "early_reader w m (of_ino g)"
    using g a o(7,8) by (simp add: early_reader_def fd_view_Some)
  moreover have "mflocks w = table0" using assms(1) f by (simp add: versions_def)
  ultimately show ?thesis
    using o(1-3) g(3) f \<open>fdata w (of_ino g) = bs\<close> \<open>mfd_locklabel m \<noteq> 0\<close> by auto
qed

text \<open>
  C28: a snapshot does not keep a file that was empty. Its map file in the latest snapshot gives the
  size 0, and there is no dat file, so that the file in the snapshot is empty; but \<open>mfd_get_sn_steps\<close>
  goes on to the next step when there is no dat file, before it notes that the file has been found.
  Opening the file in the snapshot and reading it returns what the main file has now.
\<close>

theorem empty_file_not_kept:
  assumes "versions s (x # ids)" and "length ids + 2 < MAX_SNAPSHOTS" and "way_ok (fs s) [x] cs"
    and "layer_at (tree (fs s)) (comps (sn_dir (fs s)) @ [x]) cs = Some (mb, [])" and "layer_size mb = Some 0"
    and "tree (fs s) (comps (sn_dir (fs s)) @ x # dat_key cs) = None"
    and "tree (fs s) (main_dir s @ cs) = Some (File bs)"
  shows "version_view (bl_slog (fs s)) (tree (fs s)) (comps (sn_dir (fs s))) (main_dir s) (x # ids) x cs = Some []
    \<and> (\<exists>m w w'. open_op garb (SNDIR @ DIRSEP @ x @ sub_path [] cs) O_RDONLY (fs s) = Some ((Inr (), Some m), w)
         \<and> read_op (replicate (length bs) 0) (length bs) 0 m w = Some ((Inr (length bs), bs), w'))"
proof -
  have y: "up_to x (x # ids) = [x]" by (simp add: up_to_def)
  have v: "version_view (bl_slog (fs s)) (tree (fs s)) (comps (sn_dir (fs s))) (main_dir s) (x # ids) x cs = Some []"
    using assms(4,5) by (simp add: version_view_def y view_def overlay_def)
  have "\<not> full (tree (fs s)) (comps (sn_dir (fs s)) @ [x]) cs" using assms(6) by (simp add: full_def file_of_def)
  then obtain m w i where o: "open_op garb (SNDIR @ DIRSEP @ x @ sub_path [] cs) O_RDONLY (fs s) = Some ((Inr (), Some m), w)"
      "calm w" "fdata w i = bs" "early_reader w m i" "mfd_locklabel m \<noteq> 0" "mflocks w = table0"
    using open_early_reader [OF assms(1) _ _ _ _ _ assms(7), of x O_RDONLY garb] assms(2,3) y by auto
  have "lock_free (mfd_locklabel m) (mflocks w)" using lock_free_idle [OF o(5)] o(6) by (simp add: table0_def)
  moreover have "no_short w" "fates w = []" using o(2) by (simp_all add: no_short_def calm_def)
  moreover have "steps_ok w m 0" "steps_view w m 0 = Some bs"
    using o(3,4) by (auto simp: early_reader_def reads_def fd_data_def)
  ultimately obtain w' where "read_op (replicate (length bs) 0) (length bs) 0 m w =
      Some ((Inr (length bs), write_at (replicate (length bs) 0) bs 0), w')"
    using read_op_snap [of w m 0 bs "replicate (length bs) 0" "length bs" 0] o(3,4)
    by (auto simp: early_reader_def read_at_def)
  moreover have "write_at (replicate (length bs) 0) bs 0 = bs" by (cases "bs = []") (simp_all add: write_at_def)
  ultimately show ?thesis using v o(1) by auto
qed

section \<open>The example\<close>

lemma world2_lookup: "lookup world2 k =
   (if k = [''r'', ''snapshots'', ''a'', ''f.map''] then Some 6 else if k = [''r'', ''f''] then Some 5
    else if k = [''r'', ''snapshots'', ''.hid''] then Some 4 else if k = [''r'', ''snapshots'', ''a''] then Some 3
    else if k = [''r'', ''snapshots''] then Some 2 else if k = [''r''] then Some 1 else if k = [] then Some 0 else None)"
  by (simp add: lookup_def world2_def)

lemma world2_is_dir: "is_dir world2 i = (i \<noteq> 4 \<and> i \<noteq> 5 \<and> i \<noteq> 6)"
  by (simp add: is_dir_def S_ISDIR_def world2_def world0_def demo_inode_def const_defs)

lemma world2_tree: "tree world2 k =
   (if k = [''r'', ''snapshots'', ''a'', ''f.map''] then Some (File (mapheader_bytes empty_header))
    else if k = [''r'', ''f''] then Some (File [1, 2, 3])
    else if k = [''r'', ''snapshots'', ''.hid''] then Some (File (str_bytes ''/r/snapshots/a'' @ [0]))
    else if k \<in> {[''r'', ''snapshots'', ''a''], [''r'', ''snapshots''], [''r''], []} then Some Dir else None)"
  by (simp add: tree_def world2_lookup world2_is_dir fdata_def)
    (simp add: world2_def demo_inode_def)

lemma world2_calm: "calm world2"
proof -
  have "os_wf world2"
    unfolding os_wf_def world2_lookup world2_is_dir
    by (auto simp: world2_def world0_def get_fd_def good_name_def split: if_splits)
  moreover have "sizes_ok world2"
    by (simp add: sizes_ok_def fdata_def world2_def world0_def demo_inode_def str_bytes_def MAPHEADER_S_def)
  ultimately show ?thesis by (simp add: calm_def world2_def world0_def)
qed

lemma world2_fields: "sn_dir world2 = ''/r/snapshots''" "rootdir world2 = ''/r''" "bl_slog world2 = 2"
    "comps ''/r/snapshots'' = [''r'', ''snapshots'']" "comps ''/r'' = [''r'']"
  by (simp_all add: world2_def world0_def comps_def dot_step_def)

lemma world2_versions: "versions \<lparr>fs = world2, fhs = []\<rparr> [''a'']"
proof -
  have "tree world2 (comps (sn_dir world2) @ [x]) = listing (sn_dir world2) [''a''] x" for x
    by (simp add: world2_tree world2_fields listing_def pointer_def sn_root_def const_defs)
  then have "on_disk world2 [''a'']"
    using world2_calm by (simp add: on_disk_def world2_fields world2_tree const_defs good_id_def good_name_def sn_root_def sn_filter_name_def)
  then show ?thesis
    by (simp add: versions_def snaps_def world2_fields)
      (simp add: world2_def world0_def BL_S_def const_defs sn_root_def)
qed

lemma world2_header: "header_ok empty_header" "map_header (mapheader_bytes empty_header) = empty_header"
proof -
  have "mapheader_wf empty_header" by (simp add: mapheader_wf_def empty_header_def ESFS_SIGNATURE_def)
  then show "map_header (mapheader_bytes empty_header) = empty_header"
    using bytes_mapheader_bytes [of empty_header "[]"] by (simp add: map_header_def read_at_def)
qed (simp add: header_ok_def empty_header_def)

lemma world2_way:
  assumes "cs = [''f''] \<or> cs = [''f'', ''g'']"
  shows "snap_way world2 [''a''] cs"
proof -
  have "shape (tree world2) [''r'', ''snapshots'', ''a'']"
    by (auto simp: shape_def world2_tree plain_def mfd_filter_name_def const_defs)
  then show ?thesis
    using assms world2_header
    by (auto simp: snap_way_def world2_fields world2_tree good_path_def good_name_def sub_path_def const_defs sn_root_def
        map_key_def MAPHEADER_S_def plain_def mfd_filter_name_def)
qed

theorem empty_file_not_kept_witness:
  "version_view 2 (tree world2) [''r'', ''snapshots''] [''r''] [''a''] ''a'' [''f''] = Some []
   \<and> (\<exists>m w w'. open_op (garbage env0) ''/snapshots/a/f'' O_RDONLY world2 = Some ((Inr (), Some m), w)
        \<and> read_op [0, 0, 0] 3 0 m w = Some ((Inr 3, [1, 2, 3]), w'))"
proof -
  let ?s = "\<lparr>fs = world2, fhs = []\<rparr>"
  have "way_ok (fs ?s) [''a''] [''f'']"
    using world2_way [of "[''f'']"] by (auto simp: way_ok_def clear_way_def world2_fields world2_tree prefix_Cons)
  moreover have "layer_at (tree (fs ?s)) (comps (sn_dir (fs ?s)) @ [''a'']) [''f''] = Some (mapheader_bytes empty_header, [])"
    by (simp add: layer_at_def world2_fields world2_tree map_key_def dat_key_def file_of_def const_defs)
  moreover have "layer_size (mapheader_bytes empty_header) = Some 0"
    by (simp add: layer_size_def world2_header) (simp add: empty_header_def)
  moreover have "tree (fs ?s) (comps (sn_dir (fs ?s)) @ ''a'' # dat_key [''f'']) = None"
      "tree (fs ?s) (main_dir ?s @ [''f'']) = Some (File [1, 2, 3])"
    by (simp_all add: world2_fields world2_tree dat_key_def const_defs)
  ultimately show ?thesis
    using empty_file_not_kept [OF world2_versions, of "[''f'']" "mapheader_bytes empty_header" "[1, 2, 3]" "garbage env0"]
    by (simp add: world2_fields MAX_SNAPSHOTS_def sub_path_def const_defs numeral_3_eq_3)
qed

theorem main_file_hides_snapshot_witness:
  "\<exists>w. open_op (garbage env0) ''/snapshots/a/f/g'' O_RDONLY world2 = Some ((Inl ENOTDIR, None), w)"
proof -
  let ?s = "\<lparr>fs = world2, fhs = []\<rparr>"
  have "snap_way (fs ?s) (up_to ''a'' [''a'']) [''f'', ''g'']" using world2_way by (simp add: up_to_def)
  moreover have "tree (fs ?s) (main_dir ?s @ [''f'']) = Some (File [1, 2, 3])" by (simp add: world2_fields world2_tree)
  ultimately show ?thesis
    using main_file_hides_snapshot [OF world2_versions, of "''a''" "[''f'', ''g'']" O_RDONLY "[''f'']" "[1, 2, 3]" "garbage env0"]
    by (simp add: MAX_SNAPSHOTS_def sub_path_def const_defs)
qed

end
