(* ===== verification/Spec2Isabelle.thy ===== *)
theory Spec2Isabelle
  imports Isolation BlockNumbers Limits
begin

text \<open>
  ESFS is a FUSE file system that keeps snapshots of the files under a root directory. The files of
  the main space are plain files under the root. The directory \<open>/snapshots\<close> shows the snapshots; a
  snapshot is made with \<open>mkdir /snapshots/NAME\<close>, and \<open>rmdir /snapshots\<close> removes the earliest one. A
  snapshot has, for each file that has changed since it was made, a map file (the attributes of the
  file and a pointer per block) and a dat file (the blocks that have been saved). Before a block of
  a main file changes, it is saved in the latest snapshot; a file in a snapshot is read block by
  block from the first of the snapshot, the later snapshots and the main file that has the block.

  \<^bold>\<open>The state.\<close> A \<open>world\<close> is the state of the operating system (\<open>Posix\<close>: directory entries, inodes,
  descriptors, directory streams) extended with the fields of \<open>fsdata_t\<close> (\<open>Types\<close>). A system call is
  a function on it. Whether a call does its work, fails with an error, or reads or writes less than
  asked for is decided by a schedule, the field \<open>fates\<close>, which is arbitrary in the theorems unless
  they say otherwise; \<open>malloc\<close> takes from the same schedule. A function of the program takes its
  arguments and the state and returns its result, \<open>Inl e\<close> for \<open>-e\<close>, and the new state. A function
  that takes locks has an optional result; \<open>None\<close> is a thread that waits for ever.

  \<^bold>\<open>The model\<close>, one theory per source file:
  \<^item> \<open>Posix\<close>: what the program uses of the operating system; \<open>Types\<close>: \<open>types.h\<close>.
  \<^item> \<open>Util\<close>: \<open>util.c\<close>, the paths, the parts of a path in the snapshot space, the lock labels, the
    pointer files, the dispatch macros. \<open>UtilLocking\<close>: \<open>util_locking.c\<close>.
  \<^item> \<open>Mflock\<close>: \<open>mflock.c\<close>, the table of locks, twice: as the procedures of one thread, and as a step
    relation in which threads interleave at every access to shared memory.
  \<^item> \<open>Snapshot\<close>: \<open>snapshot.c\<close>; \<open>Mfd\<close>: \<open>mfd.c\<close>, the file handles; \<open>Block\<close>: \<open>block.c\<close>.
  \<^item> \<open>FuseFd\<close> and \<open>FusePath\<close>: the handlers of \<open>fuse_fd_*.c\<close> and \<open>fuse_path_*.c\<close>.
  \<^item> \<open>Esfs\<close>: \<open>esfs.c\<close>, the start of the program; \<open>Server\<close>: its table of operations as a function from
    requests to replies, and the states it can reach.

  \<^bold>\<open>The theorems.\<close>
  \<^item> \<open>Overlay\<close> is the specification of a file in a snapshot as a stack of layers over the main file,
    and the contract \<open>cow_layer\<close> of a layer, with the map and dat files as its implementation. \<open>Cow\<close>
    and \<open>Saving\<close>: saving blocks, writing and truncating never change a layered file; \<open>Reading\<close>: a
    read in a snapshot returns a range of the layered file; \<open>Isolation\<close>: a reader in any snapshot that
    has the map and dat files open sees the same before and after any sequence of writes and
    truncations. Calls may fail at any point; partial reads and writes are excluded, since a pointer
    that is half written changes the snapshot. \<open>Writing\<close>: without faults the handlers succeed and the
    main file has the new contents; a reader that was there before the map and dat files sees them too.
  \<^item> \<open>Mflock\<close>: mutual exclusion, for any number of threads and any interleaving; the procedures of one
    thread are runs of the step relation; a lock that has been taken is held against all the other
    threads until it is released (with the contract \<open>lock_service\<close>); a mutex that can be lost.
  \<^item> \<open>Effects\<close>: the operations keep any property of the state that the elementary changes keep (the
    contracts \<open>quiet_inv\<close> and \<open>state_inv\<close>). \<open>Invariants\<close>: three such properties, among them the shape of
    the tree (\<open>Tree\<close>). \<open>Progress\<close>: every operation returns. \<open>Server\<close>: the same for all requests in all
    reachable states.
  \<^item> \<open>Disk\<close>: the disk as a map from paths to nodes, on which a system call that does not fail acts as a
    function. \<open>Removal\<close>: removing a tree. \<open>Chain\<close>: the pointer files are a list of names, and the
    functions of \<open>snapshot.c\<close> are operations on this list. \<open>Versions\<close>: the requests refine the list; a
    snapshot that has been removed and is still found.
  \<^item> \<open>Layers\<close>: the layers of all the files of a snapshot in its tree, and when they are sound. \<open>Opening\<close>:
    opening a file for writing makes its layer in the latest snapshot. \<open>Sessions\<close>: opening or creating
    a file, any writes and truncations, and the release; \<open>Events\<close>: the requests on paths. \<open>History\<close>: any
    sequence of such events, of making and removing snapshots and of restarts refines an archive that
    records the files when a snapshot is made: no snapshot ever changes. \<open>Readback\<close>: opening and reading
    a file in a snapshot returns the bytes of the archive. \<open>Limits\<close>: what happens to the files that
    \<open>Readback\<close> excludes, files that were empty and files below a name that is now a file.
  \<^item> \<open>PathNames\<close>, \<open>BlockNumbers\<close>: bounds of paths and blocks, with the wrap-around of C.

  \<^bold>\<open>Bounds.\<close> The loops along the pointer files are bounded by \<open>MAX_SNAPSHOTS\<close> in the program. \<open>nftw\<close> and
  \<open>readdir\<close> have as fuel the number of directory entries and the length of the stream, which is
  enough: a path of the tree is shorter than the number of entries. File offsets are natural numbers;
  the system calls refuse what does not fit into \<open>off_t\<close>, and the block computation is also done on
  64-bit words. The block size is a field of the state, so that the theorems hold for any.

  \<^bold>\<open>Not modelled\<close>: permissions, times, extended attributes and special files; messages and the log;
  \<open>realpath\<close> and the parsing done by FUSE (parameters of \<open>esfs_main\<close>); the loss of data in a crash of
  the machine. Requests other than locking are atomic: the interleaving of threads is modelled for
  the lock table only, and in \<open>History\<close> a session ends before the next event. \<open>fuse_unused.c\<close> has only comments, \<open>params.h\<close> only settings of the compiler, and
  the Perl scripts build and test the program.

  \<^bold>\<open>Simplifications.\<close> \<open>sn_number\<close> is a natural number, an \<open>int\<close> in the program, which wraps after 2 to the
  power of 32 snapshots. \<open>b_read\<close> returns the number of bytes as a natural number, the program as an
  \<open>int\<close>. The memory of a new handle is arbitrary in the fields that the program reads before it sets
  them, except that \<open>mapheader.exists\<close> is 0. A stream that has not been opened gives \<open>EBADF\<close> in
  \<open>readdir\<close>. \<open>nftw\<close> can fail when it begins and in the callback. When reading a pointer file fails, the
  buffer keeps its contents. \<open>sn_lat_dir\<close> is not assigned before the first snapshot is made or found;
  the model starts with any value there.
\<close>

end
